(* ===== verification/Prelude.thy ===== *)
theory Prelude
  imports Main "HOL-Library.Word" "HOL-Library.Multiset"
begin

text \<open>
  Shared vocabulary of the development: the machine types of the Rust sources, the
  standard-library containers they use (\<open>HashMap\<close> as a key-unique association list in an
  arbitrary iteration order, \<open>VecDeque\<close> and \<open>Vec\<close> as lists), and the generic facts on
  lists, sorting and step relations that several components use.
\<close>

section \<open>Types\<close>

type_synonym u8 = "8 word"
type_synonym bytes = "u8 list"

text \<open>A \<open>uuid::Uuid\<close> is a 128-bit value that the server only compares.\<close>

type_synonym uuid = "128 word"

text \<open>\<open>std::time::Instant\<close> and \<open>Duration\<close>, in nanoseconds of a monotonic clock.\<close>

type_synonym instant = nat
type_synonym duration = nat

text \<open>A Rust \<open>String\<close> is the list of its UTF-8 bytes (\<open>as_bytes\<close>), so \<open>len\<close> is \<^const>\<open>length\<close>.\<close>

type_synonym rstring = bytes

text \<open>\<open>Result<'a, 'e>\<close>: the error on the left.\<close>

abbreviation Err :: "'e \<Rightarrow> 'e + 'a" where "Err \<equiv> Inl"
abbreviation Ok :: "'a \<Rightarrow> 'e + 'a" where "Ok \<equiv> Inr"

text \<open>Unsigned arithmetic of the release profile wraps at the width of the type.\<close>

definition wrap_u32 :: "nat \<Rightarrow> nat" where
  "wrap_u32 n = n mod 2 ^ 32"

definition wrap_u64 :: "nat \<Rightarrow> nat" where
  "wrap_u64 n = n mod 2 ^ 64"

lemma wrap_u32_id: "n < 2 ^ 32 \<Longrightarrow> wrap_u32 n = n"
  by (simp add: wrap_u32_def)

lemma wrap_u64_id: "n < 2 ^ 64 \<Longrightarrow> wrap_u64 n = n"
  by (simp add: wrap_u64_def)

named_theorems hm_simps \<open>equations of the hash-map operations\<close>

section \<open>HashMap\<close>

text \<open>
  The entries of a \<open>HashMap\<close> in its iteration order. The order is unspecified in Rust, so
  nothing may depend on where \<open>hm_insert\<close> puts a new entry; \<open>hm_set\<close> writes through
  \<open>get_mut\<close> and leaves the entry where it is.
\<close>

type_synonym ('k, 'v) hashmap = "('k \<times> 'v) list"

definition hm_get :: "('k, 'v) hashmap \<Rightarrow> 'k \<Rightarrow> 'v option" where
  "hm_get m k = map_of m k"

definition hm_remove :: "'k \<Rightarrow> ('k, 'v) hashmap \<Rightarrow> ('k, 'v) hashmap" where
  "hm_remove k m = filter (\<lambda>e. fst e \<noteq> k) m"

definition hm_insert :: "'k \<Rightarrow> 'v \<Rightarrow> ('k, 'v) hashmap \<Rightarrow> ('k, 'v) hashmap" where
  "hm_insert k v m = (k, v) # hm_remove k m"

definition hm_set :: "'k \<Rightarrow> 'v \<Rightarrow> ('k, 'v) hashmap \<Rightarrow> ('k, 'v) hashmap" where
  "hm_set k v m = map (\<lambda>e. if fst e = k then (k, v) else e) m"

abbreviation hm_keys :: "('k, 'v) hashmap \<Rightarrow> 'k set" where
  "hm_keys m \<equiv> fst ` set m"

definition hm_ok :: "('k, 'v) hashmap \<Rightarrow> bool" where
  "hm_ok m \<longleftrightarrow> distinct (map fst m)"

text \<open>The contract of a map with unique keys, and what its clients derive from it.\<close>

locale key_map =
  fixes get :: "'m \<Rightarrow> 'k \<Rightarrow> 'v option"
    and insert :: "'k \<Rightarrow> 'v \<Rightarrow> 'm \<Rightarrow> 'm"
    and remove :: "'k \<Rightarrow> 'm \<Rightarrow> 'm"
    and len :: "'m \<Rightarrow> nat"
    and ok :: "'m \<Rightarrow> bool"
  assumes get_insert: "get (insert k v m) k' = (if k' = k then Some v else get m k')"
    and get_remove: "get (remove k m) k' = (if k' = k then None else get m k')"
    and len_insert: "ok m \<Longrightarrow> get m k = None \<Longrightarrow> len (insert k v m) = Suc (len m)"
    and len_remove: "ok m \<Longrightarrow> get m k \<noteq> None \<Longrightarrow> Suc (len (remove k m)) = len m"
    and ok_insert: "ok m \<Longrightarrow> ok (insert k v m)"
    and ok_remove: "ok m \<Longrightarrow> ok (remove k m)"
begin

lemma get_fold_remove: "get (fold remove ks m) k = (if k \<in> set ks then None else get m k)"
  by (induction ks arbitrary: m) (auto simp: get_remove)

lemma ok_fold_remove: "ok m \<Longrightarrow> ok (fold remove ks m)"
  by (induction ks arbitrary: m) (auto simp: ok_remove)

lemma len_remove_le: "ok m \<Longrightarrow> get m k \<noteq> None \<Longrightarrow> len (remove k m) \<le> len m"
  using len_remove [of m k] by simp

lemma len_insert_remove:
  assumes "ok m" and "get m k = None"
  shows "len (remove k (insert k v m)) = len m"
proof -
  have "ok (insert k v m)" using assms(1) by (rule ok_insert)
  moreover have "get (insert k v m) k \<noteq> None" by (simp add: get_insert)
  ultimately have "Suc (len (remove k (insert k v m))) = len (insert k v m)"
    by (rule len_remove)
  then show ?thesis using len_insert [OF assms] by simp
qed

end

lemma map_of_filter_key: "map_of (filter (\<lambda>e. P (fst e)) m) k = (if P k then map_of m k else None)"
  by (induction m) auto

lemma hm_get_remove [hm_simps]: "hm_get (hm_remove k m) k' = (if k' = k then None else hm_get m k')"
  using map_of_filter_key [of "\<lambda>x. x \<noteq> k" m k'] by (simp add: hm_get_def hm_remove_def)

lemma hm_get_insert [hm_simps]: "hm_get (hm_insert k v m) k' = (if k' = k then Some v else hm_get m k')"
proof (cases "k' = k")
  case False
  then show ?thesis using hm_get_remove [of k m k'] by (simp add: hm_insert_def hm_get_def)
qed (simp add: hm_insert_def hm_get_def)

lemma hm_get_set [hm_simps]:
  "hm_get (hm_set k v m) k' = (if k' = k \<and> hm_get m k \<noteq> None then Some v else hm_get m k')"
  by (induction m) (auto simp: hm_get_def hm_set_def)

lemma hm_ok_Nil [simp]: "hm_ok []"
  by (simp add: hm_ok_def)

lemma hm_ok_filter [simp]: "hm_ok m \<Longrightarrow> hm_ok (filter P m)"
  by (simp add: hm_ok_def distinct_map_filter)

lemma hm_ok_remove [simp]: "hm_ok m \<Longrightarrow> hm_ok (hm_remove k m)"
  by (simp add: hm_remove_def)

lemma hm_ok_insert [simp]: "hm_ok m \<Longrightarrow> hm_ok (hm_insert k v m)"
  by (auto simp: hm_insert_def hm_ok_def hm_remove_def distinct_map_filter)

lemma map_fst_hm_set [simp]: "map fst (hm_set k v m) = map fst m"
  by (induction m) (auto simp: hm_set_def)

lemma hm_ok_set [simp]: "hm_ok (hm_set k v m) = hm_ok m"
  by (simp add: hm_ok_def)

lemma hm_get_None_iff: "hm_get m k = None \<longleftrightarrow> k \<notin> hm_keys m"
  by (simp add: hm_get_def map_of_eq_None_iff)

lemma hm_get_Some_iff: "hm_ok m \<Longrightarrow> hm_get m k = Some v \<longleftrightarrow> (k, v) \<in> set m"
  by (simp add: hm_get_def hm_ok_def)

lemma hm_remove_absent: "hm_get m k = None \<Longrightarrow> hm_remove k m = m"
  by (auto simp: hm_remove_def hm_get_None_iff image_iff intro!: filter_True)

lemma hm_insert_absent: "hm_get m k = None \<Longrightarrow> hm_insert k v m = (k, v) # m"
  by (simp add: hm_insert_def hm_remove_absent)

lemma length_hm_remove:
  "hm_ok m \<Longrightarrow> hm_get m k \<noteq> None \<Longrightarrow> Suc (length (hm_remove k m)) = length m"
proof (induction m)
  case (Cons e m)
  show ?case
  proof (cases "fst e = k")
    case True
    with Cons.prems(1) have "hm_get m k = None"
      by (auto simp: hm_ok_def hm_get_None_iff)
    then have "hm_remove k m = m" by (rule hm_remove_absent)
    with True show ?thesis by (simp add: hm_remove_def)
  next
    case False
    with Cons show ?thesis by (cases e) (auto simp: hm_ok_def hm_get_def hm_remove_def)
  qed
qed (simp add: hm_get_def)

interpretation hm: key_map hm_get hm_insert hm_remove length hm_ok
  by unfold_locales
    (simp_all add: hm_simps length_hm_remove hm_insert_absent)

section \<open>Sorting by a key\<close>

lemma insort_key_map:
  "(\<And>x. f (g x) = f x) \<Longrightarrow> insort_key f (g x) (map g xs) = map g (insort_key f x xs)"
  by (induction xs) auto

lemma sort_key_map_same:
  "(\<And>x. f (g x) = f x) \<Longrightarrow> sort_key f (map g xs) = map g (sort_key f xs)"
  by (induction xs) (auto simp: insort_key_map)

lemma insort_key_greatest: "(\<And>y. y \<in> set xs \<Longrightarrow> f y < f x) \<Longrightarrow> insort_key f x xs = xs @ [x]"
  by (induction xs) (auto simp: not_le [symmetric])

lemma sort_key_Cons_greatest:
  assumes "\<And>y. y \<in> set xs \<Longrightarrow> f y < f x"
  shows "sort_key f (x # xs) = sort_key f xs @ [x]"
proof -
  have "insort_key f x (sort_key f xs) = sort_key f xs @ [x]"
    by (rule insort_key_greatest) (simp add: assms)
  then show ?thesis by simp
qed

lemma sort_key_mset_cong:
  assumes "mset xs = mset ys" and "inj_on f (set ys)"
  shows "sort_key f xs = sort_key f ys"
proof -
  have "inj_on f (set xs)" using assms mset_eq_setD [OF assms(1)] by simp
  with assms(1) show ?thesis
    by (intro sort_key_inj_key_eq) auto
qed

lemma sort_key_filter: "sort_key f (filter P xs) = filter P (sort_key f xs)"
  by (simp add: filter_sort)

lemma map_insort_key: "map h (insort_key (\<lambda>x. g (h x)) x ys) = insort_key g (h x) (map h ys)"
  by (induction ys) auto

lemma map_sort_key: "map h (sort_key (\<lambda>x. g (h x)) xs) = sort_key g (map h xs)"
  by (induction xs) (auto simp: map_insort_key)

section \<open>First occurrences\<close>

text \<open>\<open>filter(|x| seen.insert(x))\<close> over a fresh \<open>HashSet\<close>: each value at its first occurrence.\<close>

fun first_seen :: "'a list \<Rightarrow> 'a list \<Rightarrow> 'a list" where
  "first_seen seen [] = []"
| "first_seen seen (x # xs) =
     (if x \<in> set seen then first_seen seen xs else x # first_seen (x # seen) xs)"

lemma set_first_seen: "set (first_seen seen xs) = set xs - set seen"
  by (induction seen xs rule: first_seen.induct) auto

lemma distinct_first_seen: "distinct (first_seen seen xs)"
  by (induction seen xs rule: first_seen.induct) (auto simp: set_first_seen)

section \<open>Runs of a step relation\<close>

text \<open>
  \<open>runs step s ls t\<close>: the labelled steps \<open>ls\<close> lead from \<open>s\<close> to \<open>t\<close>. A component whose
  steps keep a property keeps it along every run; \<open>kept\<close> is proved once per component.
\<close>

inductive runs :: "('s \<Rightarrow> 'l \<Rightarrow> 's \<Rightarrow> bool) \<Rightarrow> 's \<Rightarrow> 'l list \<Rightarrow> 's \<Rightarrow> bool"
  for step where
  runs_Nil: "runs step s [] s"
| runs_Cons: "step s l t \<Longrightarrow> runs step t ls u \<Longrightarrow> runs step s (l # ls) u"

inductive_cases runs_NilE: "runs step s [] t"
inductive_cases runs_ConsE: "runs step s (l # ls) t"

inductive_simps runs_Nil_iff [simp]: "runs step s [] t"
inductive_simps runs_Cons_iff: "runs step s (l # ls) t"

lemma runs_append: "runs step s (ls @ ls') u \<longleftrightarrow> (\<exists>t. runs step s ls t \<and> runs step t ls' u)"
  by (induction ls arbitrary: s) (auto simp: runs_Cons_iff)

locale kept_by_steps =
  fixes step :: "'s \<Rightarrow> 'l \<Rightarrow> 's \<Rightarrow> bool"
    and inv :: "'s \<Rightarrow> bool"
  assumes step_keeps: "step s l t \<Longrightarrow> inv s \<Longrightarrow> inv t"
begin

lemma runs_keep: "runs step s ls t \<Longrightarrow> inv s \<Longrightarrow> inv t"
  by (induction rule: runs.induct) (auto dest: step_keeps)

lemma runs_keep_prefix: "runs step s (ls @ ls') t \<Longrightarrow> inv s \<Longrightarrow> \<exists>u. runs step s ls u \<and> inv u \<and> runs step u ls' t"
  by (auto simp: runs_append dest: runs_keep)

end

end
