(* ===== verification/Socket_File.thy ===== *)
theory Socket_File
  imports Prelude
begin

text \<open>
  \<open>agent_socket/file.rs\<close> and \<open>agent_socket/mod.rs\<close>: claiming the path of a Unix socket and
  giving it up again. The file system is shared with other processes: every system call may
  fail, and before every one of them other processes may have changed the file system, as
  the environment of the operation says.
\<close>

section \<open>The file system\<close>

text \<open>A path as its components: whether it is absolute, and the names.\<close>

type_synonym path = "bool \<times> string list"

text \<open>\<open>Path::parent\<close>; the parent of a single relative name is the empty path.\<close>

fun parent :: "path \<Rightarrow> path option" where
  "parent (absolute, names) = (if names = [] then None else Some (absolute, butlast names))"

definition parent_or_dot :: "path \<Rightarrow> path" where
  "parent_or_dot p =
     (case parent p of None \<Rightarrow> (False, [''.''])
      | Some q \<Rightarrow> if q = (False, []) then (False, [''.'']) else q)"

datatype file_kind = KindSocket | KindDirectory | KindOther

text \<open>What \<open>symlink_metadata\<close> shows of an entry; the device and the inode are its identity.\<close>

record metadata =
  md_kind :: file_kind
  md_dev :: nat
  md_ino :: nat
  md_mode :: "32 word"

definition identity :: "metadata \<Rightarrow> nat \<times> nat" where
  "identity m = (md_dev m, md_ino m)"

text \<open>The entries, the directories, and the sockets (by identity) that a process listens on.\<close>

record file_system =
  entries :: "path \<Rightarrow> metadata option"
  is_dir :: "path \<Rightarrow> bool"
  listening :: "(nat \<times> nat) set"

datatype io_error = IoNotFound | IoConnectionRefused | IoIsADirectory | IoAddrInUse | IoOther

datatype sock_call =
    ScMetadata | ScConnect | ScRecheck | ScRemoveStale | ScBind | ScChmod | ScRemoveFailed | ScInspect
  | ScDropInspect | ScDropRemove

text \<open>
  The environment of an operation: which calls fail, what other processes do before each
  call, and the identity and the mode of a newly bound socket.
\<close>

record sock_env =
  sk_fails :: "sock_call \<Rightarrow> bool"
  sk_others :: "sock_call \<Rightarrow> file_system \<Rightarrow> file_system"
  sk_identity :: "nat \<times> nat"
  sk_mode :: "32 word"

definition symlink_metadata :: "sock_env \<Rightarrow> sock_call \<Rightarrow> path \<Rightarrow> file_system \<Rightarrow> io_error + metadata" where
  "symlink_metadata env call p fs =
     (if sk_fails env call then Err IoOther else (case entries fs p of None \<Rightarrow> Err IoNotFound | Some m \<Rightarrow> Ok m))"

text \<open>\<open>connect\<close> is refused by a file that nobody listens on.\<close>

definition connect :: "sock_env \<Rightarrow> path \<Rightarrow> file_system \<Rightarrow> io_error + unit" where
  "connect env p fs =
     (if sk_fails env ScConnect then Err IoOther
      else (case entries fs p of None \<Rightarrow> Err IoNotFound
            | Some m \<Rightarrow> if identity m \<in> listening fs then Ok () else Err IoConnectionRefused))"

definition remove_file :: "sock_env \<Rightarrow> sock_call \<Rightarrow> path \<Rightarrow> file_system \<Rightarrow> file_system \<times> (io_error + unit)" where
  "remove_file env call p fs =
     (if sk_fails env call then (fs, Err IoOther)
      else (case entries fs p of None \<Rightarrow> (fs, Err IoNotFound)
            | Some m \<Rightarrow>
                if md_kind m = KindDirectory then (fs, Err IoIsADirectory)
                else (fs\<lparr>entries := (entries fs)(p := None)\<rparr>, Ok ())))"

definition listener_bind :: "sock_env \<Rightarrow> path \<Rightarrow> file_system \<Rightarrow> file_system \<times> (io_error + unit)" where
  "listener_bind env p fs =
     (if sk_fails env ScBind then (fs, Err IoOther)
      else if entries fs p \<noteq> None then (fs, Err IoAddrInUse)
      else (fs\<lparr>entries := (entries fs)(p \<mapsto> \<lparr>md_kind = KindSocket, md_dev = fst (sk_identity env),
                md_ino = snd (sk_identity env), md_mode = sk_mode env\<rparr>),
              listening := insert (sk_identity env) (listening fs)\<rparr>, Ok ()))"

definition set_permissions :: "sock_env \<Rightarrow> path \<Rightarrow> 32 word \<Rightarrow> file_system \<Rightarrow> file_system \<times> (io_error + unit)" where
  "set_permissions env p mode fs =
     (if sk_fails env ScChmod then (fs, Err IoOther)
      else (case entries fs p of None \<Rightarrow> (fs, Err IoNotFound)
            | Some m \<Rightarrow> (fs\<lparr>entries := (entries fs)(p \<mapsto> m\<lparr>md_mode := mode\<rparr>)\<rparr>, Ok ())))"

text \<open>Dropping a listener: nobody listens on that socket any more.\<close>

definition close_listener :: "nat \<times> nat \<Rightarrow> file_system \<Rightarrow> file_system" where
  "close_listener sock fs = fs\<lparr>listening := listening fs - {sock}\<rparr>"

section \<open>The agent socket\<close>

datatype path_io_error = PathIoError path io_error

datatype agent_socket_error =
    MissingParent path
  | NotSocket path
  | AlreadyActive path
  | Probe path_io_error
  | Changed path
  | Metadata path_io_error
  | RemoveStale path_io_error
  | Bind path_io_error
  | Permissions path_io_error
  | Accept io_error

record socket_file =
  sf_path :: path
  sf_device :: nat
  sf_inode :: nat

definition prepare_path :: "sock_env \<Rightarrow> path \<Rightarrow> file_system \<Rightarrow> file_system \<times> (agent_socket_error + unit)" where
  "prepare_path env p fs =
     (if \<not> is_dir fs (parent_or_dot p) then (fs, Err (MissingParent (parent_or_dot p)))
      else
        (let fs = sk_others env ScMetadata fs in
         case symlink_metadata env ScMetadata p fs of
           Inl IoNotFound \<Rightarrow> (fs, Ok ())
         | Inl e \<Rightarrow> (fs, Err (Metadata (PathIoError p e)))
         | Inr m \<Rightarrow>
             if md_kind m \<noteq> KindSocket then (fs, Err (NotSocket p))
             else
               (let fs = sk_others env ScConnect fs in
                case connect env p fs of
                  Inr _ \<Rightarrow> (fs, Err (AlreadyActive p))
                | Inl IoConnectionRefused \<Rightarrow>
                    (let fs = sk_others env ScRecheck fs in
                     case symlink_metadata env ScRecheck p fs of
                       Inl e \<Rightarrow> (fs, Err (Metadata (PathIoError p e)))
                     | Inr current \<Rightarrow>
                         if md_dev current \<noteq> md_dev m \<or> md_ino current \<noteq> md_ino m then (fs, Err (Changed p))
                         else (case remove_file env ScRemoveStale p (sk_others env ScRemoveStale fs) of
                                 (fs, Inl e) \<Rightarrow> (fs, Err (RemoveStale (PathIoError p e)))
                               | (fs, Inr _) \<Rightarrow> (fs, Ok ())))
                | Inl e \<Rightarrow> (fs, Err (Probe (PathIoError p e))))))"

text \<open>
  \<open>SocketFile::bind\<close>. A failure after the socket was bound drops its listener; if the
  permissions could not be set the file is removed, if it could not be inspected it stays.
\<close>

definition socket_bind ::
  "sock_env \<Rightarrow> path \<Rightarrow> 32 word \<Rightarrow> file_system \<Rightarrow> file_system \<times> (agent_socket_error + socket_file)" where
  "socket_bind env p mode fs =
     (case prepare_path env p fs of
        (fs, Inl e) \<Rightarrow> (fs, Err e)
      | (fs, Inr _) \<Rightarrow>
     (case listener_bind env p (sk_others env ScBind fs) of
        (fs, Inl e) \<Rightarrow> (fs, Err (Bind (PathIoError p e)))
      | (fs, Inr _) \<Rightarrow>
     (case set_permissions env p mode (sk_others env ScChmod fs) of
        (fs, Inl e) \<Rightarrow>
          (close_listener (sk_identity env) (fst (remove_file env ScRemoveFailed p (sk_others env ScRemoveFailed fs))),
           Err (Permissions (PathIoError p e)))
      | (fs, Inr _) \<Rightarrow>
          (let fs = sk_others env ScInspect fs in
           case symlink_metadata env ScInspect p fs of
             Inl e \<Rightarrow> (close_listener (sk_identity env) fs, Err (Metadata (PathIoError p e)))
           | Inr m \<Rightarrow> (fs, Ok \<lparr>sf_path = p, sf_device = md_dev m, sf_inode = md_ino m\<rparr>)))))"

text \<open>\<open>Drop for SocketFile\<close>.\<close>

definition socket_drop :: "sock_env \<Rightarrow> socket_file \<Rightarrow> file_system \<Rightarrow> file_system" where
  "socket_drop env f fs =
     (let fs = sk_others env ScDropInspect fs in
      case symlink_metadata env ScDropInspect (sf_path f) fs of
        Inl _ \<Rightarrow> fs
      | Inr m \<Rightarrow>
          if md_kind m = KindSocket \<and> md_dev m = sf_device f \<and> md_ino m = sf_inode f
          then fst (remove_file env ScDropRemove (sf_path f) (sk_others env ScDropRemove fs))
          else fs)"

text \<open>The bound socket; dropping it closes the listener first, then the file guard runs.\<close>

record agent_socket =
  as_listener :: "nat \<times> nat"
  as_file :: socket_file
  as_max_packet_size :: nat

definition agent_socket_bind ::
  "sock_env \<Rightarrow> path \<Rightarrow> 32 word \<Rightarrow> nat \<Rightarrow> file_system \<Rightarrow> file_system \<times> (agent_socket_error + agent_socket)" where
  "agent_socket_bind env p mode max_packet_size fs =
     (case socket_bind env p mode fs of
        (fs, Inl e) \<Rightarrow> (fs, Err e)
      | (fs, Inr f) \<Rightarrow>
          (fs, Ok \<lparr>as_listener = sk_identity env, as_file = f, as_max_packet_size = max_packet_size\<rparr>))"

definition agent_socket_drop :: "sock_env \<Rightarrow> agent_socket \<Rightarrow> file_system \<Rightarrow> file_system" where
  "agent_socket_drop env s fs = socket_drop env (as_file s) (close_listener (as_listener s) fs)"

section \<open>The contract of a socket owner\<close>

text \<open>Operations that no other process interferes with.\<close>

definition alone :: "sock_env \<Rightarrow> bool" where
  "alone env \<longleftrightarrow> (\<forall>call. sk_others env call = id)"

text \<open>A file that must not be replaced: no socket, or a socket that somebody listens on.\<close>

definition in_use :: "file_system \<Rightarrow> path \<Rightarrow> bool" where
  "in_use fs p \<longleftrightarrow> (\<exists>m. entries fs p = Some m \<and> (md_kind m \<noteq> KindSocket \<or> identity m \<in> listening fs))"

definition owned_at :: "file_system \<Rightarrow> path \<Rightarrow> nat \<times> nat \<Rightarrow> bool" where
  "owned_at fs p sock \<longleftrightarrow> (\<exists>m. entries fs p = Some m \<and> md_kind m = KindSocket \<and> identity m = sock)"

text \<open>
  What a failed bind may leave behind: the socket it has just created, with nobody listening,
  because it could not be inspected, or because its permissions could not be set and it could
  not be removed either.
\<close>

definition abandoned :: "sock_env \<Rightarrow> file_system \<Rightarrow> path \<Rightarrow> bool" where
  "abandoned env fs p \<longleftrightarrow> (sk_fails env ScInspect \<or> sk_fails env ScChmod \<and> sk_fails env ScRemoveFailed)
     \<and> owned_at fs p (sk_identity env) \<and> sk_identity env \<notin> listening fs"

text \<open>
  The agent socket and the control socket have the same contract: binding replaces nothing
  but a stale socket, and dropping removes nothing but the socket that was bound.
\<close>

locale socket_owner =
  fixes bind :: "sock_env \<Rightarrow> path \<Rightarrow> 32 word \<Rightarrow> file_system \<Rightarrow> file_system \<times> ('e + 's)"
    and drop :: "sock_env \<Rightarrow> 's \<Rightarrow> file_system \<Rightarrow> file_system"
    and owner_path :: "'s \<Rightarrow> path"
    and owner_sock :: "'s \<Rightarrow> nat \<times> nat"
  assumes bind_in_use: "alone env \<Longrightarrow> in_use fs p \<Longrightarrow> \<exists>e. bind env p mode fs = (fs, Err e)"
    and bind_frame: "alone env \<Longrightarrow> bind env p mode fs = (fs', r) \<Longrightarrow> q \<noteq> p \<Longrightarrow> entries fs' q = entries fs q"
    and bind_Ok: "alone env \<Longrightarrow> bind env p mode fs = (fs', Ok s) \<Longrightarrow>
      owner_path s = p \<and> owner_sock s = sk_identity env \<and> sk_identity env \<in> listening fs'
      \<and> (\<exists>m. entries fs' p = Some m \<and> md_kind m = KindSocket \<and> identity m = sk_identity env \<and> md_mode m = mode)"
    and drop_frame: "alone env \<Longrightarrow> q \<noteq> owner_path s \<Longrightarrow> entries (drop env s fs) q = entries fs q"
    and drop_own: "alone env \<Longrightarrow> \<not> sk_fails env ScDropInspect \<Longrightarrow> \<not> sk_fails env ScDropRemove \<Longrightarrow>
      owned_at fs (owner_path s) (owner_sock s) \<Longrightarrow> entries (drop env s fs) (owner_path s) = None"
    and drop_foreign: "alone env \<Longrightarrow> \<not> owned_at fs (owner_path s) (owner_sock s) \<Longrightarrow> entries (drop env s fs) = entries fs"
    and drop_fails: "alone env \<Longrightarrow> sk_fails env ScDropInspect \<or> sk_fails env ScDropRemove \<Longrightarrow> entries (drop env s fs) = entries fs"
    and drop_listening: "alone env \<Longrightarrow> listening (drop env s fs) \<subseteq> listening fs"
    and bind_Err: "alone env \<Longrightarrow> bind env p mode fs = (fs', Err e) \<Longrightarrow>
      entries fs' p = entries fs p \<or> entries fs' p = None \<or> abandoned env fs' p"
    and bind_listening: "alone env \<Longrightarrow> bind env p mode fs = (fs', Ok s) \<Longrightarrow> listening fs \<subseteq> listening fs'"
begin

text \<open>While an owner listens, nobody else can claim its path.\<close>

lemma exclusive:
  assumes "alone env" and "bind env p mode fs = (fs1, Ok s)" and "alone env2"
  shows "\<exists>e. bind env2 p mode2 fs1 = (fs1, Err e)"
proof -
  from bind_Ok [OF assms(1,2)] obtain m where "entries fs1 p = Some m" "identity m \<in> listening fs1" by auto
  then have "in_use fs1 p" unfolding in_use_def by blast
  with assms(3) show ?thesis by (rule bind_in_use)
qed

text \<open>Binding and dropping leave every other path as it was, and the path free.\<close>

lemma lifecycle:
  assumes "alone env" and "bind env p mode fs = (fs1, Ok s)" and "alone env2"
    and "\<not> sk_fails env2 ScDropInspect" and "\<not> sk_fails env2 ScDropRemove"
  shows "entries (drop env2 s fs1) = (entries fs)(p := None)"
proof -
  from bind_Ok [OF assms(1,2)] have s: "owner_path s = p" and "owned_at fs1 (owner_path s) (owner_sock s)"
    by (auto simp: owned_at_def)
  from drop_own [OF assms(3-5) this(2)] have free: "entries (drop env2 s fs1) p = None" by (simp add: s)
  have "entries (drop env2 s fs1) q = ((entries fs)(p := None)) q" for q
  proof (cases "q = p")
    case False
    then show ?thesis using drop_frame [OF assms(3), of q s fs1] bind_frame [OF assms(1,2), of q] by (simp add: s)
  qed (simp add: free)
  then show ?thesis by (rule ext)
qed

text \<open>Whatever is at the path by then, a drop removes the socket that was bound, and nothing else.\<close>

lemma drop_exact:
  assumes "alone env" and "bind env p mode fs = (fs1, Ok s)" and "alone env2"
  shows "entries (drop env2 s fs2) =
    (if owned_at fs2 p (sk_identity env) \<and> \<not> sk_fails env2 ScDropInspect \<and> \<not> sk_fails env2 ScDropRemove
     then (entries fs2)(p := None) else entries fs2)"
proof -
  from bind_Ok [OF assms(1,2)] have s: "owner_path s = p" "owner_sock s = sk_identity env" by auto
  show ?thesis
  proof (cases "owned_at fs2 p (sk_identity env) \<and> \<not> sk_fails env2 ScDropInspect \<and> \<not> sk_fails env2 ScDropRemove")
    case True
    then have "entries (drop env2 s fs2) p = None" using drop_own [OF assms(3), of fs2 s] by (simp add: s)
    then have "entries (drop env2 s fs2) q = ((entries fs2)(p := None)) q" for q
      using drop_frame [OF assms(3), of q s fs2] by (simp add: s)
    then show ?thesis using True by (auto simp: fun_eq_iff)
  next
    case False
    then have "entries (drop env2 s fs2) = entries fs2"
      using drop_foreign [OF assms(3), of fs2 s] drop_fails [OF assms(3), of s fs2] by (auto simp: s)
    then show ?thesis using False by auto
  qed
qed

end

section \<open>The agent socket fulfils it\<close>

lemma prepare_path_alone:
  assumes "alone env"
  shows "in_use fs p \<Longrightarrow> \<exists>e. prepare_path env p fs = (fs, Err e)"
    and "prepare_path env p fs = (fs', r) \<Longrightarrow> fs' = fs \<or> fs' = fs\<lparr>entries := (entries fs)(p := None)\<rparr>"
    and "prepare_path env p fs = (fs', Ok ()) \<Longrightarrow> entries fs' p = None \<or> fs' = fs"
  using assms
  by (auto simp: prepare_path_def alone_def in_use_def symlink_metadata_def connect_def remove_file_def Let_def
      split: if_splits option.splits sum.splits io_error.splits prod.splits)

lemma close_listener_entries [simp]: "entries (close_listener sock fs) = entries fs"
  by (simp add: close_listener_def)

lemma socket_bind_alone:
  assumes "alone env"
  shows "in_use fs p \<Longrightarrow> \<exists>e. socket_bind env p mode fs = (fs, Err e)"
    and "socket_bind env p mode fs = (fs', r) \<Longrightarrow> q \<noteq> p \<Longrightarrow> entries fs' q = entries fs q"
    and "socket_bind env p mode fs = (fs', Ok f) \<Longrightarrow>
      sf_path f = p \<and> (sf_device f, sf_inode f) = sk_identity env \<and> sk_identity env \<in> listening fs'
      \<and> (\<exists>m. entries fs' p = Some m \<and> md_kind m = KindSocket \<and> identity m = sk_identity env \<and> md_mode m = mode)"
    and "socket_bind env p mode fs = (fs', Err e) \<Longrightarrow> entries fs' p = entries fs p \<or> entries fs' p = None \<or> abandoned env fs' p"
    and "socket_bind env p mode fs = (fs', Ok f) \<Longrightarrow> listening fs \<subseteq> listening fs'"
proof -
  have others: "sk_others env call = id" for call using assms by (simp add: alone_def)
  show "\<exists>e. socket_bind env p mode fs = (fs, Err e)" if use: "in_use fs p"
  proof -
    obtain e where "prepare_path env p fs = (fs, Err e)" using prepare_path_alone(1) [OF assms use] by blast
    then show ?thesis by (simp add: socket_bind_def)
  qed
  show "socket_bind env p mode fs = (fs', r) \<Longrightarrow> q \<noteq> p \<Longrightarrow> entries fs' q = entries fs q"
    by (auto simp: socket_bind_def others listener_bind_def set_permissions_def remove_file_def Let_def
        split: prod.splits sum.splits if_splits option.splits dest!: prepare_path_alone(2) [OF assms])
  show "socket_bind env p mode fs = (fs', Ok f) \<Longrightarrow>
      sf_path f = p \<and> (sf_device f, sf_inode f) = sk_identity env \<and> sk_identity env \<in> listening fs'
      \<and> (\<exists>m. entries fs' p = Some m \<and> md_kind m = KindSocket \<and> identity m = sk_identity env \<and> md_mode m = mode)"
    by (auto simp: socket_bind_def others listener_bind_def set_permissions_def symlink_metadata_def identity_def Let_def
        split: prod.splits sum.splits if_splits option.splits)
  show "socket_bind env p mode fs = (fs', Err e) \<Longrightarrow> entries fs' p = entries fs p \<or> entries fs' p = None \<or> abandoned env fs' p"
    by (auto simp: socket_bind_def others listener_bind_def set_permissions_def remove_file_def symlink_metadata_def Let_def
        abandoned_def owned_at_def identity_def close_listener_def
        split: prod.splits sum.splits if_splits option.splits dest!: prepare_path_alone(2) [OF assms])
  show "socket_bind env p mode fs = (fs', Ok f) \<Longrightarrow> listening fs \<subseteq> listening fs'"
    by (auto simp: socket_bind_def others listener_bind_def set_permissions_def symlink_metadata_def Let_def
        split: prod.splits sum.splits if_splits option.splits dest!: prepare_path_alone(2) [OF assms])
qed

lemma socket_drop_alone:
  assumes "alone env"
  shows "q \<noteq> sf_path f \<Longrightarrow> entries (socket_drop env f fs) q = entries fs q"
    and "\<not> sk_fails env ScDropInspect \<Longrightarrow> \<not> sk_fails env ScDropRemove \<Longrightarrow>
      owned_at fs (sf_path f) (sf_device f, sf_inode f) \<Longrightarrow> entries (socket_drop env f fs) (sf_path f) = None"
    and "\<not> owned_at fs (sf_path f) (sf_device f, sf_inode f) \<Longrightarrow> entries (socket_drop env f fs) = entries fs"
    and "sk_fails env ScDropInspect \<or> sk_fails env ScDropRemove \<Longrightarrow> entries (socket_drop env f fs) = entries fs"
    and "listening (socket_drop env f fs) = listening fs"
  using assms
  by (auto simp: socket_drop_def alone_def owned_at_def identity_def symlink_metadata_def remove_file_def Let_def
      split: sum.splits option.splits if_splits)

lemma owned_at_close [simp]: "owned_at (close_listener sock fs) p i = owned_at fs p i"
  by (simp add: owned_at_def)

interpretation agent_sockets: socket_owner "\<lambda>env p mode. agent_socket_bind env p mode max_packet_size" agent_socket_drop
    "\<lambda>s. sf_path (as_file s)" "\<lambda>s. (sf_device (as_file s), sf_inode (as_file s))" for max_packet_size
proof (unfold_locales, goal_cases)
  case (1 env fs p mode)
  then obtain e where "socket_bind env p mode fs = (fs, Err e)" using socket_bind_alone(1) by blast
  then show ?case by (simp add: agent_socket_bind_def)
next
  case (2 env p mode fs fs' r q)
  then show ?case by (auto simp: agent_socket_bind_def split: prod.splits sum.splits dest: socket_bind_alone(2))
next
  case (3 env p mode fs fs' s)
  then show ?case by (auto simp: agent_socket_bind_def split: prod.splits sum.splits dest!: socket_bind_alone(3))
next
  case (4 env q s fs)
  then show ?case by (simp add: agent_socket_drop_def socket_drop_alone(1))
next
  case (5 env fs s)
  then show ?case by (simp add: agent_socket_drop_def socket_drop_alone(2))
next
  case (6 env fs s)
  then show ?case by (simp add: agent_socket_drop_def socket_drop_alone(3))
next
  case (7 env s fs)
  then show ?case by (simp add: agent_socket_drop_def socket_drop_alone(4))
next
  case (8 env s fs)
  then show ?case by (auto simp: agent_socket_drop_def socket_drop_alone(5) close_listener_def)
next
  case (9 env p mode fs fs' e)
  then show ?case by (auto simp: agent_socket_bind_def split: prod.splits sum.splits dest: socket_bind_alone(4))
next
  case (10 env p mode fs fs' s)
  then show ?case by (auto simp: agent_socket_bind_def split: prod.splits sum.splits dest!: socket_bind_alone(5))
qed

text \<open>
  A failing inspection does leave the socket behind: \<open>?\<close> returns before the guard that would
  remove the file exists.
\<close>

lemma failed_inspection_abandons_socket:
  assumes "alone env" and "is_dir fs (parent_or_dot p)" and "entries fs p = None" and "sk_fails env ScInspect"
    and "\<not> sk_fails env ScMetadata" and "\<not> sk_fails env ScBind" and "\<not> sk_fails env ScChmod"
  shows "\<exists>fs'. agent_socket_bind env p mode n fs = (fs', Err (Metadata (PathIoError p IoOther))) \<and> abandoned env fs' p"
  using assms
  by (simp add: agent_socket_bind_def socket_bind_def prepare_path_def symlink_metadata_def listener_bind_def set_permissions_def
      alone_def abandoned_def owned_at_def identity_def close_listener_def)

section \<open>Properties\<close>

text \<open>
  C34: the socket path is claimed without harm and given back. As long as no other process
  interferes while it binds or drops, binding fails and changes nothing when the path holds
  anything but a stale socket, and it never touches another path. When it succeeds, the path
  is a listening socket with the requested mode, and a second server cannot claim it. Whatever
  the file system has become by the time the socket is dropped, the drop removes the file at
  the path if that is the very socket that was bound (and the file can be inspected and
  removed), and changes no entry otherwise; so without changes in between the file system is
  as it was before, with the path free.
\<close>

theorem agent_socket_claim_is_safe:
  assumes "alone env"
  shows "(in_use fs p \<longrightarrow> (\<exists>e. agent_socket_bind env p mode n fs = (fs, Err e)))
    \<and> (\<forall>fs' s. agent_socket_bind env p mode n fs = (fs', Ok s) \<longrightarrow>
         (\<exists>m. entries fs' p = Some m \<and> md_kind m = KindSocket \<and> md_mode m = mode \<and> identity m \<in> listening fs')
         \<and> (\<forall>q. q \<noteq> p \<longrightarrow> entries fs' q = entries fs q)
         \<and> (\<forall>env2 mode2 n2. alone env2 \<longrightarrow> (\<exists>e. agent_socket_bind env2 p mode2 n2 fs' = (fs', Err e)))
         \<and> (\<forall>env2 fs2. alone env2 \<longrightarrow> entries (agent_socket_drop env2 s fs2) =
              (if owned_at fs2 p (sk_identity env) \<and> \<not> sk_fails env2 ScDropInspect \<and> \<not> sk_fails env2 ScDropRemove
               then (entries fs2)(p := None) else entries fs2))
         \<and> (\<forall>env2. alone env2 \<and> \<not> sk_fails env2 ScDropInspect \<and> \<not> sk_fails env2 ScDropRemove \<longrightarrow>
              entries (agent_socket_drop env2 s fs') = (entries fs)(p := None)))"
proof (intro conjI allI impI)
  show "\<exists>e. agent_socket_bind env p mode n fs = (fs, Err e)" if "in_use fs p"
    using assms that by (rule agent_sockets.bind_in_use)
next
  fix fs' s assume ok: "agent_socket_bind env p mode n fs = (fs', Ok s)"
  note bound = agent_sockets.bind_Ok [OF assms ok]
  show "\<exists>m. entries fs' p = Some m \<and> md_kind m = KindSocket \<and> md_mode m = mode \<and> identity m \<in> listening fs'"
    using bound by auto
  show "entries fs' q = entries fs q" if "q \<noteq> p" for q
    using agent_sockets.bind_frame [OF assms ok that] .
  show "\<exists>e. agent_socket_bind env2 p mode2 n2 fs' = (fs', Err e)" if "alone env2" for env2 mode2 n2
  proof -
    from bound have "in_use fs' p" by (auto simp: in_use_def)
    with that show ?thesis by (rule agent_sockets.bind_in_use)
  qed
  show "entries (agent_socket_drop env2 s fs2) = (if owned_at fs2 p (sk_identity env) \<and> \<not> sk_fails env2 ScDropInspect
      \<and> \<not> sk_fails env2 ScDropRemove then (entries fs2)(p := None) else entries fs2)" if "alone env2" for env2 fs2
    by (rule agent_sockets.drop_exact [OF assms ok that])
  show "entries (agent_socket_drop env2 s fs') = (entries fs)(p := None)"
    if "alone env2 \<and> \<not> sk_fails env2 ScDropInspect \<and> \<not> sk_fails env2 ScDropRemove" for env2
    using agent_sockets.lifecycle [OF assms ok] that by blast
qed

definition ex_sock_env :: "nat \<times> nat \<Rightarrow> sock_env" where
  "ex_sock_env sock = \<lparr>sk_fails = (\<lambda>_. False), sk_others = (\<lambda>_. id), sk_identity = sock, sk_mode = 0x1ED\<rparr>"

definition ex_stale :: metadata where
  "ex_stale = \<lparr>md_kind = KindSocket, md_dev = 1, md_ino = 5, md_mode = 0x180\<rparr>"

definition ex_fs :: file_system where
  "ex_fs = \<lparr>entries = [(True, [''run'', ''agent.sock'']) \<mapsto> ex_stale], is_dir = (\<lambda>p. p = (True, [''run''])), listening = {}\<rparr>"

abbreviation ex_sock_path :: path where "ex_sock_path \<equiv> (True, [''run'', ''agent.sock''])"

lemma ex_alone: "alone (ex_sock_env sock)"
  by (simp add: alone_def ex_sock_env_def)

text \<open>A stale socket is replaced.\<close>

lemma ex_bind: "\<exists>fs' s. agent_socket_bind (ex_sock_env (1, 9)) ex_sock_path 0x180 1024 ex_fs = (fs', Ok s)"
  by (simp add: agent_socket_bind_def socket_bind_def prepare_path_def parent_or_dot_def ex_fs_def ex_stale_def ex_sock_env_def
      symlink_metadata_def connect_def remove_file_def listener_bind_def set_permissions_def identity_def)

text \<open>Dropped at once the socket is gone; dropped after the stale socket was put back, that one survives.\<close>

theorem agent_socket_claim_is_safe_witness:
  "\<exists>fs' s. agent_socket_bind (ex_sock_env (1, 9)) ex_sock_path 0x180 1024 ex_fs = (fs', Ok s)
    \<and> entries (agent_socket_drop (ex_sock_env (1, 9)) s fs') = (entries ex_fs)(ex_sock_path := None)
    \<and> entries (agent_socket_drop (ex_sock_env (1, 9)) s ex_fs) ex_sock_path = Some ex_stale"
proof -
  obtain fs' s where bound: "agent_socket_bind (ex_sock_env (1, 9)) ex_sock_path 0x180 1024 ex_fs = (fs', Ok s)"
    using ex_bind by blast
  have sound: "alone (ex_sock_env (1, 9)) \<and> \<not> sk_fails (ex_sock_env (1, 9)) ScDropInspect \<and> \<not> sk_fails (ex_sock_env (1, 9)) ScDropRemove"
    using ex_alone by (simp add: ex_sock_env_def)
  note safe = agent_socket_claim_is_safe [OF ex_alone, THEN conjunct2, THEN spec, THEN spec, THEN mp, OF bound]
  note dropped = safe [THEN conjunct2, THEN conjunct2, THEN conjunct2]
  have "entries (agent_socket_drop (ex_sock_env (1, 9)) s ex_fs) = entries ex_fs"
    using dropped [THEN conjunct1, THEN spec, THEN spec, THEN mp, OF ex_alone, of "(1, 9)" ex_fs]
    by (simp add: owned_at_def ex_fs_def ex_stale_def identity_def ex_sock_env_def)
  then have "entries (agent_socket_drop (ex_sock_env (1, 9)) s ex_fs) ex_sock_path = Some ex_stale" by (simp add: ex_fs_def)
  with dropped [THEN conjunct2, THEN spec, THEN mp, OF sound] bound show ?thesis by blast
qed

text \<open>
  C35: only the file that was inspected is removed. Let other processes do anything except
  between the second look at the path and the removal. If preparing the path succeeds although
  it held a file at the first look, then that file was a socket; whatever was at the path when
  it was probed refused the connection because nobody listened on it; the file removed is the
  one at the path at the second look, and it has the device and the inode of the first look.
  Whether the file that was probed is also that one the code does not check: if it was, and
  nobody has begun to listen on it since the probe, then nobody listens on the file removed;
  other processes that swap the file around the probe can defeat this.
\<close>

theorem agent_socket_removes_inspected_only:
  assumes "prepare_path env p fs = (fs', Ok ())" and "sk_others env ScRemoveStale = id"
    and "entries (sk_others env ScMetadata fs) p = Some m"
  shows "let probed = sk_others env ScConnect (sk_others env ScMetadata fs); seen = sk_others env ScRecheck probed in
    md_kind m = KindSocket
    \<and> (\<exists>x. entries probed p = Some x \<and> identity x \<notin> listening probed)
    \<and> (\<exists>x. entries seen p = Some x \<and> identity x = identity m)
    \<and> fs' = seen\<lparr>entries := (entries seen)(p := None)\<rparr>
    \<and> ((\<exists>x. entries probed p = Some x \<and> identity x = identity m) \<and> (identity m \<in> listening seen \<longrightarrow> identity m \<in> listening probed)
        \<longrightarrow> identity m \<notin> listening seen)"
  using assms
  by (auto simp: prepare_path_def symlink_metadata_def connect_def remove_file_def identity_def Let_def
      split: if_splits option.splits sum.splits io_error.splits prod.splits)

theorem agent_socket_removes_inspected_only_witness:
  "\<exists>fs'. prepare_path (ex_sock_env (1, 9)) ex_sock_path ex_fs = (fs', Ok ()) \<and> entries fs' ex_sock_path = None
    \<and> identity ex_stale \<notin> listening ex_fs"
proof -
  obtain fs' where run: "prepare_path (ex_sock_env (1, 9)) ex_sock_path ex_fs = (fs', Ok ())"
    by (simp add: prepare_path_def parent_or_dot_def ex_fs_def ex_stale_def ex_sock_env_def
        symlink_metadata_def connect_def remove_file_def identity_def)
  have others: "sk_others (ex_sock_env sock) call = id" for sock call by (simp add: ex_sock_env_def)
  have "entries (sk_others (ex_sock_env (1, 9)) ScMetadata ex_fs) ex_sock_path = Some ex_stale"
    by (simp add: others ex_fs_def)
  from agent_socket_removes_inspected_only [OF run others this] run show ?thesis by (auto simp: Let_def others)
qed

end
