(* ===== verification/Wire.thy ===== *)
theory Wire
  imports Prelude
begin

text \<open>
  The byte-level standard-library operations of the packet code: checked slices
  (\<open>slice::get\<close>), big-endian \<open>u32\<close> conversion, and the UTF-8 routines of
  \<open>std::str\<close> (validation, lossy decoding, the characters of a string and the two
  character classes that the context decoder tests). The target is 64-bit: a \<open>usize\<close> is a
  natural number below \<open>2 ^ 64\<close>.
\<close>

section \<open>Slices\<close>

text \<open>\<open>xs.get(a..b)\<close>.\<close>

definition slice_get :: "'a list \<Rightarrow> nat \<Rightarrow> nat \<Rightarrow> 'a list option" where
  "slice_get xs a b = (if a \<le> b \<and> b \<le> length xs then Some (take (b - a) (drop a xs)) else None)"

lemma slice_get_append: "slice_get (xs @ ys) 0 (length xs) = Some xs"
  by (simp add: slice_get_def)

lemma length_slice_get: "slice_get xs a b = Some ys \<Longrightarrow> length ys = b - a \<and> b \<le> length xs"
  by (auto simp: slice_get_def split: if_splits)

lemma prefix_drop_iff:
  "length t = n \<Longrightarrow> (\<exists>rest. p = t @ rest) \<and> drop n p = q \<longleftrightarrow> p = t @ q"
  by auto

section \<open>Big-endian u32\<close>

text \<open>\<open>(n as u32).to_be_bytes()\<close>; the cast drops the bits above 32.\<close>

definition to_be_bytes :: "nat \<Rightarrow> bytes" where
  "to_be_bytes n = [of_nat (n div 2 ^ 24), of_nat (n div 2 ^ 16), of_nat (n div 2 ^ 8), of_nat n]"

text \<open>\<open>u32::from_be_bytes\<close> of a four-byte slice.\<close>

definition from_be_bytes :: "bytes \<Rightarrow> nat" where
  "from_be_bytes bs = foldl (\<lambda>acc b. acc * 256 + unat b) 0 bs"

lemma length_to_be_bytes [simp]: "length (to_be_bytes n) = 4"
  by (simp add: to_be_bytes_def)

lemma unat_of_nat_u8: "unat (of_nat n :: u8) = n mod 256"
  by (simp add: unat_of_nat)

lemma be_digits: "n < 256 * 256 * 256 * 256 \<Longrightarrow>
  ((n div 16777216 mod 256 * 256 + n div 65536 mod 256) * 256 + n div 256 mod 256) * 256 + n mod 256 = (n :: nat)"
proof -
  assume "n < 256 * 256 * 256 * 256"
  then have "n div 16777216 mod 256 = n div 16777216" by simp
  moreover have "n div 16777216 * 256 + n div 65536 mod 256 = n div 65536"
    using div_mult_mod_eq [of "n div 65536" 256] by (simp add: div_mult2_eq [symmetric])
  moreover have "n div 65536 * 256 + n div 256 mod 256 = n div 256"
    using div_mult_mod_eq [of "n div 256" 256] by (simp add: div_mult2_eq [symmetric])
  ultimately show ?thesis by simp
qed

lemma from_to_be_bytes: "n < 2 ^ 32 \<Longrightarrow> from_be_bytes (to_be_bytes n) = n"
  using be_digits [of n] by (simp add: from_be_bytes_def to_be_bytes_def unat_of_nat_u8)

lemma unat_u8_less: "unat (b :: u8) < 256"
  using unsigned_less [of b] by simp

lemma from_be_bytes_bound:
  assumes "length bs = 4"
  shows "from_be_bytes bs < 2 ^ 32"
proof -
  from assms obtain a b c d where "bs = [a, b, c, d]"
    by (auto simp: length_Suc_conv numeral_eq_Suc)
  then show ?thesis
    using unat_u8_less [of a] unat_u8_less [of b] unat_u8_less [of c] unat_u8_less [of d]
    by (simp add: from_be_bytes_def)
qed

lemma to_from_be_bytes:
  assumes "length bs = 4"
  shows "to_be_bytes (from_be_bytes bs) = bs"
proof -
  from assms obtain a b c d where bs: "bs = [a, b, c, d]"
    by (auto simp: length_Suc_conv numeral_eq_Suc)
  have bound: "unat x < 256" for x :: u8 by (rule unat_u8_less)
  have low: "(of_nat (k * 256 + unat x) :: u8) = x" for k and x :: u8
    using bound [of x] by (simp only: word_unat_eq_iff unat_of_nat_u8) simp
  let ?n = "((unat a * 256 + unat b) * 256 + unat c) * 256 + unat d"
  have "?n div 2 ^ 8 = (unat a * 256 + unat b) * 256 + unat c" using bound [of d] by simp
  moreover have "?n div 2 ^ 16 = unat a * 256 + unat b" using bound [of c] bound [of d] by simp
  moreover have "?n div 2 ^ 24 = unat a" using bound [of b] bound [of c] bound [of d] by simp
  ultimately have "to_be_bytes ?n = [of_nat (unat a), of_nat (unat a * 256 + unat b),
      of_nat ((unat a * 256 + unat b) * 256 + unat c), of_nat ?n]"
    by (simp only: to_be_bytes_def)
  also have "\<dots> = [a, b, c, d]"
    by (simp only: low of_nat_unat ucast_id)
  finally show ?thesis by (simp add: bs from_be_bytes_def)
qed

text \<open>A length-prefixed block: the prefix is the length of what follows it.\<close>

lemma be_prefix_iff:
  "4 \<le> length p \<and> from_be_bytes (take 4 p) = n \<longleftrightarrow> n < 2 ^ 32 \<and> (\<exists>rest. p = to_be_bytes n @ rest)"
proof
  assume p: "4 \<le> length p \<and> from_be_bytes (take 4 p) = n"
  then have "length (take 4 p) = 4" by simp
  with p have "n < 2 ^ 32" "to_be_bytes n = take 4 p"
    using from_be_bytes_bound to_from_be_bytes by (metis, metis)
  then show "n < 2 ^ 32 \<and> (\<exists>rest. p = to_be_bytes n @ rest)"
    by (metis append_take_drop_id)
next
  assume "n < 2 ^ 32 \<and> (\<exists>rest. p = to_be_bytes n @ rest)"
  then show "4 \<le> length p \<and> from_be_bytes (take 4 p) = n"
    by (auto simp: from_to_be_bytes)
qed

section \<open>UTF-8\<close>

definition byte_at :: "bytes \<Rightarrow> nat \<Rightarrow> nat" where
  "byte_at bs i = (if i < length bs then unat (bs ! i) else 0)"

definition utf8_cont :: "nat \<Rightarrow> bool" where
  "utf8_cont b \<longleftrightarrow> 0x80 \<le> b \<and> b \<le> 0xBF"

text \<open>The second-byte ranges of three- and four-byte sequences in \<open>core::str\<close>.\<close>

definition utf8_second3 :: "nat \<Rightarrow> nat \<Rightarrow> bool" where
  "utf8_second3 b0 b1 \<longleftrightarrow>
     (if b0 = 0xE0 then 0xA0 \<le> b1 \<and> b1 \<le> 0xBF
      else if b0 = 0xED then 0x80 \<le> b1 \<and> b1 \<le> 0x9F
      else utf8_cont b1)"

definition utf8_second4 :: "nat \<Rightarrow> nat \<Rightarrow> bool" where
  "utf8_second4 b0 b1 \<longleftrightarrow>
     (if b0 = 0xF0 then 0x90 \<le> b1 \<and> b1 \<le> 0xBF
      else if b0 = 0xF4 then 0x80 \<le> b1 \<and> b1 \<le> 0x8F
      else utf8_cont b1)"

text \<open>
  One step of the validator on a non-empty input: \<open>(True, n)\<close> when a character of \<open>n\<close>
  bytes starts here, \<open>(False, n)\<close> when the first \<open>n\<close> bytes are a maximal invalid prefix. A
  byte past the end reads as \<open>0\<close>, as in \<open>Utf8Chunks\<close>.
\<close>

definition utf8_classify :: "nat \<Rightarrow> nat \<Rightarrow> nat \<Rightarrow> nat \<Rightarrow> bool \<times> nat" where
  "utf8_classify b0 b1 b2 b3 =
     (if b0 < 0x80 then (True, 1)
      else if 0xC2 \<le> b0 \<and> b0 \<le> 0xDF then
        (if utf8_cont b1 then (True, 2) else (False, 1))
      else if 0xE0 \<le> b0 \<and> b0 \<le> 0xEF then
        (if \<not> utf8_second3 b0 b1 then (False, 1)
         else if \<not> utf8_cont b2 then (False, 2) else (True, 3))
      else if 0xF0 \<le> b0 \<and> b0 \<le> 0xF4 then
        (if \<not> utf8_second4 b0 b1 then (False, 1)
         else if \<not> utf8_cont b2 then (False, 2)
         else if \<not> utf8_cont b3 then (False, 3) else (True, 4))
      else (False, 1))"

definition utf8_step :: "bytes \<Rightarrow> bool \<times> nat" where
  "utf8_step bs = utf8_classify (byte_at bs 0) (byte_at bs 1) (byte_at bs 2) (byte_at bs 3)"

text \<open>The scalar value of the character of \<open>n\<close> bytes that starts the input.\<close>

definition utf8_char :: "bytes \<Rightarrow> nat \<Rightarrow> nat" where
  "utf8_char bs n =
     (if n = 1 then byte_at bs 0
      else if n = 2 then byte_at bs 0 mod 32 * 64 + byte_at bs 1 mod 64
      else if n = 3 then (byte_at bs 0 mod 16 * 64 + byte_at bs 1 mod 64) * 64 + byte_at bs 2 mod 64
      else ((byte_at bs 0 mod 8 * 64 + byte_at bs 1 mod 64) * 64 + byte_at bs 2 mod 64) * 64
           + byte_at bs 3 mod 64)"

lemma utf8_step_pos: "0 < snd (utf8_step bs)"
  by (simp add: utf8_step_def utf8_classify_def)

text \<open>\<open>str::from_utf8\<close> succeeds.\<close>

function utf8_valid :: "bytes \<Rightarrow> bool" where
  "utf8_valid bs =
     (if bs = [] then True
      else if fst (utf8_step bs) then utf8_valid (drop (snd (utf8_step bs)) bs)
      else False)"
  by pat_completeness auto
termination
  by (relation "measure length") (auto simp: utf8_step_pos)

text \<open>\<open>str::chars\<close> of a valid string, as scalar values.\<close>

function utf8_chars :: "bytes \<Rightarrow> nat list" where
  "utf8_chars bs =
     (if bs = [] then []
      else utf8_char bs (snd (utf8_step bs)) # utf8_chars (drop (snd (utf8_step bs)) bs))"
  by pat_completeness auto
termination
  by (relation "measure length") (auto simp: utf8_step_pos)

text \<open>\<open>String::from_utf8_lossy\<close>: one U+FFFD for each maximal invalid prefix.\<close>

definition replacement_character :: bytes where
  "replacement_character = [0xEF, 0xBF, 0xBD]"

function utf8_lossy :: "bytes \<Rightarrow> bytes" where
  "utf8_lossy bs =
     (if bs = [] then []
      else (if fst (utf8_step bs) then take (snd (utf8_step bs)) bs else replacement_character)
           @ utf8_lossy (drop (snd (utf8_step bs)) bs))"
  by pat_completeness auto
termination
  by (relation "measure length") (auto simp: utf8_step_pos)

declare utf8_valid.simps [simp del] utf8_chars.simps [simp del] utf8_lossy.simps [simp del]

lemma utf8_valid_Nil [simp]: "utf8_valid []"
  by (subst utf8_valid.simps) simp

lemma utf8_chars_Nil [simp]: "utf8_chars [] = []"
  by (subst utf8_chars.simps) simp

lemma utf8_lossy_Nil [simp]: "utf8_lossy [] = []"
  by (subst utf8_lossy.simps) simp

text \<open>\<open>char::is_control\<close> (category Cc) and \<open>char::is_whitespace\<close> (White\_Space).\<close>

definition is_control :: "nat \<Rightarrow> bool" where
  "is_control c \<longleftrightarrow> c \<le> 0x1F \<or> 0x7F \<le> c \<and> c \<le> 0x9F"

definition is_whitespace :: "nat \<Rightarrow> bool" where
  "is_whitespace c \<longleftrightarrow>
     0x09 \<le> c \<and> c \<le> 0x0D \<or> 0x2000 \<le> c \<and> c \<le> 0x200A \<or>
     c \<in> set [0x20, 0x85, 0xA0, 0x1680, 0x2028, 0x2029, 0x202F, 0x205F, 0x3000]"

subsection \<open>Lossy decoding\<close>

lemma utf8_lossy_valid: "utf8_valid bs \<Longrightarrow> utf8_lossy bs = bs"
proof (induction bs rule: utf8_lossy.induct)
  case (1 bs)
  show ?case
  proof (cases "bs = []")
    case False
    with "1.prems" have v: "fst (utf8_step bs)" "utf8_valid (drop (snd (utf8_step bs)) bs)"
      by (simp_all add: utf8_valid.simps [of bs] split: if_splits)
    with "1.IH" False show ?thesis by (simp add: utf8_lossy.simps [of bs])
  qed simp
qed

lemma byte_at_take_append: "i < n \<Longrightarrow> n \<le> length bs \<Longrightarrow> byte_at (take n bs @ ys) i = byte_at bs i"
  by (simp add: byte_at_def nth_append)

lemma byte_at_in_range: "0 < byte_at bs i \<Longrightarrow> i < length bs"
  by (simp add: byte_at_def split: if_splits)

lemma utf8_cont_pos: "utf8_cont b \<Longrightarrow> 0 < b"
  by (simp add: utf8_cont_def)

lemma utf8_second_pos: "utf8_second3 a b \<Longrightarrow> 0 < b" "utf8_second4 a b \<Longrightarrow> 0 < b"
  by (auto simp: utf8_second3_def utf8_second4_def utf8_cont_def split: if_splits)

lemma utf8_step_last_pos:
  assumes "fst (utf8_step bs)" and "1 < snd (utf8_step bs)"
  shows "0 < byte_at bs (snd (utf8_step bs) - 1)"
  using assms by (auto simp: utf8_step_def utf8_classify_def utf8_cont_pos utf8_second_pos split: if_splits)

lemma utf8_step_length:
  assumes "bs \<noteq> []" and "fst (utf8_step bs)"
  shows "snd (utf8_step bs) \<le> length bs"
proof (cases "1 < snd (utf8_step bs)")
  case True
  with assms(2) have "snd (utf8_step bs) - 1 < length bs"
    by (intro byte_at_in_range utf8_step_last_pos)
  then show ?thesis by simp
next
  case False
  with assms(1) show ?thesis by (cases bs) auto
qed

text \<open>A character's bytes decode the same way whatever follows them.\<close>

lemma utf8_classify_local:
  assumes "fst (utf8_classify b0 b1 b2 b3)"
    and "1 < snd (utf8_classify b0 b1 b2 b3) \<Longrightarrow> c1 = b1"
    and "2 < snd (utf8_classify b0 b1 b2 b3) \<Longrightarrow> c2 = b2"
    and "3 < snd (utf8_classify b0 b1 b2 b3) \<Longrightarrow> c3 = b3"
  shows "utf8_classify b0 c1 c2 c3 = utf8_classify b0 b1 b2 b3"
proof -
  consider "b0 < 0x80" | "0xC2 \<le> b0 \<and> b0 \<le> 0xDF" | "0xE0 \<le> b0 \<and> b0 \<le> 0xEF"
    | "0xF0 \<le> b0 \<and> b0 \<le> 0xF4"
    | "\<not> b0 < 0x80 \<and> \<not> (0xC2 \<le> b0 \<and> b0 \<le> 0xDF) \<and> \<not> (0xE0 \<le> b0 \<and> b0 \<le> 0xEF)
       \<and> \<not> (0xF0 \<le> b0 \<and> b0 \<le> 0xF4)"
    by argo
  then show ?thesis
  proof cases
    case 2
    with assms(1) have "utf8_cont b1" by (simp add: utf8_classify_def split: if_splits)
    with 2 assms(2) show ?thesis by (simp add: utf8_classify_def)
  next
    case 3
    with assms(1) have "utf8_second3 b0 b1" "utf8_cont b2"
      by (simp_all add: utf8_classify_def split: if_splits)
    with 3 assms(2,3) show ?thesis by (simp add: utf8_classify_def)
  next
    case 4
    with assms(1) have "utf8_second4 b0 b1" "utf8_cont b2" "utf8_cont b3"
      by (simp_all add: utf8_classify_def split: if_splits)
    with 4 assms(2-4) show ?thesis by (simp add: utf8_classify_def)
  next
    case 5
    then have n: "\<not> b0 < 0x80" "\<not> (0xC2 \<le> b0 \<and> b0 \<le> 0xDF)" "\<not> (0xE0 \<le> b0 \<and> b0 \<le> 0xEF)"
      "\<not> (0xF0 \<le> b0 \<and> b0 \<le> 0xF4)" by blast+
    have "utf8_classify b0 d1 d2 d3 = (False, 1)" for d1 d2 d3
      unfolding utf8_classify_def by (simp only: n if_False)
    then show ?thesis by simp
  qed (simp add: utf8_classify_def)
qed

lemma utf8_step_local:
  assumes "bs \<noteq> []" and "fst (utf8_step bs)"
  shows "utf8_step (take (snd (utf8_step bs)) bs @ ys) = utf8_step bs"
proof -
  let ?n = "snd (utf8_step bs)"
  have same: "byte_at (take ?n bs @ ys) i = byte_at bs i" if "i < ?n" for i
    using that utf8_step_length [OF assms] by (rule byte_at_take_append)
  have first: "byte_at (take ?n bs @ ys) 0 = byte_at bs 0"
    using utf8_step_pos by (rule same)
  have "utf8_classify (byte_at bs 0) c1 c2 c3 = utf8_step bs"
    if "1 < ?n \<Longrightarrow> c1 = byte_at bs 1" "2 < ?n \<Longrightarrow> c2 = byte_at bs 2" "3 < ?n \<Longrightarrow> c3 = byte_at bs 3"
    for c1 c2 c3
    using assms(2) that unfolding utf8_step_def by (rule utf8_classify_local)
  from this [OF same same same] show ?thesis
    by (simp only: utf8_step_def [of "take ?n bs @ ys"] first)
qed

lemma utf8_step_replacement: "utf8_step (replacement_character @ ys) = (True, 3)"
  by (simp add: utf8_step_def utf8_classify_def replacement_character_def byte_at_def nth_append utf8_second3_def utf8_cont_def)

lemma utf8_valid_lossy: "utf8_valid (utf8_lossy bs)"
proof (induction bs rule: utf8_lossy.induct)
  case (1 bs)
  show ?case
  proof (cases "bs = []")
    case False
    let ?n = "snd (utf8_step bs)"
    let ?rest = "utf8_lossy (drop ?n bs)"
    have IH: "utf8_valid ?rest" using "1.IH" False by simp
    show ?thesis
    proof (cases "fst (utf8_step bs)")
      case True
      from False True have "utf8_step (take ?n bs @ ?rest) = utf8_step bs" by (rule utf8_step_local)
      moreover have "?n \<le> length bs" using False True by (rule utf8_step_length)
      ultimately show ?thesis
        using False True IH by (simp add: utf8_lossy.simps [of bs] utf8_valid.simps [of "take ?n bs @ ?rest"])
    next
      case invalid: False
      have "length replacement_character = 3" by (simp add: replacement_character_def)
      then show ?thesis
        using False invalid IH
        by (simp add: utf8_lossy.simps [of bs] utf8_valid.simps [of "replacement_character @ ?rest"]
            utf8_step_replacement)
    qed
  qed simp
qed

text \<open>ASCII text is valid and every byte is its own character.\<close>

lemma utf8_step_ascii: "unat b < 128 \<Longrightarrow> utf8_step (b # bs) = (True, 1)"
  by (simp add: utf8_step_def utf8_classify_def byte_at_def)

lemma utf8_valid_ascii: "list_all (\<lambda>b. unat b < 128) bs \<Longrightarrow> utf8_valid bs"
proof (induction bs)
  case (Cons b bs)
  then show ?case by (simp add: utf8_valid.simps [of "b # bs"] utf8_step_ascii)
qed simp

lemma utf8_chars_ascii: "list_all (\<lambda>b. unat b < 128) bs \<Longrightarrow> utf8_chars bs = map unat bs"
proof (induction bs)
  case (Cons b bs)
  then show ?case
    by (simp add: utf8_chars.simps [of "b # bs"] utf8_step_ascii utf8_char_def byte_at_def)
qed simp

end
