(* ===== verification/Packet.thy ===== *)
theory Packet
  imports Wire
begin

text \<open>
  \<open>packet.rs\<close>: the request and response types that the socket, the router and the broker
  exchange, the classification of complete SSH-agent packets, and the encoding of an
  identities answer. The message codec is \<open>ssh_agent_lib\<close>; it is the parameter
  \<open>ssh_lib\<close> of the definitions that call it.
\<close>

section \<open>Data\<close>

record agent_identity =
  key_blob :: bytes
  comment :: rstring

record request_context =
  group_id :: uuid
  reason :: rstring
  command :: "rstring list"

datatype identity_error = InvalidKey | TooLarge

datatype request_error = Unavailable | QueueFull | TimedOut | Cancelled

text \<open>
  A \<open>PacketRequest\<close>. The reply channel and the cancellation token are identities: which
  channel the final response goes to, and which token the caller cancels.
\<close>

record packet_request =
  pq_packet :: bytes
  pq_context :: "request_context option"
  pq_response :: nat
  pq_cancellation :: nat

text \<open>
  What the sources call of \<open>ssh_agent_lib\<close>: the two decoders return the value and the
  unread rest of the slice, \<open>response_encode\<close> the bytes that an identities answer appends
  to the buffer, \<open>response_encoded_len\<close> their announced number.
\<close>

record ('req, 'cred) ssh_lib =
  request_decode :: "bytes \<Rightarrow> ('req \<times> bytes) option"
  is_request_identities :: "'req \<Rightarrow> bool"
  credential_decode :: "bytes \<Rightarrow> ('cred \<times> bytes) option"
  response_encode :: "('cred \<times> rstring) list \<Rightarrow> bytes option"
  response_encoded_len :: "('cred \<times> rstring) list \<Rightarrow> nat option"

section \<open>Classification of packets\<close>

definition packet_payload :: "bytes \<Rightarrow> bytes option" where
  "packet_payload packet =
     (case slice_get packet 0 4 of None \<Rightarrow> None
      | Some prefix \<Rightarrow>
          (let length_field = from_be_bytes prefix in
           case slice_get packet 4 (length packet) of None \<Rightarrow> None
           | Some payload \<Rightarrow> if length payload = length_field then Some payload else None))"

definition ssh_string :: "bytes \<Rightarrow> bytes option" where
  "ssh_string value =
     (case slice_get value 0 4 of None \<Rightarrow> None
      | Some prefix \<Rightarrow> slice_get value 4 (4 + from_be_bytes prefix))"

definition is_identity_request :: "('req, 'cred) ssh_lib \<Rightarrow> bytes \<Rightarrow> bool" where
  "is_identity_request lib packet =
     (case packet_payload packet of None \<Rightarrow> False
      | Some payload \<Rightarrow>
          (case request_decode lib payload of None \<Rightarrow> False
           | Some (request, rest) \<Rightarrow> is_request_identities lib request \<and> rest = []))"

text \<open>The bytes of \<open>b"session-bind@openssh.com"\<close>.\<close>

definition OPENSSH_SESSION_BIND_EXTENSION :: bytes where
  "OPENSSH_SESSION_BIND_EXTENSION =
     [115, 101, 115, 115, 105, 111, 110, 45, 98, 105, 110, 100, 64,
      111, 112, 101, 110, 115, 115, 104, 46, 99, 111, 109]"

definition is_openssh_session_bind_request :: "bytes \<Rightarrow> bool" where
  "is_openssh_session_bind_request packet =
     (case packet_payload packet of None \<Rightarrow> False
      | Some payload \<Rightarrow>
          (case payload of [] \<Rightarrow> False
           | tag # extension \<Rightarrow>
               if tag \<noteq> 27 then False
               else (case ssh_string extension of None \<Rightarrow> False
                     | Some name \<Rightarrow> name = OPENSSH_SESSION_BIND_EXTENSION)))"

section \<open>Identities answers\<close>

text \<open>\<open>iter().map(f).collect::<Result<Vec<_>, _>>()\<close>: the first error, or every value.\<close>

fun collect_results :: "('a \<Rightarrow> 'e + 'b) \<Rightarrow> 'a list \<Rightarrow> 'e + 'b list" where
  "collect_results f [] = Ok []"
| "collect_results f (x # xs) =
     (case f x of Inl e \<Rightarrow> Err e
      | Inr y \<Rightarrow> (case collect_results f xs of Inl e \<Rightarrow> Err e | Inr ys \<Rightarrow> Ok (y # ys)))"

definition identity_credential ::
  "('req, 'cred) ssh_lib \<Rightarrow> agent_identity \<Rightarrow> identity_error + ('cred \<times> rstring)" where
  "identity_credential lib identity =
     (case credential_decode lib (key_blob identity) of None \<Rightarrow> Err InvalidKey
      | Some (credential, rest) \<Rightarrow>
          if rest \<noteq> [] then Err InvalidKey else Ok (credential, comment identity))"

definition identities_response ::
  "('req, 'cred) ssh_lib \<Rightarrow> agent_identity list \<Rightarrow> identity_error + ('cred \<times> rstring) list" where
  "identities_response lib identities = collect_results (identity_credential lib) identities"

definition response_payload_length ::
  "('req, 'cred) ssh_lib \<Rightarrow> ('cred \<times> rstring) list \<Rightarrow> identity_error + nat" where
  "response_payload_length lib response =
     (case response_encoded_len lib response of None \<Rightarrow> Err TooLarge
      | Some n \<Rightarrow> if n < 2 ^ 32 then Ok n else Err TooLarge)"

definition identities_answer ::
  "('req, 'cred) ssh_lib \<Rightarrow> agent_identity list \<Rightarrow> identity_error + bytes" where
  "identities_answer lib identities =
     (case identities_response lib identities of Inl e \<Rightarrow> Err e
      | Inr response \<Rightarrow>
          (case response_payload_length lib response of Inl e \<Rightarrow> Err e
           | Inr payload_length \<Rightarrow>
               (case response_encode lib response of None \<Rightarrow> Err TooLarge
                | Some body \<Rightarrow> Ok (to_be_bytes payload_length @ body))))"

definition validate_identities ::
  "('req, 'cred) ssh_lib \<Rightarrow> agent_identity list \<Rightarrow> identity_error + unit" where
  "validate_identities lib identities =
     (case identities_response lib identities of Inl e \<Rightarrow> Err e
      | Inr response \<Rightarrow>
          (case response_payload_length lib response of Inl e \<Rightarrow> Err e | Inr _ \<Rightarrow> Ok ()))"

section \<open>Framing\<close>

text \<open>A complete packet is exactly a four-byte length and that many bytes.\<close>

lemma packet_payload_iff:
  "packet_payload packet = Some payload \<longleftrightarrow>
     packet = to_be_bytes (length payload) @ payload \<and> length payload < 2 ^ 32"
proof -
  have "packet_payload packet = Some payload \<longleftrightarrow>
      (4 \<le> length packet \<and> from_be_bytes (take 4 packet) = length payload) \<and> drop 4 packet = payload"
    by (auto simp: packet_payload_def slice_get_def Let_def split: if_splits)
  also have "\<dots> \<longleftrightarrow> (length payload < 2 ^ 32 \<and> (\<exists>rest. packet = to_be_bytes (length payload) @ rest))
      \<and> drop 4 packet = payload"
    by (simp only: be_prefix_iff)
  also have "\<dots> \<longleftrightarrow> packet = to_be_bytes (length payload) @ payload \<and> length payload < 2 ^ 32"
    using prefix_drop_iff [of "to_be_bytes (length payload)" 4 packet payload] by auto
  finally show ?thesis .
qed

lemma ssh_string_iff:
  "ssh_string value = Some name \<longleftrightarrow>
     (\<exists>rest. value = to_be_bytes (length name) @ name @ rest) \<and> length name < 2 ^ 32"
proof -
  have "ssh_string value = Some name \<longleftrightarrow>
      (4 \<le> length value \<and> from_be_bytes (take 4 value) = length name)
      \<and> length name \<le> length (drop 4 value) \<and> take (length name) (drop 4 value) = name"
    by (auto simp: ssh_string_def slice_get_def split: if_splits)
  also have "\<dots> \<longleftrightarrow> (length name < 2 ^ 32 \<and> (\<exists>rest. value = to_be_bytes (length name) @ rest))
      \<and> length name \<le> length (drop 4 value) \<and> take (length name) (drop 4 value) = name"
    by (simp only: be_prefix_iff)
  also have "\<dots> \<longleftrightarrow> (\<exists>rest. value = to_be_bytes (length name) @ name @ rest) \<and> length name < 2 ^ 32"
    by (auto intro: exI [where x = "drop (length name) (drop 4 value)"])
       (metis append_take_drop_id)
  finally show ?thesis .
qed

text \<open>
  A packet is recognised as the session binding of OpenSSH exactly when it is a complete
  frame whose length field is right, with message type 27, the extension name
  \<open>session-bind@openssh.com\<close> as a length-prefixed string, and any contents after it.
\<close>

lemma session_bind_request_iff:
  "is_openssh_session_bind_request packet \<longleftrightarrow>
     (\<exists>contents. packet = to_be_bytes (29 + length contents)
          @ 27 # to_be_bytes 24 @ OPENSSH_SESSION_BIND_EXTENSION @ contents
        \<and> 29 + length contents < 2 ^ 32)"
proof -
  have len: "length OPENSSH_SESSION_BIND_EXTENSION = 24"
    by (simp add: OPENSSH_SESSION_BIND_EXTENSION_def)
  have "is_openssh_session_bind_request packet \<longleftrightarrow>
      (\<exists>extension. packet_payload packet = Some (27 # extension)
        \<and> ssh_string extension = Some OPENSSH_SESSION_BIND_EXTENSION)"
    by (auto simp: is_openssh_session_bind_request_def split: option.splits list.splits if_splits)
  also have "\<dots> \<longleftrightarrow> (\<exists>contents. packet_payload packet
      = Some (27 # to_be_bytes 24 @ OPENSSH_SESSION_BIND_EXTENSION @ contents))"
    by (auto simp: ssh_string_iff len)
  finally show ?thesis by (simp add: packet_payload_iff len)
qed

section \<open>Identities answers: every branch\<close>

lemma collect_results_Inr:
  "collect_results f xs = Inr ys \<longleftrightarrow> list_all2 (\<lambda>x y. f x = Inr y) xs ys"
proof (induction xs arbitrary: ys)
  case (Cons x xs)
  show ?case
    by (cases "f x"; cases "collect_results f xs")
      (auto simp: list_all2_Cons1 Cons.IH [symmetric])
qed auto

lemma collect_results_Inl:
  "collect_results f xs = Inl e \<Longrightarrow> \<exists>x \<in> set xs. f x = Inl e"
  by (induction xs) (auto split: sum.splits)

lemma identities_answer_framed:
  assumes "\<forall>r n bs. response_encoded_len lib r = Some n \<longrightarrow> response_encode lib r = Some bs \<longrightarrow> length bs = n"
    and "identities_answer lib identities = Ok packet"
  shows "\<exists>response body. identities_response lib identities = Ok response
           \<and> response_encode lib response = Some body \<and> packet_payload packet = Some body"
proof -
  from assms(2) obtain response n body where
    r: "identities_response lib identities = Ok response"
    and n: "response_encoded_len lib response = Some n" "n < 2 ^ 32"
    and b: "response_encode lib response = Some body" and p: "packet = to_be_bytes n @ body"
    by (auto simp: identities_answer_def response_payload_length_def
        split: sum.splits option.splits if_splits)
  from assms(1) n(1) b have "length body = n" by blast
  with n(2) p have "packet_payload packet = Some body" by (simp add: packet_payload_iff)
  with r b show ?thesis by blast
qed

lemma identities_response_Ok:
  "identities_response lib identities = Ok response \<Longrightarrow>
     length response = length identities \<and> map snd response = map comment identities
     \<and> (\<forall>i \<in> set identities. \<exists>c. credential_decode lib (key_blob i) = Some (c, []))"
  unfolding identities_response_def collect_results_Inr
  by (induction rule: list_all2_induct)
    (auto simp: identity_credential_def split: option.splits prod.splits if_splits)

section \<open>Properties\<close>

text \<open>
  A concrete codec at which the properties are applied: an identity is encoded as two
  length-prefixed strings, an answer as the message type 12, the number of identities and
  the identities.
\<close>

definition ex_encode_response :: "(bytes \<times> rstring) list \<Rightarrow> bytes" where
  "ex_encode_response ids =
     12 # to_be_bytes (length ids)
       @ concat (map (\<lambda>(k, c). to_be_bytes (length k) @ k @ to_be_bytes (length c) @ c) ids)"

definition ex_ssh_lib :: "(u8, bytes) ssh_lib" where
  "ex_ssh_lib =
     \<lparr>request_decode = (\<lambda>bs. case bs of [] \<Rightarrow> None | t # rest \<Rightarrow> Some (t, rest)),
      is_request_identities = (\<lambda>t. t = 11),
      credential_decode = (\<lambda>bs. if bs = [] then None else Some (bs, [])),
      response_encode = (\<lambda>r. Some (ex_encode_response r)),
      response_encoded_len = (\<lambda>r. Some (length (ex_encode_response r)))\<rparr>"

text \<open>
  An identities answer is a well-formed packet for exactly the given identities. If the
  codec announces the length that it writes, an answer that is built is one complete frame
  whose payload is the encoding of the decoded keys, in order and each with its comment; a
  key that does not decode completely is refused.
\<close>

lemma identities_answer_well_formed:
  assumes "\<forall>r n bs. response_encoded_len lib r = Some n \<longrightarrow> response_encode lib r = Some bs \<longrightarrow> length bs = n"
    and "identities_answer lib identities = Ok packet"
  shows "\<exists>response body. packet_payload packet = Some body \<and> response_encode lib response = Some body
    \<and> map snd response = map comment identities
    \<and> (\<forall>i < length identities. credential_decode lib (key_blob (identities ! i)) = Some (fst (response ! i), []))"
proof -
  from identities_answer_framed [OF assms] obtain response body where
    r: "identities_response lib identities = Ok response" "response_encode lib response = Some body"
      "packet_payload packet = Some body" by blast
  from r(1) have all: "list_all2 (\<lambda>x y. identity_credential lib x = Ok y) identities response"
    by (simp add: identities_response_def collect_results_Inr)
  have "credential_decode lib (key_blob (identities ! i)) = Some (fst (response ! i), [])"
    if "i < length identities" for i
    using list_all2_nthD [OF all that]
    by (cases "response ! i") (auto simp: identity_credential_def split: option.splits prod.splits if_splits)
  with r identities_response_Ok [OF r(1)] show ?thesis by blast
qed

text \<open>
  Validation agrees with encoding. If the codec encodes every answer whose length it can
  announce, \<open>validate_identities\<close> accepts exactly the lists for which \<open>identities_answer\<close>
  builds a packet, and refuses with the same error otherwise.
\<close>

lemma validate_identities_agrees:
  assumes "\<forall>r n. response_encoded_len lib r = Some n \<longrightarrow> response_encode lib r \<noteq> None"
  shows "(validate_identities lib identities = Ok () \<longleftrightarrow> (\<exists>packet. identities_answer lib identities = Ok packet))
    \<and> (\<forall>e. validate_identities lib identities = Err e \<longleftrightarrow> identities_answer lib identities = Err e)"
  using assms
  by (fastforce simp: validate_identities_def identities_answer_def response_payload_length_def
      split: sum.splits option.splits if_splits)

end
