(* ===== verification/Context.thy ===== *)
theory Context
  imports Packet
begin

text \<open>
  \<open>request_router/context.rs\<close>: the Agent Witness context extension. The encoder and the
  decoder are modelled over byte lists; \<open>uuid::Uuid\<close> is third-party, so formatting
  (\<open>uuid_simple\<close>) and parsing (\<open>parse_str\<close>) are arguments. The decoder accepts exactly the
  frames of the grammar below, and it reads back what the encoder wrote.
\<close>

section \<open>Constants and errors\<close>

datatype context_error = Malformed | UnsupportedVersion | InvalidGroupId | InvalidReason | InvalidCommand

text \<open>The bytes of \<open>b"context@agent-witness"\<close>.\<close>

definition CONTEXT_EXTENSION :: bytes where
  "CONTEXT_EXTENSION =
     [99, 111, 110, 116, 101, 120, 116, 64, 97, 103, 101, 110, 116, 45, 119, 105, 116, 110, 101, 115, 115]"

definition CONTEXT_VERSION :: u8 where "CONTEXT_VERSION = 1"

definition SSH_AGENTC_EXTENSION :: u8 where "SSH_AGENTC_EXTENSION = 27"

definition MAX_REASON_SIZE :: nat where "MAX_REASON_SIZE = 512"

definition MAX_COMMAND_ARGUMENTS :: nat where "MAX_COMMAND_ARGUMENTS = 128"

definition MAX_COMMAND_SIZE :: nat where "MAX_COMMAND_SIZE = 16 * 1024"

lemmas context_limits = MAX_REASON_SIZE_def MAX_COMMAND_ARGUMENTS_def MAX_COMMAND_SIZE_def

section \<open>Text\<close>

definition text_char :: "nat \<Rightarrow> bool" where
  "text_char c \<longleftrightarrow> c = 0x20 \<or> \<not> is_control c \<and> \<not> is_whitespace c"

definition decode_text :: "bytes \<Rightarrow> nat \<Rightarrow> rstring option" where
  "decode_text value max_size =
     (if value = [] \<or> length value > max_size then None
      else if \<not> utf8_valid value then None
      else if list_all text_char (utf8_chars value) then Some value else None)"

section \<open>Encoder\<close>

definition push_string :: "bytes \<Rightarrow> bytes \<Rightarrow> bytes" where
  "push_string packet value = packet @ to_be_bytes (length value) @ value"

definition encode :: "(uuid \<Rightarrow> rstring) \<Rightarrow> request_context \<Rightarrow> context_error + bytes" where
  "encode uuid_simple context =
     (case decode_text (reason context) MAX_REASON_SIZE of None \<Rightarrow> Err InvalidReason
      | Some _ \<Rightarrow>
          if \<not> (1 \<le> length (command context) \<and> length (command context) \<le> MAX_COMMAND_ARGUMENTS)
             \<or> sum_list (map length (command context)) > MAX_COMMAND_SIZE
          then Err InvalidCommand
          else
            (let packet = [0, 0, 0, 0] @ [SSH_AGENTC_EXTENSION];
                 packet = push_string packet CONTEXT_EXTENSION;
                 packet = packet @ [CONTEXT_VERSION];
                 packet = push_string packet (uuid_simple (group_id context));
                 packet = push_string packet (reason context);
                 packet = packet @ to_be_bytes (length (command context));
                 packet = foldl push_string packet (command context)
             in Ok (to_be_bytes (length packet - 4) @ drop 4 packet)))"

section \<open>Decoder\<close>

record decoder =
  data :: bytes
  offset :: nat

definition decoder_packet :: "bytes \<Rightarrow> decoder option" where
  "decoder_packet packet =
     (case slice_get packet 0 4 of None \<Rightarrow> None
      | Some prefix \<Rightarrow>
          (let length_field = from_be_bytes prefix in
           case slice_get packet 4 (length packet) of None \<Rightarrow> None
           | Some rest \<Rightarrow> if length rest = length_field then Some \<lparr>data = rest, offset = 0\<rparr> else None))"

definition take_bytes :: "decoder \<Rightarrow> nat \<Rightarrow> context_error + (bytes \<times> decoder)" where
  "take_bytes d n =
     (if offset d + n \<ge> 2 ^ 64 then Err Malformed
      else (case slice_get (data d) (offset d) (offset d + n) of None \<Rightarrow> Err Malformed
            | Some value \<Rightarrow> Ok (value, d\<lparr>offset := offset d + n\<rparr>)))"

definition take_u8 :: "decoder \<Rightarrow> context_error + (u8 \<times> decoder)" where
  "take_u8 d = (case take_bytes d 1 of Inl e \<Rightarrow> Err e | Inr (value, d) \<Rightarrow> Ok (hd value, d))"

definition take_u32 :: "decoder \<Rightarrow> context_error + (nat \<times> decoder)" where
  "take_u32 d = (case take_bytes d 4 of Inl e \<Rightarrow> Err e | Inr (value, d) \<Rightarrow> Ok (from_be_bytes value, d))"

definition take_string :: "decoder \<Rightarrow> context_error + (bytes \<times> decoder)" where
  "take_string d = (case take_u32 d of Inl e \<Rightarrow> Err e | Inr (n, d) \<Rightarrow> take_bytes d n)"

definition decoder_finish :: "decoder \<Rightarrow> context_error + unit" where
  "decoder_finish d = (if offset d \<noteq> length (data d) then Err Malformed else Ok ())"

text \<open>The \<open>for _ in 0..argument_count\<close> loop.\<close>

fun take_arguments :: "nat \<Rightarrow> nat \<Rightarrow> decoder \<Rightarrow> context_error + (rstring list \<times> decoder)" where
  "take_arguments 0 command_size d = Ok ([], d)"
| "take_arguments (Suc n) command_size d =
     (case take_string d of Inl e \<Rightarrow> Err e
      | Inr (argument, d) \<Rightarrow>
          (let command_size = command_size + length argument in
           if command_size > MAX_COMMAND_SIZE then Err InvalidCommand
           else (case take_arguments n command_size d of Inl e \<Rightarrow> Err e
                 | Inr (arguments, d) \<Rightarrow> Ok (utf8_lossy argument # arguments, d))))"

definition decode_group_id :: "(rstring \<Rightarrow> uuid option) \<Rightarrow> bytes \<Rightarrow> uuid option" where
  "decode_group_id parse_str value = (if utf8_valid value then parse_str value else None)"

text \<open>The fields after the version byte.\<close>

definition decode_fields :: "(rstring \<Rightarrow> uuid option) \<Rightarrow> decoder \<Rightarrow> context_error + request_context" where
  "decode_fields parse_str d =
     (case take_string d of Inl e \<Rightarrow> Err e
      | Inr (group_text, d) \<Rightarrow>
     (case decode_group_id parse_str group_text of None \<Rightarrow> Err InvalidGroupId
      | Some group_uuid \<Rightarrow>
     (case take_string d of Inl e \<Rightarrow> Err e
      | Inr (value, d) \<Rightarrow>
     (case decode_text value MAX_REASON_SIZE of None \<Rightarrow> Err InvalidReason
      | Some reason_text \<Rightarrow>
     (case take_u32 d of Inl e \<Rightarrow> Err e
      | Inr (argument_count, d) \<Rightarrow>
          if \<not> (1 \<le> argument_count \<and> argument_count \<le> MAX_COMMAND_ARGUMENTS) then Err InvalidCommand
          else
     (case take_arguments argument_count 0 d of Inl e \<Rightarrow> Err e
      | Inr (arguments, d) \<Rightarrow>
     (case decoder_finish d of Inl e \<Rightarrow> Err e
      | Inr _ \<Rightarrow> Ok \<lparr>group_id = group_uuid, reason = reason_text, command = arguments\<rparr>)))))))"

definition decode :: "(rstring \<Rightarrow> uuid option) \<Rightarrow> bytes \<Rightarrow> context_error + request_context option" where
  "decode parse_str packet =
     (case decoder_packet packet of None \<Rightarrow> Ok None
      | Some d \<Rightarrow>
     (case take_u8 d of Inl e \<Rightarrow> Err e
      | Inr (tag, d) \<Rightarrow>
          if tag \<noteq> SSH_AGENTC_EXTENSION then Ok None
          else
     (case take_string d of Inl e \<Rightarrow> Err e
      | Inr (name, d) \<Rightarrow>
          if name \<noteq> CONTEXT_EXTENSION then Ok None
          else
     (case take_u8 d of Inl e \<Rightarrow> Err e
      | Inr (version, d) \<Rightarrow>
          if version \<noteq> CONTEXT_VERSION then Err UnsupportedVersion
          else map_sum id Some (decode_fields parse_str d)))))"

section \<open>Reading fields\<close>

abbreviation remaining :: "decoder \<Rightarrow> bytes" where
  "remaining d \<equiv> drop (offset d) (data d)"

text \<open>A decoder of a frame: the length field bounds the data.\<close>

definition dec_ok :: "decoder \<Rightarrow> bool" where
  "dec_ok d \<longleftrightarrow> offset d \<le> length (data d) \<and> length (data d) < 2 ^ 32"

definition advance :: "decoder \<Rightarrow> nat \<Rightarrow> decoder" where
  "advance d n = d\<lparr>offset := offset d + n\<rparr>"

text \<open>
  A field of the format: the decoder succeeds exactly when the remaining input starts with
  the encoding of a value that fits, and it consumes exactly that encoding.
\<close>

locale field_codec =
  fixes enc :: "'a \<Rightarrow> bytes"
    and dec :: "decoder \<Rightarrow> context_error + ('a \<times> decoder)"
    and fits :: "'a \<Rightarrow> bool"
  assumes dec_iff: "dec_ok d \<Longrightarrow>
      dec d = Ok (v, d') \<longleftrightarrow> fits v \<and> (\<exists>rest. remaining d = enc v @ rest) \<and> d' = advance d (length (enc v))"
    and dec_err: "dec_ok d \<Longrightarrow> dec d = Err e \<Longrightarrow> e = Malformed"
begin

lemma dec_remaining:
  assumes "dec_ok d" and "dec d = Ok (v, d')"
  shows "dec_ok d' \<and> remaining d = enc v @ remaining d' \<and> data d' = data d"
proof -
  from assms obtain rest where r: "remaining d = enc v @ rest" and d': "d' = advance d (length (enc v))"
    using dec_iff by blast
  have "length (remaining d) = length (enc v) + length rest" using r by simp
  then have "offset d + length (enc v) \<le> length (data d)" using assms(1) by (auto simp: dec_ok_def)
  moreover have "remaining d' = rest"
    using arg_cong [OF r, of "drop (length (enc v))"] by (simp add: d' advance_def add.commute)
  ultimately show ?thesis using assms(1) r by (simp add: d' advance_def dec_ok_def)
qed

lemma dec_enc:
  assumes "dec_ok d" and "remaining d = enc v @ rest" and "fits v"
  shows "dec d = Ok (v, advance d (length (enc v)))"
  using assms dec_iff by blast

lemma dec_unique:
  assumes "dec_ok d" and "remaining d = enc v @ r" and "remaining d = enc w @ s" and "fits v" and "fits w"
  shows "v = w"
  using dec_enc [OF assms(1,2,4)] dec_enc [OF assms(1,3,5)] by simp

lemma dec_fails:
  assumes "dec_ok d" and "\<And>v rest. fits v \<Longrightarrow> remaining d \<noteq> enc v @ rest"
  shows "dec d = Err Malformed"
proof (cases "dec d")
  case (Inl e)
  then show ?thesis using dec_err [OF assms(1)] by simp
next
  case (Inr x)
  then show ?thesis using dec_iff [OF assms(1)] assms(2) by (cases x) auto
qed

end

lemma take_bytes_iff:
  assumes "dec_ok d" and "n < 2 ^ 32"
  shows "take_bytes d n = Ok (v, d') \<longleftrightarrow> length v = n \<and> (\<exists>rest. remaining d = v @ rest) \<and> d' = advance d n"
proof -
  have small: "offset d + n < 2 ^ 64" using assms by (simp add: dec_ok_def)
  have "take_bytes d n = Ok (v, d') \<longleftrightarrow> n \<le> length (remaining d) \<and> v = take n (remaining d) \<and> d' = advance d n"
    using small assms(1) by (auto simp: take_bytes_def slice_get_def advance_def dec_ok_def split: if_splits)
  also have "\<dots> \<longleftrightarrow> length v = n \<and> (\<exists>rest. remaining d = v @ rest) \<and> d' = advance d n"
    by (metis append_eq_conv_conj append_take_drop_id length_append le_add1 length_take min.absorb2)
  finally show ?thesis .
qed

lemma take_bytes_err: "take_bytes d n = Err e \<Longrightarrow> e = Malformed"
  by (auto simp: take_bytes_def split: if_splits option.splits)

lemma dec_ok_bound: "dec_ok d \<Longrightarrow> remaining d = v @ rest \<Longrightarrow> length v < 2 ^ 32"
  by (auto simp: dec_ok_def dest!: arg_cong [where f = length])

abbreviation enc_string :: "bytes \<Rightarrow> bytes" where
  "enc_string v \<equiv> to_be_bytes (length v) @ v"

interpretation u8_field: field_codec "\<lambda>v. [v]" take_u8 "\<lambda>_. True"
proof
  fix d v d' assume ok: "dec_ok d"
  have "take_u8 d = Ok (v, d') \<longleftrightarrow> (\<exists>bs. take_bytes d 1 = Ok (bs, d') \<and> hd bs = v)"
    by (auto simp: take_u8_def split: sum.splits)
  also have "\<dots> \<longleftrightarrow> take_bytes d 1 = Ok ([v], d')"
    using take_bytes_iff [OF ok, of 1] by (auto simp: length_Suc_conv)
  finally show "take_u8 d = Ok (v, d') \<longleftrightarrow> True \<and> (\<exists>rest. remaining d = [v] @ rest) \<and> d' = advance d (length [v])"
    using take_bytes_iff [OF ok, of 1 "[v]" d'] by simp
qed (auto simp: take_u8_def split: sum.splits dest: take_bytes_err)

interpretation u32_field: field_codec to_be_bytes take_u32 "\<lambda>n. n < 2 ^ 32"
proof
  fix d v d' assume ok: "dec_ok d"
  have "take_u32 d = Ok (v, d') \<longleftrightarrow> (\<exists>bs. take_bytes d 4 = Ok (bs, d') \<and> from_be_bytes bs = v)"
    by (auto simp: take_u32_def split: sum.splits)
  also have "\<dots> \<longleftrightarrow> v < 2 ^ 32 \<and> take_bytes d 4 = Ok (to_be_bytes v, d')" (is "?L \<longleftrightarrow> ?R")
  proof
    assume ?L
    then obtain bs where bs: "take_bytes d 4 = Ok (bs, d')" "from_be_bytes bs = v" by blast
    then have "length bs = 4" using take_bytes_iff [OF ok, of 4 bs d'] by simp
    with bs from_be_bytes_bound [of bs] to_from_be_bytes [of bs] show ?R by auto
  next
    assume ?R
    then show ?L using from_to_be_bytes [of v] by blast
  qed
  finally show "take_u32 d = Ok (v, d') \<longleftrightarrow>
      v < 2 ^ 32 \<and> (\<exists>rest. remaining d = to_be_bytes v @ rest) \<and> d' = advance d (length (to_be_bytes v))"
    using take_bytes_iff [OF ok, of 4 "to_be_bytes v" d'] by auto
qed (auto simp: take_u32_def split: sum.splits dest: take_bytes_err)

interpretation string_field: field_codec enc_string take_string "\<lambda>v. length v < 2 ^ 32"
proof
  fix d v d' assume ok: "dec_ok d"
  have "take_string d = Ok (v, d') \<longleftrightarrow> (\<exists>n d1. take_u32 d = Ok (n, d1) \<and> take_bytes d1 n = Ok (v, d'))"
    by (auto simp: take_string_def split: sum.splits)
  also have "\<dots> \<longleftrightarrow> length v < 2 ^ 32 \<and> (\<exists>rest. remaining d = enc_string v @ rest) \<and> d' = advance d (length (enc_string v))"
    (is "?L \<longleftrightarrow> ?R")
  proof
    assume ?L
    then obtain n d1 where n: "take_u32 d = Ok (n, d1)" and v: "take_bytes d1 n = Ok (v, d')" by blast
    have d1: "dec_ok d1" "remaining d = to_be_bytes n @ remaining d1" "n < 2 ^ 32" "d1 = advance d 4"
      using u32_field.dec_remaining [OF ok n] u32_field.dec_iff [OF ok] n by auto
    with take_bytes_iff [OF d1(1,3), of v d'] v show ?R by (auto simp: advance_def add.assoc)
  next
    assume ?R
    then obtain rest where r: "length v < 2 ^ 32" "remaining d = to_be_bytes (length v) @ v @ rest"
      and d': "d' = advance d (length (enc_string v))" by auto
    have n: "take_u32 d = Ok (length v, advance d 4)" using u32_field.dec_enc [OF ok r(2,1)] by simp
    have d1: "dec_ok (advance d 4)" "remaining (advance d 4) = v @ rest"
      using u32_field.dec_remaining [OF ok n] r(2) by auto
    have "take_bytes (advance d 4) (length v) = Ok (v, d')"
      using take_bytes_iff [OF d1(1) r(1), of v d'] d1(2) d' by (auto simp: advance_def add.assoc)
    with n show ?L by blast
  qed
  finally show "take_string d = Ok (v, d') \<longleftrightarrow>
      length v < 2 ^ 32 \<and> (\<exists>rest. remaining d = enc_string v @ rest) \<and> d' = advance d (length (enc_string v))" .
next
  fix d e assume "dec_ok d" and "take_string d = Err e"
  then show "e = Malformed"
    using u32_field.dec_err by (auto simp: take_string_def split: sum.splits dest: take_bytes_err)
qed

abbreviation enc_arguments :: "bytes list \<Rightarrow> bytes" where
  "enc_arguments args \<equiv> concat (map enc_string args)"

lemma remaining_advance:
  "dec_ok d \<Longrightarrow> remaining d = v @ rest \<Longrightarrow> dec_ok (advance d (length v)) \<and> remaining (advance d (length v)) = rest"
proof -
  assume ok: "dec_ok d" and r: "remaining d = v @ rest"
  have "length (data d) - offset d = length v + length rest" using arg_cong [OF r, of length] by simp
  then have "dec_ok (advance d (length v))" using ok by (auto simp: dec_ok_def advance_def)
  moreover have "remaining (advance d (length v)) = drop (length v) (remaining d)"
    by (simp add: advance_def add.commute)
  ultimately show ?thesis using r by simp
qed

lemma advance_advance [simp]: "advance (advance d m) n = advance d (m + n)"
  by (simp add: advance_def add.assoc)

lemma take_arguments_Ok:
  assumes "dec_ok d" and "take_arguments n c d = Ok (cmd, d')" and "c \<le> MAX_COMMAND_SIZE"
  shows "\<exists>args. length args = n \<and> cmd = map utf8_lossy args \<and> c + sum_list (map length args) \<le> MAX_COMMAND_SIZE
    \<and> (\<exists>rest. remaining d = enc_arguments args @ rest) \<and> d' = advance d (length (enc_arguments args))"
  using assms
proof (induction n arbitrary: c d cmd)
  case 0
  then show ?case by (simp add: advance_def)
next
  case (Suc n)
  from Suc.prems(2) obtain a d1 cmd1 where a: "take_string d = Ok (a, d1)"
    and size: "c + length a \<le> MAX_COMMAND_SIZE"
    and rec: "take_arguments n (c + length a) d1 = Ok (cmd1, d')" and cmd: "cmd = utf8_lossy a # cmd1"
    by (auto simp: Let_def split: sum.splits if_splits)
  from string_field.dec_remaining [OF Suc.prems(1) a] string_field.dec_iff [OF Suc.prems(1)] a
  have d1: "dec_ok d1" "remaining d = enc_string a @ remaining d1" "d1 = advance d (length (enc_string a))" by auto
  from Suc.IH [OF d1(1) rec size] obtain args rest where
    "length args = n" "cmd1 = map utf8_lossy args" "c + length a + sum_list (map length args) \<le> MAX_COMMAND_SIZE"
    "remaining d1 = enc_arguments args @ rest" "d' = advance d1 (length (enc_arguments args))" by blast
  with d1 cmd show ?case by (intro exI [of _ "a # args"]) (auto simp: add.assoc)
qed

lemma take_arguments_enc:
  assumes "dec_ok d" and "remaining d = enc_arguments args @ rest" and "c + sum_list (map length args) \<le> MAX_COMMAND_SIZE"
  shows "take_arguments (length args) c d = Ok (map utf8_lossy args, advance d (length (enc_arguments args)))"
  using assms
proof (induction args arbitrary: c d)
  case Nil
  then show ?case by (simp add: advance_def)
next
  case (Cons a args)
  have r: "remaining d = enc_string a @ (enc_arguments args @ rest)" using Cons.prems(2) by simp
  have "length a < 2 ^ 32" using Cons.prems(3) by (simp add: context_limits)
  from string_field.dec_enc [OF Cons.prems(1) r this] have "take_string d = Ok (a, advance d (length (enc_string a)))" .
  moreover have "take_arguments (length args) (c + length a) (advance d (length (enc_string a)))
      = Ok (map utf8_lossy args, advance (advance d (length (enc_string a))) (length (enc_arguments args)))"
    using Cons.IH remaining_advance [OF Cons.prems(1) r] Cons.prems(3) by simp
  ultimately show ?case using Cons.prems(3) by (simp add: add.assoc)
qed

section \<open>The grammar\<close>

text \<open>The payload of a context frame with the given group text, reason and raw arguments.\<close>

definition context_payload :: "bytes \<Rightarrow> bytes \<Rightarrow> bytes list \<Rightarrow> bytes" where
  "context_payload group_text reason_text args =
     [SSH_AGENTC_EXTENSION] @ enc_string CONTEXT_EXTENSION @ [CONTEXT_VERSION] @ enc_string group_text
       @ enc_string reason_text @ to_be_bytes (length args) @ enc_arguments args"

text \<open>The limits that a context respects.\<close>

definition command_ok :: "bytes list \<Rightarrow> bool" where
  "command_ok args \<longleftrightarrow>
     1 \<le> length args \<and> length args \<le> MAX_COMMAND_ARGUMENTS \<and> sum_list (map length args) \<le> MAX_COMMAND_SIZE"

lemma decode_text_Some: "decode_text v n = Some t \<Longrightarrow> t = v \<and> length v \<le> n"
  by (auto simp: decode_text_def split: if_splits)

lemma decode_fields_Ok:
  assumes "dec_ok d" and "decode_fields parse_str d = Ok ctx"
  shows "\<exists>group_text args. remaining d = enc_string group_text @ enc_string (reason ctx) @ to_be_bytes (length args) @ enc_arguments args
    \<and> decode_group_id parse_str group_text = Some (group_id ctx)
    \<and> decode_text (reason ctx) MAX_REASON_SIZE = Some (reason ctx) \<and> command_ok args
    \<and> command ctx = map utf8_lossy args"
proof -
  from assms(2) obtain g d1 u v d2 t n d3 cmd d4 where
    g: "take_string d = Ok (g, d1)" "decode_group_id parse_str g = Some u"
    and v: "take_string d1 = Ok (v, d2)" "decode_text v MAX_REASON_SIZE = Some t"
    and n: "take_u32 d2 = Ok (n, d3)" "1 \<le> n" "n \<le> MAX_COMMAND_ARGUMENTS"
    and c: "take_arguments n 0 d3 = Ok (cmd, d4)" "decoder_finish d4 = Ok ()"
    and ctx: "ctx = \<lparr>group_id = u, reason = t, command = cmd\<rparr>"
    by (auto simp: decode_fields_def split: sum.splits option.splits prod.splits if_splits)
  have t: "t = v" using decode_text_Some [OF v(2)] by simp
  note r1 = string_field.dec_remaining [OF assms(1) g(1)]
  note r2 = string_field.dec_remaining [OF conjunct1 [OF r1] v(1)]
  note r3 = u32_field.dec_remaining [OF conjunct1 [OF r2] n(1)]
  from take_arguments_Ok [OF conjunct1 [OF r3] c(1)] obtain args rest where
    args: "length args = n" "cmd = map utf8_lossy args" "sum_list (map length args) \<le> MAX_COMMAND_SIZE"
      "remaining d3 = enc_arguments args @ rest" "d4 = advance d3 (length (enc_arguments args))" by auto
  have "dec_ok d4" "remaining d4 = rest" using remaining_advance [OF conjunct1 [OF r3] args(4)] args(5) by auto
  with c(2) have "rest = []" by (auto simp: decoder_finish_def dec_ok_def split: if_splits)
  with g v n r1 r2 r3 args t show ?thesis
    by (intro exI [of _ g] exI [of _ args]) (simp add: ctx command_ok_def)
qed

lemma decode_fields_enc:
  assumes "dec_ok d" and r: "remaining d = enc_string group_text @ enc_string (reason ctx) @ to_be_bytes (length args) @ enc_arguments args"
    and "decode_group_id parse_str group_text = Some (group_id ctx)"
    and "decode_text (reason ctx) MAX_REASON_SIZE = Some (reason ctx)" and "command_ok args"
    and "command ctx = map utf8_lossy args"
  shows "decode_fields parse_str d = Ok ctx"
proof -
  let ?d1 = "advance d (length (enc_string group_text))"
  let ?d2 = "advance ?d1 (length (enc_string (reason ctx)))"
  let ?d3 = "advance ?d2 (length (to_be_bytes (length args)))"
  let ?d4 = "advance ?d3 (length (enc_arguments args))"
  note r1 = remaining_advance [OF assms(1) r]
  note r2 = remaining_advance [OF conjunct1 [OF r1] conjunct2 [OF r1]]
  note r3 = remaining_advance [OF conjunct1 [OF r2] conjunct2 [OF r2]]
  have r3': "remaining ?d3 = enc_arguments args @ []" using r3 by simp
  note r4 = remaining_advance [OF conjunct1 [OF r3] r3']
  have g: "length group_text < 2 ^ 32"
    using dec_ok_bound [OF assms(1), of "enc_string group_text"] r by simp
  have v: "length (reason ctx) < 2 ^ 32" using decode_text_Some [OF assms(4)] by (simp add: context_limits)
  have n: "length args < 2 ^ 32" using assms(5) by (simp add: command_ok_def context_limits)
  have "take_string d = Ok (group_text, ?d1)" using string_field.dec_enc [OF assms(1) r g] .
  moreover have "take_string ?d1 = Ok (reason ctx, ?d2)"
    using string_field.dec_enc [OF conjunct1 [OF r1] conjunct2 [OF r1] v] .
  moreover have "take_u32 ?d2 = Ok (length args, ?d3)"
    using u32_field.dec_enc [OF conjunct1 [OF r2] conjunct2 [OF r2] n] .
  moreover have "take_arguments (length args) 0 ?d3 = Ok (map utf8_lossy args, ?d4)"
    using take_arguments_enc [OF conjunct1 [OF r3] r3', of 0] assms(5) by (simp add: command_ok_def)
  moreover have "decoder_finish ?d4 = Ok ()" using r4 by (auto simp: decoder_finish_def dec_ok_def)
  ultimately show ?thesis using assms(3-6) unfolding decode_fields_def by (simp add: command_ok_def del: advance_advance)
qed

lemma decoder_packet_payload:
  "decoder_packet packet = map_option (\<lambda>payload. \<lparr>data = payload, offset = 0\<rparr>) (packet_payload packet)"
  by (auto simp: decoder_packet_def packet_payload_def Let_def split: option.splits)

lemma payload_dec_ok: "packet_payload packet = Some payload \<Longrightarrow> dec_ok \<lparr>data = payload, offset = 0\<rparr>"
  by (simp add: packet_payload_iff dec_ok_def)

lemma CONTEXT_EXTENSION_length: "length CONTEXT_EXTENSION = 21"
  by (simp add: CONTEXT_EXTENSION_def)

lemma decode_SomeE:
  assumes "decode parse_str packet = Ok (Some ctx)"
  obtains d where "packet_payload packet =
      Some ([SSH_AGENTC_EXTENSION] @ enc_string CONTEXT_EXTENSION @ [CONTEXT_VERSION] @ remaining d)"
    and "dec_ok d" and "decode_fields parse_str d = Ok ctx"
proof -
  from assms obtain payload d1 d2 d3 where p: "packet_payload packet = Some payload"
    and t: "take_u8 \<lparr>data = payload, offset = 0\<rparr> = Ok (SSH_AGENTC_EXTENSION, d1)"
    and n: "take_string d1 = Ok (CONTEXT_EXTENSION, d2)" and v: "take_u8 d2 = Ok (CONTEXT_VERSION, d3)"
    and f: "decode_fields parse_str d3 = Ok ctx"
    by (auto simp: decode_def decoder_packet_payload map_sum_def split: option.splits sum.splits prod.splits if_splits)
  note r1 = u8_field.dec_remaining [OF payload_dec_ok [OF p] t]
  note r2 = string_field.dec_remaining [OF conjunct1 [OF r1] n]
  note r3 = u8_field.dec_remaining [OF conjunct1 [OF r2] v]
  have "remaining \<lparr>data = payload, offset = 0\<rparr> = [SSH_AGENTC_EXTENSION] @ remaining d1" using r1 by (elim conjE)
  then have "payload = [SSH_AGENTC_EXTENSION] @ remaining d1" by simp
  also have "remaining d1 = enc_string CONTEXT_EXTENSION @ remaining d2" using r2 by (elim conjE)
  also have "remaining d2 = [CONTEXT_VERSION] @ remaining d3" using r3 by (elim conjE)
  finally have "payload = [SSH_AGENTC_EXTENSION] @ enc_string CONTEXT_EXTENSION @ [CONTEXT_VERSION] @ remaining d3"
    by (simp only: append_assoc)
  then show ?thesis by (intro that [of d3]) (use p f r3 in auto)
qed

lemma decode_enc:
  assumes "packet_payload packet = Some ([SSH_AGENTC_EXTENSION] @ enc_string CONTEXT_EXTENSION @ [CONTEXT_VERSION] @ rest)"
  shows "\<exists>d. dec_ok d \<and> remaining d = rest \<and> decode parse_str packet = map_sum id Some (decode_fields parse_str d)"
proof -
  let ?d0 = "\<lparr>data = [SSH_AGENTC_EXTENSION] @ enc_string CONTEXT_EXTENSION @ [CONTEXT_VERSION] @ rest, offset = 0\<rparr>"
  let ?d1 = "advance ?d0 1" and ?d2 = "advance ?d0 26" and ?d3 = "advance ?d0 27"
  have ok: "dec_ok ?d0" using payload_dec_ok [OF assms] .
  have r0: "remaining ?d0 = [SSH_AGENTC_EXTENSION] @ enc_string CONTEXT_EXTENSION @ [CONTEXT_VERSION] @ rest" by simp
  note r1 = remaining_advance [OF ok r0]
  note r2 = remaining_advance [OF conjunct1 [OF r1] conjunct2 [OF r1]]
  note r3 = remaining_advance [OF conjunct1 [OF r2] conjunct2 [OF r2]]
  have "take_u8 ?d0 = Ok (SSH_AGENTC_EXTENSION, ?d1)" using u8_field.dec_enc [OF ok r0] by simp
  moreover have "take_string ?d1 = Ok (CONTEXT_EXTENSION, ?d2)"
    using string_field.dec_enc [OF conjunct1 [OF r1] conjunct2 [OF r1]] by (simp add: CONTEXT_EXTENSION_length)
  moreover have "take_u8 ?d2 = Ok (CONTEXT_VERSION, ?d3)"
    using u8_field.dec_enc [OF conjunct1 [OF r2] conjunct2 [OF r2]] by (simp add: CONTEXT_EXTENSION_length)
  moreover have "dec_ok ?d3" "remaining ?d3 = rest"
    using r3 by (simp_all add: CONTEXT_EXTENSION_length)
  ultimately show ?thesis
    using assms by (intro exI [of _ ?d3]) (simp add: decode_def decoder_packet_payload)
qed

lemma decode_context_payload:
  assumes "packet_payload packet = Some (context_payload group_text reason_text args)"
  obtains d where "dec_ok d"
    and "remaining d = enc_string group_text @ enc_string reason_text @ to_be_bytes (length args) @ enc_arguments args"
    and "decode parse_str packet = map_sum id Some (decode_fields parse_str d)"
  using decode_enc [OF assms [unfolded context_payload_def], of parse_str]
  by (elim exE conjE) (rule that)

lemma encode_Ok:
  "encode uuid_simple ctx = Ok packet \<longleftrightarrow>
     decode_text (reason ctx) MAX_REASON_SIZE \<noteq> None \<and> command_ok (command ctx)
     \<and> packet = enc_string (context_payload (uuid_simple (group_id ctx)) (reason ctx) (command ctx))"
proof -
  have fold: "foldl push_string p args = p @ enc_arguments args" for p args
    by (induction args arbitrary: p) (simp_all add: push_string_def)
  show ?thesis
    by (auto simp: encode_def Let_def command_ok_def fold push_string_def context_payload_def add.assoc split: option.splits if_splits)
qed

text \<open>
  C4: the decoder accepts exactly the grammar. A packet decodes to a context if and only if
  it is one complete frame with message type 27, the extension name, version 1, a group
  identifier that parses, a reason that is acceptable text of at most 512 bytes, and between
  1 and 128 arguments of together at most 16 KiB, with nothing after them; the decoded
  command is the arguments with invalid UTF-8 replaced.
\<close>

theorem context_decode_iff:
  "decode parse_str packet = Ok (Some ctx) \<longleftrightarrow>
     (\<exists>group_text args. packet_payload packet = Some (context_payload group_text (reason ctx) args)
        \<and> decode_group_id parse_str group_text = Some (group_id ctx)
        \<and> decode_text (reason ctx) MAX_REASON_SIZE = Some (reason ctx)
        \<and> command_ok args \<and> command ctx = map utf8_lossy args)"
    (is "?L \<longleftrightarrow> ?R")
proof
  assume ?L
  then obtain d where d: "packet_payload packet =
      Some ([SSH_AGENTC_EXTENSION] @ enc_string CONTEXT_EXTENSION @ [CONTEXT_VERSION] @ remaining d)"
    "dec_ok d" "decode_fields parse_str d = Ok ctx" by (rule decode_SomeE)
  from decode_fields_Ok [OF d(2,3)] d(1) show ?R by (fastforce simp: context_payload_def)
next
  assume ?R
  then obtain group_text args where p: "packet_payload packet = Some (context_payload group_text (reason ctx) args)"
    and rest: "decode_group_id parse_str group_text = Some (group_id ctx)"
      "decode_text (reason ctx) MAX_REASON_SIZE = Some (reason ctx)" "command_ok args" "command ctx = map utf8_lossy args"
    by blast
  obtain d where
    "dec_ok d" "remaining d = enc_string group_text @ enc_string (reason ctx) @ to_be_bytes (length args) @ enc_arguments args"
    "decode parse_str packet = map_sum id Some (decode_fields parse_str d)"
    by (rule decode_context_payload [OF p])
  with decode_fields_enc [OF this(1,2) rest] show ?L by simp
qed

text \<open>A frame that \<open>encode\<close> returns is one packet of bounded size.\<close>

lemma encode_payload:
  assumes "encode uuid_simple ctx = Ok packet" and "length (uuid_simple (group_id ctx)) = 32"
  shows "packet_payload packet = Some (context_payload (uuid_simple (group_id ctx)) (reason ctx) (command ctx))
    \<and> length (context_payload (uuid_simple (group_id ctx)) (reason ctx) (command ctx)) \<le> 17479"
proof -
  let ?p = "context_payload (uuid_simple (group_id ctx)) (reason ctx) (command ctx)"
  from assms(1) obtain t where t: "decode_text (reason ctx) MAX_REASON_SIZE = Some t"
    and c: "command_ok (command ctx)" and p: "packet = enc_string ?p" by (auto simp: encode_Ok)
  have "length (enc_arguments args) = 4 * length args + sum_list (map length args)" for args
    by (induction args) simp_all
  then have "length ?p \<le> 17479"
    using decode_text_Some [OF t] c assms(2)
    by (simp add: context_payload_def command_ok_def context_limits CONTEXT_EXTENSION_length)
  then show ?thesis by (simp add: packet_payload_iff p)
qed

text \<open>
  What the client encodes, the server decodes. If the identifier formats to text that
  parses back, and the strings of the command are valid UTF-8 as Rust strings are, every
  frame that \<open>encode\<close> returns decodes to the context it was made from.
\<close>

lemma context_round_trip:
  assumes "encode uuid_simple ctx = Ok packet"
    and "parse_str (uuid_simple (group_id ctx)) = Some (group_id ctx)"
    and "utf8_valid (uuid_simple (group_id ctx))" and "length (uuid_simple (group_id ctx)) = 32"
    and "list_all utf8_valid (command ctx)"
  shows "decode parse_str packet = Ok (Some ctx)"
proof -
  let ?p = "context_payload (uuid_simple (group_id ctx)) (reason ctx) (command ctx)"
  from assms(1) obtain t where t: "decode_text (reason ctx) MAX_REASON_SIZE = Some t"
    and c: "command_ok (command ctx)" by (auto simp: encode_Ok)
  from encode_payload [OF assms(1,4)] have pay: "packet_payload packet = Some ?p" by blast
  obtain d where
    d: "dec_ok d" "remaining d = enc_string (uuid_simple (group_id ctx)) @ enc_string (reason ctx)
        @ to_be_bytes (length (command ctx)) @ enc_arguments (command ctx)"
    "decode parse_str packet = map_sum id Some (decode_fields parse_str d)"
    by (rule decode_context_payload [OF pay])
  have "map utf8_lossy (command ctx) = command ctx"
    using assms(5) by (intro map_idI) (simp add: list_all_iff utf8_lossy_valid)
  then have "decode_fields parse_str d = Ok ctx"
    using decode_text_Some [OF t] t c assms(2,3)
    by (intro decode_fields_enc [OF d(1,2)]) (simp_all add: decode_group_id_def)
  with d(3) show ?thesis by simp
qed

definition ex_uuid_simple :: "uuid \<Rightarrow> rstring" where
  "ex_uuid_simple u = replicate 31 48 @ [if u = 5 then 53 else 48]"

definition ex_parse_str :: "rstring \<Rightarrow> uuid option" where
  "ex_parse_str v = (if length v \<noteq> 32 then None else if last v = 53 then Some 5 else Some 0)"

definition ex_context :: request_context where
  "ex_context = \<lparr>group_id = 5, reason = [80, 117, 115, 104], command = [[103, 105, 116], []]\<rparr>"

lemma ex_round_trip:
  "\<exists>packet. encode ex_uuid_simple ex_context = Ok packet \<and> decode ex_parse_str packet = Ok (Some ex_context)"
proof -
  have "list_all (\<lambda>b. unat b < 128) (reason ex_context)" by (simp add: ex_context_def)
  then have "utf8_valid (reason ex_context)" "utf8_chars (reason ex_context) = map unat (reason ex_context)"
    by (rule utf8_valid_ascii, rule utf8_chars_ascii)
  then obtain packet where e: "encode ex_uuid_simple ex_context = Ok packet"
    by (simp add: encode_Ok decode_text_def command_ok_def context_limits text_char_def is_control_def is_whitespace_def ex_context_def)
  moreover have "list_all (\<lambda>b. unat b < 128) (ex_uuid_simple 5)" by (simp add: ex_uuid_simple_def list_all_iff)
  then have "utf8_valid (ex_uuid_simple (group_id ex_context))" by (simp add: ex_context_def utf8_valid_ascii)
  moreover have "ex_parse_str (ex_uuid_simple (group_id ex_context)) = Some (group_id ex_context)"
    "length (ex_uuid_simple (group_id ex_context)) = 32"
    by (simp_all add: ex_context_def ex_parse_str_def ex_uuid_simple_def)
  moreover have "list_all utf8_valid (command ex_context)"
    by (simp add: ex_context_def utf8_valid_ascii)
  ultimately show ?thesis using context_round_trip [OF e] by blast
qed

text \<open>
  Other packets are left alone, exactly. \<open>decode\<close> reports \<open>None\<close> (the packet is not a
  context) if and only if the packet is not a complete frame, or it has another message
  type, or it is an extension with another name.
\<close>

lemma context_decode_none_iff:
  "decode parse_str packet = Ok None \<longleftrightarrow>
     packet_payload packet = None
     \<or> (\<exists>t rest. packet_payload packet = Some (t # rest) \<and> t \<noteq> SSH_AGENTC_EXTENSION)
     \<or> (\<exists>name rest. packet_payload packet = Some (SSH_AGENTC_EXTENSION # enc_string name @ rest) \<and> name \<noteq> CONTEXT_EXTENSION)"
proof (cases "packet_payload packet")
  case None
  then show ?thesis by (simp add: decode_def decoder_packet_payload)
next
  case (Some payload)
  let ?d = "\<lparr>data = payload, offset = 0\<rparr>"
  have ok: "dec_ok ?d" using payload_dec_ok [OF Some] .
  show ?thesis
  proof (cases payload)
    case Nil
    then have "take_u8 ?d = Err Malformed" by (intro u8_field.dec_fails [OF ok]) simp
    then show ?thesis using Some Nil by (simp add: decode_def decoder_packet_payload)
  next
    case (Cons t rest)
    then have r: "remaining ?d = [t] @ rest" by simp
    let ?d1 = "advance ?d (length [t])"
    have t: "take_u8 ?d = Ok (t, ?d1)" using u8_field.dec_enc [OF ok r] by simp
    note r1 = remaining_advance [OF ok r]
    have none: "decode parse_str packet = Ok None \<longleftrightarrow>
        t \<noteq> SSH_AGENTC_EXTENSION \<or> (\<exists>name d2. take_string ?d1 = Ok (name, d2) \<and> name \<noteq> CONTEXT_EXTENSION)"
      using Some t by (auto simp: decode_def decoder_packet_payload map_sum_def split: sum.splits prod.splits)
    have "(\<exists>d2. take_string ?d1 = Ok (name, d2)) \<longleftrightarrow> (\<exists>more. rest = enc_string name @ more)" for name
      using string_field.dec_iff [OF conjunct1 [OF r1]] dec_ok_bound [OF conjunct1 [OF r1], of "enc_string name"] r1 by auto
    then have "(\<exists>name d2. take_string ?d1 = Ok (name, d2) \<and> name \<noteq> CONTEXT_EXTENSION)
        \<longleftrightarrow> (\<exists>name more. rest = enc_string name @ more \<and> name \<noteq> CONTEXT_EXTENSION)" by metis
    with none show ?thesis unfolding Some Cons by auto
  qed
qed

lemma length_utf8_lossy: "length (utf8_lossy bs) \<le> 3 * length bs"
proof (induction bs rule: utf8_lossy.induct)
  case (1 bs)
  show ?case
  proof (cases "bs = []")
    case False
    let ?n = "snd (utf8_step bs)" and ?h = "if fst (utf8_step bs) then take (snd (utf8_step bs)) bs else replacement_character"
    have IH: "length (utf8_lossy (drop ?n bs)) \<le> 3 * length (drop ?n bs)" using 1 [OF False] by simp
    have "0 < min ?n (length bs)" using False utf8_step_pos [of bs] by simp
    then have "length ?h \<le> 3 * min ?n (length bs)"
      by (cases "fst (utf8_step bs)") (auto simp: replacement_character_def min_def split: if_splits)
    moreover have "min ?n (length bs) + length (drop ?n bs) = length bs" by auto
    ultimately show ?thesis using IH False by (subst utf8_lossy.simps) (auto simp: min_def split: if_splits)
  qed simp
qed

text \<open>
  A decoded context is safe to display and bounded. Its reason is non-empty valid UTF-8
  of at most 512 bytes without control characters or white space other than the blank, its
  command has 1 to 128 arguments, all valid UTF-8 and, replacements included, of at most
  48 KiB together.
\<close>

lemma context_decode_bounds:
  assumes "decode parse_str packet = Ok (Some ctx)"
  shows "reason ctx \<noteq> [] \<and> length (reason ctx) \<le> 512 \<and> utf8_valid (reason ctx)
    \<and> list_all (\<lambda>c. c = 0x20 \<or> \<not> is_control c \<and> \<not> is_whitespace c) (utf8_chars (reason ctx))
    \<and> 1 \<le> length (command ctx) \<and> length (command ctx) \<le> 128
    \<and> list_all utf8_valid (command ctx) \<and> sum_list (map length (command ctx)) \<le> 3 * (16 * 1024)"
proof -
  from assms obtain d where d: "dec_ok d" "decode_fields parse_str d = Ok ctx" by (rule decode_SomeE)
  from decode_fields_Ok [OF this] obtain args where t: "decode_text (reason ctx) MAX_REASON_SIZE = Some (reason ctx)"
    and c: "command_ok args" "command ctx = map utf8_lossy args" by blast
  have "sum_list (map (length \<circ> utf8_lossy) as) \<le> 3 * sum_list (map length as)" for as
  proof (induction as)
    case (Cons a as)
    then show ?case using length_utf8_lossy [of a] by simp
  qed simp
  from this [of args] have "sum_list (map length (command ctx)) \<le> 3 * (16 * 1024)"
    using c by (simp add: command_ok_def context_limits)
  moreover have "list_all utf8_valid (command ctx)" by (simp add: c(2) list_all_iff utf8_valid_lossy)
  moreover have "text_char = (\<lambda>c. c = 0x20 \<or> \<not> is_control c \<and> \<not> is_whitespace c)" by (simp add: text_char_def fun_eq_iff)
  ultimately show ?thesis
    using t c by (auto simp: decode_text_def command_ok_def context_limits split: if_splits)
qed

lemma ex_reason: "decode_text (reason ex_context) MAX_REASON_SIZE = Some (reason ex_context)"
proof -
  have "list_all (\<lambda>b. unat b < 128) (reason ex_context)" by (simp add: ex_context_def)
  then have "utf8_valid (reason ex_context)" "utf8_chars (reason ex_context) = map unat (reason ex_context)"
    by (rule utf8_valid_ascii, rule utf8_chars_ascii)
  then show ?thesis
    by (simp add: decode_text_def context_limits text_char_def is_control_def is_whitespace_def ex_context_def)
qed

definition ex_context_packet :: bytes where
  "ex_context_packet = enc_string (context_payload [] (reason ex_context) (command ex_context))"

lemma ex_decode: "decode (\<lambda>_. Some 5) ex_context_packet = Ok (Some ex_context)"
proof -
  let ?p = "context_payload [] (reason ex_context) (command ex_context)"
  have "length ?p < 2 ^ 32" by (simp add: context_payload_def CONTEXT_EXTENSION_def ex_context_def)
  then have pay: "packet_payload ex_context_packet = Some ?p" by (simp add: packet_payload_iff ex_context_packet_def)
  obtain d where
    d: "dec_ok d" "remaining d = enc_string [] @ enc_string (reason ex_context)
        @ to_be_bytes (length (command ex_context)) @ enc_arguments (command ex_context)"
    "decode (\<lambda>_. Some 5) ex_context_packet = map_sum id Some (decode_fields (\<lambda>_. Some 5) d)"
    by (rule decode_context_payload [OF pay])
  have "map utf8_lossy (command ex_context) = command ex_context"
    by (intro map_idI) (auto simp: ex_context_def intro!: utf8_lossy_valid utf8_valid_ascii)
  then have "decode_fields (\<lambda>_. Some 5) d = Ok ex_context"
    using ex_reason by (intro decode_fields_enc [OF d(1,2)])
      (simp_all add: decode_group_id_def command_ok_def context_limits ex_context_def)
  then show ?thesis using d(3) by simp
qed

end
