(* ===== verification/Router.thy ===== *)
theory Router
  imports Context
begin

text \<open>
  \<open>request_router.rs\<close>: the classification of the packets of one socket connection. The
  identities of the paired client arrive through a watch channel; a routed packet is either
  answered at once or submitted to the broker with the context of the connection.
\<close>

section \<open>The watch channel of identities\<close>

text \<open>
  \<open>tokio::sync::watch\<close>: the latest value with a version that every send increments, and
  whether the sender is still there. A receiver remembers the version it has seen.
\<close>

record identity_watch =
  w_value :: "agent_identity list option"
  w_version :: nat
  w_sender_alive :: bool

definition watch_send :: "agent_identity list option \<Rightarrow> identity_watch \<Rightarrow> identity_watch" where
  "watch_send v w = w\<lparr>w_value := v, w_version := w_version w + 1\<rparr>"

text \<open>\<open>has_changed\<close> fails when the sender was dropped.\<close>

definition has_changed :: "identity_watch \<Rightarrow> nat \<Rightarrow> unit + bool" where
  "has_changed w seen = (if w_sender_alive w then Ok (w_version w \<noteq> seen) else Err ())"

section \<open>Routers\<close>

definition AGENT_FAILURE_FRAME :: bytes where "AGENT_FAILURE_FRAME = [0, 0, 0, 1, 5]"

definition AGENT_SUCCESS_FRAME :: bytes where "AGENT_SUCCESS_FRAME = [0, 0, 0, 1, 6]"

datatype route_error = InvalidIdentities identity_error | InvalidContext context_error | LateContext

text \<open>The response future: ready with a frame, or the submission of a request.\<close>

datatype routed_response =
    ReadyResponse bytes
  | SubmitRequest bytes "request_context option" nat

record connection_router =
  cr_seen :: nat
  cr_identity_answer :: "bytes option"
  cr_context :: "request_context option"
  cr_accepts_context :: bool

definition derive_answer ::
  "('req, 'cred) ssh_lib \<Rightarrow> agent_identity list option \<Rightarrow> identity_error + bytes option" where
  "derive_answer lib identities =
     (case identities of None \<Rightarrow> Ok None
      | Some ids \<Rightarrow> (case identities_answer lib ids of Inl e \<Rightarrow> Err e | Inr answer \<Rightarrow> Ok (Some answer)))"

text \<open>\<open>RequestRouter::new\<close> checks the identities; a router is its receiver's seen version.\<close>

definition request_router_new ::
  "('req, 'cred) ssh_lib \<Rightarrow> identity_watch \<Rightarrow> nat \<Rightarrow> identity_error + nat" where
  "request_router_new lib w seen =
     (case derive_answer lib (w_value w) of Inl e \<Rightarrow> Err e | Inr _ \<Rightarrow> Ok seen)"

text \<open>\<open>RequestRouter::connection\<close>: \<open>borrow\<close> reads the value without marking it seen.\<close>

definition connection_router_new ::
  "('req, 'cred) ssh_lib \<Rightarrow> identity_watch \<Rightarrow> nat \<Rightarrow> identity_error + connection_router" where
  "connection_router_new lib w seen =
     (case derive_answer lib (w_value w) of Inl e \<Rightarrow> Err e
      | Inr answer \<Rightarrow>
          Ok \<lparr>cr_seen = seen, cr_identity_answer = answer, cr_context = None, cr_accepts_context = True\<rparr>)"

text \<open>\<open>borrow_and_update\<close> marks the version seen before the answer is derived.\<close>

definition refresh_identity_answer ::
  "('req, 'cred) ssh_lib \<Rightarrow> identity_watch \<Rightarrow> connection_router \<Rightarrow> connection_router \<times> (identity_error + unit)" where
  "refresh_identity_answer lib w r =
     (if \<not> (case has_changed w (cr_seen r) of Inl _ \<Rightarrow> False | Inr changed \<Rightarrow> changed) then (r, Ok ())
      else
        (let r1 = r\<lparr>cr_seen := w_version w\<rparr> in
         case derive_answer lib (w_value w) of Inl e \<Rightarrow> (r1, Err e)
         | Inr answer \<Rightarrow> (r1\<lparr>cr_identity_answer := answer\<rparr>, Ok ())))"

text \<open>The part of \<open>route\<close> after the context extension has been handled.\<close>

definition route_packet ::
  "('req, 'cred) ssh_lib \<Rightarrow> connection_router \<Rightarrow> bytes \<Rightarrow> nat \<Rightarrow> routed_response" where
  "route_packet lib r packet cancellation =
     (case (is_identity_request lib packet, cr_identity_answer r) of
        (True, Some answer) \<Rightarrow> ReadyResponse answer
      | _ \<Rightarrow>
          if is_openssh_session_bind_request packet then ReadyResponse AGENT_FAILURE_FRAME
          else SubmitRequest packet (cr_context r) cancellation)"

definition route ::
  "('req, 'cred) ssh_lib \<Rightarrow> (rstring \<Rightarrow> uuid option) \<Rightarrow> identity_watch \<Rightarrow> connection_router \<Rightarrow> bytes \<Rightarrow> nat \<Rightarrow>
     connection_router \<times> (route_error + routed_response)" where
  "route lib parse_str w r packet cancellation =
     (case refresh_identity_answer lib w r of
        (r, Inl e) \<Rightarrow> (r, Err (InvalidIdentities e))
      | (r, Inr _) \<Rightarrow>
          (case decode parse_str packet of
             Inr (Some received) \<Rightarrow>
               if cr_accepts_context r then
                 (r\<lparr>cr_context := Some received, cr_accepts_context := False\<rparr>, Ok (ReadyResponse AGENT_SUCCESS_FRAME))
               else (r, Err LateContext)
           | Inl e \<Rightarrow> (r, Err (InvalidContext e))
           | Inr None \<Rightarrow>
               (let r = r\<lparr>cr_accepts_context := False\<rparr> in (r, Ok (route_packet lib r packet cancellation)))))"

text \<open>
  The outcome of the \<open>submit\<close> future: whether the broker took the request, and what arrived
  on the reply channel (\<^term>\<open>None\<close> when it was dropped).
\<close>

definition submit_outcome :: "bool \<Rightarrow> (request_error + bytes) option \<Rightarrow> request_error + bytes" where
  "submit_outcome sent answer =
     (if \<not> sent then Err Unavailable else (case answer of None \<Rightarrow> Err Unavailable | Some r \<Rightarrow> r))"

section \<open>A connection\<close>

text \<open>
  The life of a connection: the paired client publishes identities, packets are routed. A
  packet that is refused closes the connection, so every routed packet was accepted.
\<close>

datatype router_event =
    IdentitiesPublished "agent_identity list option"
  | PacketRouted bytes nat routed_response

inductive router_step ::
  "('req, 'cred) ssh_lib \<Rightarrow> (rstring \<Rightarrow> uuid option) \<Rightarrow>
     identity_watch \<times> connection_router \<Rightarrow> router_event \<Rightarrow> identity_watch \<times> connection_router \<Rightarrow> bool"
  for lib parse_str where
  published: "router_step lib parse_str (w, r) (IdentitiesPublished v) (watch_send v w, r)"
| routed: "route lib parse_str w r packet cancellation = (r', Ok response) \<Longrightarrow>
    router_step lib parse_str (w, r) (PacketRouted packet cancellation response) (w, r')"

inductive_cases router_stepE: "router_step lib parse_str (w, r) e t"

text \<open>The cached answer belongs to the identities of the version that was seen.\<close>

definition router_inv :: "('req, 'cred) ssh_lib \<Rightarrow> identity_watch \<times> connection_router \<Rightarrow> bool" where
  "router_inv lib s \<longleftrightarrow>
     cr_seen (snd s) \<le> w_version (fst s)
     \<and> (cr_seen (snd s) = w_version (fst s) \<longrightarrow> derive_answer lib (w_value (fst s)) = Ok (cr_identity_answer (snd s)))"

lemma refresh_Ok:
  assumes "router_inv lib (w, r)" and "refresh_identity_answer lib w r = (r1, Ok ())"
  shows "router_inv lib (w, r1) \<and> cr_context r1 = cr_context r \<and> cr_accepts_context r1 = cr_accepts_context r
    \<and> (w_sender_alive w \<longrightarrow> derive_answer lib (w_value w) = Ok (cr_identity_answer r1))"
  using assms
  by (auto simp: refresh_identity_answer_def router_inv_def has_changed_def Let_def split: if_splits sum.splits)

lemma route_OkE:
  assumes "route lib parse_str w r packet cancellation = (r', Ok response)"
  obtains (is_context) r1 ctx where "refresh_identity_answer lib w r = (r1, Ok ())" and "decode parse_str packet = Ok (Some ctx)"
      and "cr_accepts_context r1" and "r' = r1\<lparr>cr_context := Some ctx, cr_accepts_context := False\<rparr>"
      and "response = ReadyResponse AGENT_SUCCESS_FRAME"
  | (other) r1 where "refresh_identity_answer lib w r = (r1, Ok ())" and "decode parse_str packet = Ok None"
      and "r' = r1\<lparr>cr_accepts_context := False\<rparr>" and "response = route_packet lib r' packet cancellation"
  using assms by (auto simp: route_def Let_def split: prod.splits sum.splits option.splits if_splits)

lemma refresh_frame:
  "cr_context (fst (refresh_identity_answer lib w r)) = cr_context r"
  "cr_accepts_context (fst (refresh_identity_answer lib w r)) = cr_accepts_context r"
  by (auto simp: refresh_identity_answer_def Let_def split: sum.splits bool.splits)

lemma router_step_inv: "router_step lib parse_str s e t \<Longrightarrow> router_inv lib s \<Longrightarrow> router_inv lib t"
proof (induction rule: router_step.induct)
  case (published w r v)
  then show ?case by (auto simp: router_inv_def watch_send_def)
next
  case (routed w r packet cancellation r' response)
  from routed(1) show ?case
    by (cases rule: route_OkE) (auto dest: refresh_Ok [OF routed(2)] simp: router_inv_def)
qed

interpretation router_runs: kept_by_steps "router_step lib parse_str" "router_inv lib" for lib parse_str
  by unfold_locales (rule router_step_inv)

lemma connection_router_new_inv:
  "connection_router_new lib w seen = Ok r \<Longrightarrow> seen \<le> w_version w \<Longrightarrow> router_inv lib (w, r)"
  by (auto simp: connection_router_new_def router_inv_def split: sum.splits)

section \<open>Properties\<close>

definition ex_watch :: identity_watch where
  "ex_watch = \<lparr>w_value = Some [], w_version = 3, w_sender_alive = True\<rparr>"

definition ex_router :: connection_router where
  "ex_router =
     \<lparr>cr_seen = 3, cr_identity_answer = Some [0, 0, 0, 5, 12, 0, 0, 0, 0], cr_context = None, cr_accepts_context = True\<rparr>"

lemma ex_answer: "identities_answer ex_ssh_lib [] = Ok [0, 0, 0, 5, 12, 0, 0, 0, 0]"
  by (simp add: identities_answer_def identities_response_def response_payload_length_def ex_ssh_lib_def
      ex_encode_response_def to_be_bytes_def)

lemma ex_router_new: "connection_router_new ex_ssh_lib ex_watch 3 = Ok ex_router"
  by (simp add: connection_router_new_def derive_answer_def ex_watch_def ex_router_def ex_answer)

text \<open>
  C24: an identity request is answered from the current identities. In every state of a
  connection, while the publisher lives, an identity request that is routed is answered at
  once with the identities answer of the identities published last, and only when none are
  known is it submitted to the broker, unmodified.
\<close>

theorem router_identities_current:
  assumes "connection_router_new lib w0 seen = Ok r0" and "seen \<le> w_version w0"
    and "runs (router_step lib parse_str) (w0, r0) ls (w, r)" and "w_sender_alive w"
    and "is_identity_request lib packet" and "decode parse_str packet = Ok None"
    and "route lib parse_str w r packet cancellation = (r', Ok response)"
  shows "case w_value w of
      Some ids \<Rightarrow> (\<exists>answer. identities_answer lib ids = Ok answer \<and> response = ReadyResponse answer)
    | None \<Rightarrow> \<not> is_openssh_session_bind_request packet \<longrightarrow> response = SubmitRequest packet (cr_context r) cancellation"
proof -
  have inv: "router_inv lib (w, r)"
    using router_runs.runs_keep [OF assms(3) connection_router_new_inv [OF assms(1,2)]] .
  from assms(7,6) obtain r1 where r1: "refresh_identity_answer lib w r = (r1, Ok ())"
    and r': "r' = r1\<lparr>cr_accepts_context := False\<rparr>" and resp: "response = route_packet lib r' packet cancellation"
    by (cases rule: route_OkE) auto
  from refresh_Ok [OF inv r1] assms(4) have "derive_answer lib (w_value w) = Ok (cr_identity_answer r')"
    and "cr_context r' = cr_context r" by (simp_all add: r')
  with assms(5) show ?thesis
    by (auto simp: resp route_packet_def derive_answer_def split: option.splits sum.splits)
qed

theorem router_identities_current_witness:
  "is_identity_request ex_ssh_lib [0, 0, 0, 1, 11] \<and>
   (\<exists>r' answer. route ex_ssh_lib (\<lambda>_. None) ex_watch ex_router [0, 0, 0, 1, 11] 9 = (r', Ok (ReadyResponse answer))
     \<and> identities_answer ex_ssh_lib [] = Ok answer)"
proof -
  let ?p = "[0, 0, 0, 1, 11] :: bytes"
  have pay: "packet_payload ?p = Some [11]" by (simp add: packet_payload_iff to_be_bytes_def)
  have id: "is_identity_request ex_ssh_lib ?p" by (simp add: is_identity_request_def pay ex_ssh_lib_def)
  have d: "decode (\<lambda>_. None) ?p = Ok None"
    by (simp add: decode_def decoder_packet_payload pay take_u8_def take_bytes_def slice_get_def SSH_AGENTC_EXTENSION_def)
  obtain r' response where run: "route ex_ssh_lib (\<lambda>_. None) ex_watch ex_router ?p 9 = (r', Ok response)"
    by (simp add: route_def refresh_identity_answer_def has_changed_def Let_def ex_watch_def ex_router_def d)
  have "3 \<le> w_version ex_watch" "w_sender_alive ex_watch" by (simp_all add: ex_watch_def)
  from router_identities_current [OF ex_router_new this(1) runs_Nil this(2) id d run] id run
  show ?thesis by (auto simp: ex_watch_def)
qed

text \<open>The packets of a connection that were routed, and the context of the first of them.\<close>

fun routed_packets :: "router_event list \<Rightarrow> bytes list" where
  "routed_packets [] = []"
| "routed_packets (PacketRouted packet _ _ # ls) = packet # routed_packets ls"
| "routed_packets (IdentitiesPublished _ # ls) = routed_packets ls"

definition connection_context :: "(rstring \<Rightarrow> uuid option) \<Rightarrow> router_event list \<Rightarrow> request_context option" where
  "connection_context parse_str ls =
     (case routed_packets ls of [] \<Rightarrow> None
      | packet # _ \<Rightarrow> (case decode parse_str packet of Inr (Some ctx) \<Rightarrow> Some ctx | _ \<Rightarrow> None))"

lemma route_context:
  assumes "route lib parse_str w r packet cancellation = (r', Ok response)"
  shows "\<not> cr_accepts_context r'"
    and "cr_context r' = (case decode parse_str packet of Inr (Some ctx) \<Rightarrow> Some ctx | _ \<Rightarrow> cr_context r)"
    and "\<not> cr_accepts_context r \<Longrightarrow> decode parse_str packet = Ok None"
    and "response = SubmitRequest q ctx c \<Longrightarrow> q = packet \<and> ctx = cr_context r' \<and> c = cancellation
      \<and> decode parse_str packet = Ok None \<and> \<not> is_openssh_session_bind_request packet"
proof -
  have "refresh_identity_answer lib w r = (r1, Ok ()) \<Longrightarrow> cr_context r1 = cr_context r \<and> cr_accepts_context r1 = cr_accepts_context r" for r1
    using refresh_frame [of lib w r] by simp
  then show "\<not> cr_accepts_context r'"
    "cr_context r' = (case decode parse_str packet of Inr (Some ctx) \<Rightarrow> Some ctx | _ \<Rightarrow> cr_context r)"
    "\<not> cr_accepts_context r \<Longrightarrow> decode parse_str packet = Ok None"
    "response = SubmitRequest q ctx c \<Longrightarrow> q = packet \<and> ctx = cr_context r' \<and> c = cancellation
      \<and> decode parse_str packet = Ok None \<and> \<not> is_openssh_session_bind_request packet"
    using assms
    by - (erule route_OkE; auto simp: route_packet_def split: bool.splits option.splits if_splits)+
qed

lemma submitted_after_first:
  assumes "runs (router_step lib parse_str) s ls t" and "\<not> cr_accepts_context (snd s)"
    and "PacketRouted packet cancellation (SubmitRequest q ctx c) \<in> set ls"
  shows "q = packet \<and> ctx = cr_context (snd s) \<and> c = cancellation \<and> \<not> is_openssh_session_bind_request packet"
  using assms
proof (induction rule: runs.induct)
  case (runs_Cons s l t ls u)
  obtain w r where s: "s = (w, r)" by (cases s)
  from runs_Cons.hyps(1) have keep: "cr_context (snd t) = cr_context r \<and> \<not> cr_accepts_context (snd t)"
    using runs_Cons.prems(1) unfolding s
    by (cases rule: router_stepE) (auto simp: route_context(2,3) dest: route_context(1))
  show ?case
  proof (cases "l = PacketRouted packet cancellation (SubmitRequest q ctx c)")
    case True
    with runs_Cons.hyps(1) keep show ?thesis unfolding s by (auto elim!: router_stepE dest!: route_context(4))
  next
    case False
    with runs_Cons.IH runs_Cons.prems keep show ?thesis by (auto simp: s)
  qed
qed simp

text \<open>
  The context of a connection is fixed by its first packet: every request that the connection
  submits carries it.
\<close>

lemma submitted_context:
  assumes "connection_router_new lib w0 seen = Ok r0"
    and "runs (router_step lib parse_str) (w0, r0) ls t"
    and "PacketRouted packet cancellation (SubmitRequest q ctx c) \<in> set ls"
  shows "q = packet \<and> c = cancellation \<and> ctx = connection_context parse_str ls
    \<and> \<not> is_openssh_session_bind_request packet"
proof -
  have "cr_accepts_context r0" "cr_context r0 = None"
    using assms(1) by (auto simp: connection_router_new_def split: sum.splits)
  then have "cr_accepts_context (snd (w0, r0)) \<and> cr_context (snd (w0, r0)) = None" by simp
  with assms(2) show ?thesis using assms(3)
  proof (induction rule: runs.induct)
    case (runs_Cons s l t ls u)
    from runs_Cons.hyps(1) show ?case
    proof (cases rule: router_step.cases)
      case (published w r v)
      with runs_Cons.IH runs_Cons.prems show ?thesis by (auto simp: connection_context_def)
    next
      case (routed w r first cancellation' r' response)
      note step = routed(4)
      have ctx: "connection_context parse_str (l # ls) = cr_context r'"
        using route_context(2) [OF step] runs_Cons.prems(1) routed(1,2)
        by (auto simp: connection_context_def split: sum.splits option.splits)
      show ?thesis
      proof (cases "l = PacketRouted packet cancellation (SubmitRequest q ctx c)")
        case True
        with route_context(4) [OF step] routed(2) ctx show ?thesis by auto
      next
        case False
        with runs_Cons.prems(2) have "PacketRouted packet cancellation (SubmitRequest q ctx c) \<in> set ls" by simp
        from submitted_after_first [OF runs_Cons.hyps(2) _ this] route_context(1) [OF step] routed(3) ctx
        show ?thesis by auto
      qed
    qed
  qed simp
qed

text \<open>A connection that announces a context and then asks for a signature.\<close>

abbreviation ex_named :: connection_router where
  "ex_named \<equiv> ex_router\<lparr>cr_context := Some ex_context, cr_accepts_context := False\<rparr>"

lemma ex_route_announcement:
  assumes "decode parse_str packet = Ok (Some ex_context)"
  shows "route ex_ssh_lib parse_str ex_watch ex_router packet token = (ex_named, Ok (ReadyResponse AGENT_SUCCESS_FRAME))"
  by (simp add: route_def refresh_identity_answer_def has_changed_def assms) (simp add: ex_watch_def ex_router_def)

lemmas ex_route_context = ex_route_announcement [OF ex_decode, of 8]

lemma ex_payload: "packet_payload [0, 0, 0, 1, 13] = Some [13]"
  by (simp add: packet_payload_iff to_be_bytes_def)

lemma ex_route_sign:
  "route ex_ssh_lib parse_str ex_watch ex_named [0, 0, 0, 1, 13] 9
     = (ex_named, Ok (SubmitRequest [0, 0, 0, 1, 13] (Some ex_context) 9))"
  by (simp add: route_def refresh_identity_answer_def has_changed_def ex_watch_def ex_router_def decode_def
      decoder_packet_payload ex_payload take_u8_def take_bytes_def slice_get_def SSH_AGENTC_EXTENSION_def
      route_packet_def is_identity_request_def is_openssh_session_bind_request_def ex_ssh_lib_def)

abbreviation ex_connection :: "router_event list" where
  "ex_connection \<equiv>
     [PacketRouted ex_context_packet 8 (ReadyResponse AGENT_SUCCESS_FRAME),
      PacketRouted [0, 0, 0, 1, 13] 9 (SubmitRequest [0, 0, 0, 1, 13] (Some ex_context) 9)]"

lemma ex_connection_runs:
  "runs (router_step ex_ssh_lib (\<lambda>_. Some 5)) (ex_watch, ex_router) ex_connection (ex_watch, ex_named)"
  by (rule runs_Cons, rule router_step.routed, rule ex_route_context,
      rule runs_Cons, rule router_step.routed, rule ex_route_sign, rule runs_Nil)

text \<open>
  A context can be announced only once and only first. After any packet of a connection
  has been routed, a further context extension is refused and leaves the context of the
  connection as it was.
\<close>

lemma router_late_context_refused:
  assumes "runs (router_step lib parse_str) (w0, r0) ls (w, r)" and "routed_packets ls \<noteq> []"
    and "decode parse_str packet = Ok (Some ctx)"
  shows "\<exists>r' e. route lib parse_str w r packet cancellation = (r', Err e) \<and> cr_context r' = cr_context r
    \<and> (e = LateContext \<or> (\<exists>x. e = InvalidIdentities x))"
proof -
  have "\<not> cr_accepts_context (snd t)"
    if "runs (router_step lib parse_str) s ls t" "routed_packets ls \<noteq> [] \<or> \<not> cr_accepts_context (snd s)" for s t
    using that
  proof (induction rule: runs.induct)
    case (runs_Cons s l t ls u)
    from runs_Cons.hyps(1) show ?case
      by (cases rule: router_step.cases) (use runs_Cons.IH runs_Cons.prems in \<open>auto dest: route_context(1)\<close>)
  qed simp
  from this [OF assms(1)] assms(2) have "\<not> cr_accepts_context r" by simp
  then show ?thesis
    using refresh_frame [of lib w r] assms(3) by (auto simp: route_def split: prod.splits sum.splits)
qed

end
