(* ===== verification/Pairing.thy ===== *)
theory Pairing
  imports Router
begin

text \<open>
  \<open>remote/pairing/mod.rs\<close> and \<open>memory.rs\<close>: the pairing policy. One client may claim the
  server; it is then recognised by its identifier and the hash of its credential. The store
  behind the policy is an interface; the hash (\<open>Sha256::digest\<close>), the random credential and
  the clock are arguments.
\<close>

section \<open>Data\<close>

record push_subscription =
  endpoint :: rstring
  expiration_time :: "nat option"
  p256dh :: rstring
  auth :: rstring

record paired_client =
  client_id :: uuid
  credential_hash :: bytes
  label :: rstring
  created_at :: nat
  last_seen_at :: "nat option"
  client_push_subscription :: "push_subscription option"
  client_identities :: "agent_identity list option"

record pairing_state =
  server_id :: uuid
  client :: "paired_client option"

text \<open>\<open>PairingState::unpaired\<close>, with the identifier it generates.\<close>

definition unpaired :: "uuid \<Rightarrow> pairing_state" where
  "unpaired new_id = \<lparr>server_id = new_id, client = None\<rparr>"

text \<open>What can go wrong in a store.\<close>

datatype store_error =
    CouldNotRead | CouldNotInspect | WrongMode | CouldNotDecode | UnsupportedStateVersion nat
  | NoParentDirectory | CouldNotCreateDirectory | NoFileName | CouldNotEncode | CouldNotCreateTemporary
  | CouldNotWrite | CouldNotFinish | CouldNotSync | CouldNotReplace | CouldNotSyncParent

datatype authorization_error =
    AlreadyPaired | NotPaired | Rejected | CredentialGeneration | AuthInvalidIdentities | Storage store_error

datatype authorization =
    Paired uuid uuid bytes
  | Authenticated uuid uuid

fun authorization_client_id :: "authorization \<Rightarrow> uuid" where
  "authorization_client_id (Paired _ cid _) = cid"
| "authorization_client_id (Authenticated _ cid) = cid"

text \<open>
  The channel of revocations, a \<open>watch\<close> channel as the one of identities: its value counts the
  revocations in a \<open>u64\<close>, and every modification makes a new version that a receiver notices.
\<close>

record revocation_watch =
  rv_generation :: nat
  rv_version :: nat

definition revoke :: "revocation_watch \<Rightarrow> revocation_watch" where
  "revoke w = \<lparr>rv_generation = wrap_u64 (rv_generation w + 1), rv_version = rv_version w + 1\<rparr>"

record 'st pairing_service =
  sv_store :: 'st
  sv_state :: pairing_state
  sv_revocations :: revocation_watch
  sv_identities :: identity_watch

type_synonym 'st save_op = "'st \<Rightarrow> pairing_state \<Rightarrow> 'st \<times> (store_error + unit)"

section \<open>The service\<close>

datatype open_error = OpenStore store_error | OpenIdentities identity_error

definition state_identities :: "pairing_state \<Rightarrow> agent_identity list option" where
  "state_identities state = (case client state of None \<Rightarrow> None | Some c \<Rightarrow> client_identities c)"

text \<open>The second half of \<open>open\<close>, once the state is known.\<close>

definition open_with ::
  "('req, 'cred) ssh_lib \<Rightarrow> 'st \<Rightarrow> pairing_state \<Rightarrow> open_error + 'st pairing_service" where
  "open_with lib store state =
     (let identities = state_identities state;
          channel = \<lparr>w_value = identities, w_version = 0, w_sender_alive = True\<rparr>;
          service = \<lparr>sv_store = store, sv_state = state, sv_revocations = \<lparr>rv_generation = 0, rv_version = 0\<rparr>,
                     sv_identities = channel\<rparr>
      in case identities of None \<Rightarrow> Ok service
         | Some ids \<Rightarrow> (case validate_identities lib ids of Inl e \<Rightarrow> Err (OpenIdentities e) | Inr _ \<Rightarrow> Ok service))"

definition service_open ::
  "('req, 'cred) ssh_lib \<Rightarrow> ('st \<Rightarrow> store_error + pairing_state option) \<Rightarrow> 'st save_op \<Rightarrow> 'st \<Rightarrow> uuid \<Rightarrow>
     'st \<times> (open_error + 'st pairing_service)" where
  "service_open lib load save store new_id =
     (case load store of Inl e \<Rightarrow> (store, Err (OpenStore e))
      | Inr (Some state) \<Rightarrow> (store, open_with lib store state)
      | Inr None \<Rightarrow>
          (let state = unpaired new_id in
           case save store state of
             (store, Inl e) \<Rightarrow> (store, Err (OpenStore e))
           | (store, Inr _) \<Rightarrow> (store, open_with lib store state)))"

text \<open>Saves the next state and, only if that succeeded, makes it the current one.\<close>

definition commit :: "'st save_op \<Rightarrow> 'st pairing_service \<Rightarrow> pairing_state \<Rightarrow> 'st pairing_service \<times> (store_error + unit)" where
  "commit save sv next =
     (case save (sv_store sv) next of
        (store, Inl e) \<Rightarrow> (sv\<lparr>sv_store := store\<rparr>, Err e)
      | (store, Inr _) \<Rightarrow> (sv\<lparr>sv_store := store, sv_state := next\<rparr>, Ok ()))"

definition clear :: "'st save_op \<Rightarrow> 'st pairing_service \<Rightarrow> 'st pairing_service \<times> (store_error + bool)" where
  "clear save sv =
     (if client (sv_state sv) = None then (sv, Ok False)
      else
        (let next = \<lparr>server_id = server_id (sv_state sv), client = None\<rparr> in
         case commit save sv next of
           (sv, Inl e) \<Rightarrow> (sv, Err e)
         | (sv, Inr _) \<Rightarrow>
             (sv\<lparr>sv_identities := watch_send None (sv_identities sv),
                 sv_revocations := revoke (sv_revocations sv)\<rparr>, Ok True)))"

definition push_subscription_of :: "'st pairing_service \<Rightarrow> push_subscription option" where
  "push_subscription_of sv = (case client (sv_state sv) of None \<Rightarrow> None | Some c \<Rightarrow> client_push_subscription c)"

text \<open>\<open>random\<close> is what \<open>getrandom::fill\<close> produced, if it succeeded.\<close>

definition pair ::
  "'st save_op \<Rightarrow> (bytes \<Rightarrow> bytes) \<Rightarrow> 'st pairing_service \<Rightarrow> rstring \<Rightarrow> uuid \<Rightarrow> bytes option \<Rightarrow> nat \<Rightarrow>
     'st pairing_service \<times> (authorization_error + authorization)" where
  "pair save digest sv name new_id random now =
     (if client (sv_state sv) \<noteq> None then (sv, Err AlreadyPaired)
      else
        (case random of None \<Rightarrow> (sv, Err CredentialGeneration)
         | Some credential \<Rightarrow>
             (let next = \<lparr>server_id = server_id (sv_state sv),
                          client = Some \<lparr>client_id = new_id, credential_hash = digest credential, label = name,
                                         created_at = now, last_seen_at = None, client_push_subscription = None,
                                         client_identities = None\<rparr>\<rparr> in
              case commit save sv next of
                (sv, Inl e) \<Rightarrow> (sv, Err (Storage e))
              | (sv, Inr _) \<Rightarrow> (sv, Ok (Paired (server_id (sv_state sv)) new_id credential)))))"

definition authenticate ::
  "'st save_op \<Rightarrow> (bytes \<Rightarrow> bytes) \<Rightarrow> 'st pairing_service \<Rightarrow> uuid \<Rightarrow> bytes \<Rightarrow> nat \<Rightarrow>
     'st pairing_service \<times> (authorization_error + authorization)" where
  "authenticate save digest sv cid credential now =
     (case client (sv_state sv) of None \<Rightarrow> (sv, Err NotPaired)
      | Some c \<Rightarrow>
          if client_id c \<noteq> cid \<or> credential_hash c \<noteq> digest credential then (sv, Err Rejected)
          else
            (case commit save sv ((sv_state sv)\<lparr>client := Some (c\<lparr>last_seen_at := Some now\<rparr>)\<rparr>) of
               (sv, Inl e) \<Rightarrow> (sv, Err (Storage e))
             | (sv, Inr _) \<Rightarrow> (sv, Ok (Authenticated (server_id (sv_state sv)) cid))))"

definition set_push_subscription ::
  "'st save_op \<Rightarrow> 'st pairing_service \<Rightarrow> uuid \<Rightarrow> push_subscription \<Rightarrow>
     'st pairing_service \<times> (authorization_error + unit)" where
  "set_push_subscription save sv cid subscription =
     (case client (sv_state sv) of None \<Rightarrow> (sv, Err NotPaired)
      | Some c \<Rightarrow>
          if client_id c \<noteq> cid then (sv, Err Rejected)
          else
            (case commit save sv ((sv_state sv)\<lparr>client := Some (c\<lparr>client_push_subscription := Some subscription\<rparr>)\<rparr>) of
               (sv, Inl e) \<Rightarrow> (sv, Err (Storage e))
             | (sv, Inr _) \<Rightarrow> (sv, Ok ())))"

definition set_identities ::
  "('req, 'cred) ssh_lib \<Rightarrow> 'st save_op \<Rightarrow> 'st pairing_service \<Rightarrow> uuid \<Rightarrow> agent_identity list \<Rightarrow>
     'st pairing_service \<times> (authorization_error + unit)" where
  "set_identities lib save sv cid identities =
     (case validate_identities lib identities of Inl _ \<Rightarrow> (sv, Err AuthInvalidIdentities)
      | Inr _ \<Rightarrow>
     (case client (sv_state sv) of None \<Rightarrow> (sv, Err NotPaired)
      | Some c \<Rightarrow>
          if client_id c \<noteq> cid then (sv, Err Rejected)
          else
            (case commit save sv ((sv_state sv)\<lparr>client := Some (c\<lparr>client_identities := Some identities\<rparr>)\<rparr>) of
               (sv, Inl e) \<Rightarrow> (sv, Err (Storage e))
             | (sv, Inr _) \<Rightarrow>
                 (sv\<lparr>sv_identities := watch_send (Some identities) (sv_identities sv)\<rparr>, Ok ()))))"

text \<open>A subscriber has seen the versions so far.\<close>

definition subscribe_revocations :: "'st pairing_service \<Rightarrow> nat" where
  "subscribe_revocations sv = rv_version (sv_revocations sv)"

section \<open>The memory store\<close>

definition memory_load :: "pairing_state option \<Rightarrow> store_error + pairing_state option" where
  "memory_load store = Ok store"

definition memory_save :: "pairing_state option save_op" where
  "memory_save store state = (Some state, Ok ())"

section \<open>Calls\<close>

text \<open>
  The operations that a session or the control socket calls, one after the other under the
  mutex, each with what the environment of its \<open>save\<close> does.
\<close>

datatype 'env pairing_call =
    CallPair 'env rstring uuid "bytes option" nat
  | CallAuthenticate 'env uuid bytes nat
  | CallSetPush 'env uuid push_subscription
  | CallSetIdentities 'env uuid "agent_identity list"
  | CallClear 'env

datatype pairing_result =
    ResAuthorization "authorization_error + authorization"
  | ResUpdate "authorization_error + unit"
  | ResClear "store_error + bool"

fun service_call ::
  "('req, 'cred) ssh_lib \<Rightarrow> ('env \<Rightarrow> 'st save_op) \<Rightarrow> (bytes \<Rightarrow> bytes) \<Rightarrow> 'st pairing_service \<Rightarrow> 'env pairing_call \<Rightarrow>
     'st pairing_service \<times> pairing_result" where
  "service_call lib save digest sv (CallPair env name new_id random now) =
     map_prod id ResAuthorization (pair (save env) digest sv name new_id random now)"
| "service_call lib save digest sv (CallAuthenticate env cid credential now) =
     map_prod id ResAuthorization (authenticate (save env) digest sv cid credential now)"
| "service_call lib save digest sv (CallSetPush env cid subscription) =
     map_prod id ResUpdate (set_push_subscription (save env) sv cid subscription)"
| "service_call lib save digest sv (CallSetIdentities env cid identities) =
     map_prod id ResUpdate (set_identities lib (save env) sv cid identities)"
| "service_call lib save digest sv (CallClear env) = map_prod id ResClear (clear (save env) sv)"

inductive service_step ::
  "('req, 'cred) ssh_lib \<Rightarrow> ('env \<Rightarrow> 'st save_op) \<Rightarrow> (bytes \<Rightarrow> bytes) \<Rightarrow>
     'st pairing_service \<Rightarrow> 'env pairing_call \<times> pairing_result \<Rightarrow> 'st pairing_service \<Rightarrow> bool"
  for lib save digest where
  service_step: "service_call lib save digest sv call = (sv', r) \<Longrightarrow> service_step lib save digest sv (call, r) sv'"

inductive_cases service_stepE: "service_step lib save digest sv (call, r) sv'"

text \<open>
  Every call either leaves the service as it was, or tries one save: if it fails only the
  store may have changed, if it succeeds the state becomes the saved one.
\<close>

definition save_outcome :: "'st save_op \<Rightarrow> 'st pairing_service \<Rightarrow> 'st pairing_service \<Rightarrow> store_error option \<Rightarrow> bool" where
  "save_outcome save sv sv' failure \<longleftrightarrow>
     sv' = sv \<and> failure = None
     \<or> (\<exists>n store e. save (sv_store sv) n = (store, Err e) \<and> sv' = sv\<lparr>sv_store := store\<rparr>
          \<and> server_id n = server_id (sv_state sv) \<and> failure = Some e)
     \<or> (\<exists>n store. save (sv_store sv) n = (store, Ok ()) \<and> sv_store sv' = store \<and> sv_state sv' = n
          \<and> server_id n = server_id (sv_state sv) \<and> failure = None)"

fun storage_failure :: "pairing_result \<Rightarrow> store_error option" where
  "storage_failure (ResAuthorization (Inl (Storage e))) = Some e"
| "storage_failure (ResUpdate (Inl (Storage e))) = Some e"
| "storage_failure (ResClear (Inl e)) = Some e"
| "storage_failure _ = None"

lemma save_outcome_refl [simp]: "save_outcome save sv sv None"
  by (simp add: save_outcome_def)

lemma commit_outcome:
  assumes "server_id n = server_id (sv_state sv)"
  shows "commit save sv n = (sv', Inl e) \<Longrightarrow> save_outcome save sv sv' (Some e)"
    and "commit save sv n = (sv', Inr u) \<Longrightarrow> save_outcome save sv sv' None \<and> sv_state sv' = n"
    and "commit save sv n = (sv', Inr u) \<Longrightarrow> save_outcome save sv (sv'\<lparr>sv_identities := w, sv_revocations := g\<rparr>) None"
    and "commit save sv n = (sv', Inr u) \<Longrightarrow> save_outcome save sv (sv'\<lparr>sv_identities := w\<rparr>) None"
  using assms by (auto simp: commit_def save_outcome_def split: prod.splits sum.splits)

lemma pair_outcome:
  "pair save digest sv name new_id random now = (sv', r) \<Longrightarrow> save_outcome save sv sv' (storage_failure (ResAuthorization r))"
  by (auto simp: pair_def Let_def split: if_splits option.splits prod.splits sum.splits dest: commit_outcome(1,2) [rotated])

lemma authenticate_outcome:
  "authenticate save digest sv cid credential now = (sv', r) \<Longrightarrow> save_outcome save sv sv' (storage_failure (ResAuthorization r))"
  by (auto simp: authenticate_def split: if_splits option.splits prod.splits sum.splits dest: commit_outcome(1,2) [rotated])

lemma set_push_outcome:
  "set_push_subscription save sv cid subscription = (sv', r) \<Longrightarrow> save_outcome save sv sv' (storage_failure (ResUpdate r))"
  by (auto simp: set_push_subscription_def split: if_splits option.splits prod.splits sum.splits dest: commit_outcome(1,2) [rotated])

lemma set_identities_outcome:
  "set_identities lib save sv cid identities = (sv', r) \<Longrightarrow> save_outcome save sv sv' (storage_failure (ResUpdate r))"
  by (auto simp: set_identities_def split: if_splits option.splits prod.splits sum.splits dest: commit_outcome(1,4) [rotated])

lemma clear_outcome:
  "clear save sv = (sv', r) \<Longrightarrow> save_outcome save sv sv' (storage_failure (ResClear r))"
  by (auto simp: clear_def Let_def split: if_splits option.splits prod.splits sum.splits dest: commit_outcome(1,3) [rotated])

fun call_env :: "'env pairing_call \<Rightarrow> 'env" where
  "call_env (CallPair env _ _ _ _) = env"
| "call_env (CallAuthenticate env _ _ _) = env"
| "call_env (CallSetPush env _ _) = env"
| "call_env (CallSetIdentities env _ _) = env"
| "call_env (CallClear env) = env"

lemma service_call_outcome:
  "service_call lib save digest sv call = (sv', r) \<Longrightarrow> save_outcome (save (call_env call)) sv sv' (storage_failure r)"
  by (cases call) (auto simp: map_prod_def split: prod.splits
      dest: pair_outcome authenticate_outcome set_push_outcome set_identities_outcome clear_outcome)

lemma service_call_cases:
  assumes "service_call lib save digest sv call = (sv', r)"
  obtains (unchanged) "sv' = sv" and "storage_failure r = None"
  | (failed) env new_state store e where "save env (sv_store sv) new_state = (store, Err e)"
      and "sv' = sv\<lparr>sv_store := store\<rparr>" and "server_id new_state = server_id (sv_state sv)" and "storage_failure r = Some e"
  | (saved) env new_state store where "save env (sv_store sv) new_state = (store, Ok ())"
      and "sv_store sv' = store" and "sv_state sv' = new_state" and "server_id new_state = server_id (sv_state sv)"
      and "storage_failure r = None"
  using service_call_outcome [OF assms] unfolding save_outcome_def
  by (elim disjE exE conjE) (erule (1) that(1), erule (3) that(2), erule (4) that(3))

text \<open>The state that a call has the store save: the one it ends in if the save succeeds.\<close>

definition intended_state ::
  "('req, 'cred) ssh_lib \<Rightarrow> (bytes \<Rightarrow> bytes) \<Rightarrow> 'st pairing_service \<Rightarrow> 'env pairing_call \<Rightarrow> pairing_state" where
  "intended_state lib digest sv call = sv_state (fst (service_call lib (\<lambda>_ store _. (store, Ok ())) digest sv call))"

lemma service_call_failed:
  assumes "service_call lib save digest sv call = (sv', r)" and "storage_failure r = Some e"
  shows "\<exists>store. save (call_env call) (sv_store sv) (intended_state lib digest sv call) = (store, Err e) \<and> sv' = sv\<lparr>sv_store := store\<rparr>"
  using assms
  by (cases call)
    (auto simp: intended_state_def pair_def authenticate_def set_push_subscription_def set_identities_def clear_def commit_def Let_def
      split: if_splits option.splits sum.splits prod.splits)

definition service_inv :: "('req, 'cred) ssh_lib \<Rightarrow> 'st pairing_service \<Rightarrow> bool" where
  "service_inv lib sv \<longleftrightarrow>
     w_value (sv_identities sv) = state_identities (sv_state sv) \<and> w_sender_alive (sv_identities sv)
     \<and> (case w_value (sv_identities sv) of None \<Rightarrow> True | Some ids \<Rightarrow> validate_identities lib ids = Ok ())"

lemma service_call_inv:
  assumes "service_call lib save digest sv call = (sv', r)" and "service_inv lib sv"
  shows "service_inv lib sv'"
  using assms
  by (cases call)
    (auto simp: pair_def authenticate_def set_push_subscription_def set_identities_def clear_def commit_def Let_def
      service_inv_def state_identities_def watch_send_def
      split: if_splits option.splits sum.splits prod.splits)

interpretation service_runs: kept_by_steps "service_step lib save digest" "service_inv lib" for lib save digest
  by unfold_locales (auto elim!: service_step.cases dest: service_call_inv)

lemma open_with_inv: "open_with lib store state = Ok sv \<Longrightarrow> service_inv lib sv \<and> sv_state sv = state \<and> sv_store sv = store"
  by (auto simp: open_with_def Let_def service_inv_def split: option.splits sum.splits)

lemma service_open_cases:
  assumes "service_open lib load save store new_id = (store', Ok sv)"
  obtains (loaded) state where "load store = Ok (Some state)" and "store' = store" and "open_with lib store state = Ok sv"
  | (created) "load store = Ok None" and "save store (unpaired new_id) = (store', Ok ())"
      and "open_with lib store' (unpaired new_id) = Ok sv"
  using assms by (auto simp: service_open_def Let_def split: sum.splits option.splits prod.splits)

section \<open>The store interface\<close>

text \<open>
  What the policy relies on: \<open>content\<close> is what the store durably holds. A load that succeeds
  returns it; a save is atomic: if it reports success the store holds the new state, and if it
  fails the store holds the old or the new one.
\<close>

locale pairing_store =
  fixes load :: "'env \<Rightarrow> 'st \<Rightarrow> store_error + pairing_state option"
    and save :: "'env \<Rightarrow> 'st save_op"
    and content :: "'st \<Rightarrow> pairing_state option"
    and ok :: "'st \<Rightarrow> bool"
  assumes load_content: "ok st \<Longrightarrow> load env st = Ok x \<Longrightarrow> x = content st"
    and save_keeps_ok: "ok st \<Longrightarrow> save env st s = (st', res) \<Longrightarrow> ok st'"
    and save_Ok: "ok st \<Longrightarrow> save env st s = (st', Ok ()) \<Longrightarrow> content st' = Some s"
    and save_Err: "ok st \<Longrightarrow> save env st s = (st', Err e) \<Longrightarrow> content st' = content st \<or> content st' = Some s"
begin

text \<open>The store holds a state with this server's identity.\<close>

definition backed :: "'st pairing_service \<Rightarrow> bool" where
  "backed sv \<longleftrightarrow> ok (sv_store sv)
     \<and> (\<exists>s. content (sv_store sv) = Some s \<and> server_id s = server_id (sv_state sv))"

lemma open_backed:
  assumes "ok store" and "service_open lib (load env) (save env') store new_id = (store', Ok sv)"
  shows "backed sv \<and> content (sv_store sv) = Some (sv_state sv)"
  using assms(2)
proof (cases rule: service_open_cases)
  case (loaded state)
  then show ?thesis
    using load_content [OF assms(1) loaded(1), symmetric] open_with_inv [OF loaded(3)] assms(1)
    by (simp add: backed_def)
next
  case created
  then show ?thesis
    using save_Ok [OF assms(1) created(2)] save_keeps_ok [OF assms(1) created(2)] open_with_inv [OF created(3)]
    by (auto simp: backed_def)
qed

lemma call_backed:
  assumes "service_call lib save digest sv call = (sv', r)" and "backed sv"
  shows "backed sv' \<and> server_id (sv_state sv') = server_id (sv_state sv)
    \<and> (content (sv_store sv') = Some (sv_state sv') \<or> sv_state sv' = sv_state sv)"
  using assms(1)
proof (cases rule: service_call_cases)
  case unchanged
  then show ?thesis using assms(2) by simp
next
  case (failed env new_state store e)
  have ok: "ok (sv_store sv)" using assms(2) by (simp add: backed_def)
  from save_Err [OF ok failed(1)] save_keeps_ok [OF ok failed(1)] show ?thesis
    using assms(2) failed by (auto simp: backed_def)
next
  case (saved env new_state store)
  have ok: "ok (sv_store sv)" using assms(2) by (simp add: backed_def)
  from save_Ok [OF ok saved(1)] save_keeps_ok [OF ok saved(1)] show ?thesis
    using saved by (auto simp: backed_def)
qed

lemma call_durable:
  assumes "service_call lib save digest sv call = (sv', r)" and "backed sv"
    and "content (sv_store sv) = Some (sv_state sv)"
    and "storage_failure r = None"
  shows "content (sv_store sv') = Some (sv_state sv')"
  using assms(1)
proof (cases rule: service_call_cases)
  case (failed env new_state store e)
  then show ?thesis using assms(4) by auto
next
  case (saved env new_state store)
  have ok: "ok (sv_store sv)" using assms(2) by (simp add: backed_def)
  from save_Ok [OF ok saved(1)] saved show ?thesis by simp
qed (use assms(3) in simp)

lemma runs_durable:
  assumes "runs (service_step lib save digest) sv ls sv'" and "backed sv" and "content (sv_store sv) = Some (sv_state sv)"
    and "\<forall>l \<in> set ls. storage_failure (snd l) = None"
  shows "backed sv' \<and> content (sv_store sv') = Some (sv_state sv')"
  using assms
proof (induction rule: runs.induct)
  case (runs_Cons s l t ls u)
  obtain call r where l: "l = (call, r)" by (cases l)
  have run: "service_call lib save digest s call = (t, r)" using runs_Cons.hyps(1) unfolding l by (auto elim: service_stepE)
  have "backed t" "content (sv_store t) = Some (sv_state t)"
    using call_backed [OF run runs_Cons.prems(1)] call_durable [OF run runs_Cons.prems(1,2)] runs_Cons.prems(3) l by auto
  with runs_Cons.IH runs_Cons.prems(3) show ?case by simp
qed simp

lemma reopen:
  assumes "ok (sv_store sv)" and "content (sv_store sv) = Some (sv_state sv)" and "service_inv lib sv"
    and "load env (sv_store sv) = Ok x"
  shows "\<exists>sv'. service_open lib (load env) (save env') (sv_store sv) new_id = (sv_store sv, Ok sv')
    \<and> sv_state sv' = sv_state sv \<and> w_value (sv_identities sv') = w_value (sv_identities sv)"
proof -
  have "load env (sv_store sv) = Ok (Some (sv_state sv))" using load_content [OF assms(1,4)] assms(2,4) by simp
  then show ?thesis
    using assms(3) by (auto simp: service_open_def open_with_def Let_def service_inv_def split: option.splits)
qed

end

text \<open>
  A store whose file can be read back: what a successful load has accepted stays acceptable
  under every save, and is loaded again as long as the environment lets it be read.
\<close>

locale reloadable_store = pairing_store load save content ok
  for load :: "'env \<Rightarrow> 'st \<Rightarrow> store_error + pairing_state option"
    and save :: "'env \<Rightarrow> 'st save_op"
    and content :: "'st \<Rightarrow> pairing_state option"
    and ok :: "'st \<Rightarrow> bool" +
  fixes acceptable :: "'st \<Rightarrow> bool"
    and readable :: "'env \<Rightarrow> bool"
  assumes load_acceptable: "ok st \<Longrightarrow> load env st = Ok x \<Longrightarrow> acceptable st"
    and save_acceptable: "ok st \<Longrightarrow> acceptable st \<Longrightarrow> save env st s = (st', res) \<Longrightarrow> acceptable st'"
    and load_again: "ok st \<Longrightarrow> acceptable st \<Longrightarrow> content st = Some s \<Longrightarrow> readable env \<Longrightarrow> load env st = Ok (Some s)"
begin

lemma open_acceptable:
  assumes "ok store" and "service_open lib (load env) (save env') store new_id = (store', Ok sv)"
  shows "acceptable (sv_store sv)"
  using assms(2)
proof (cases rule: service_open_cases)
  case (loaded state)
  then show ?thesis using load_acceptable [OF assms(1) loaded(1)] open_with_inv [OF loaded(3)] by simp
next
  case created
  have "acceptable store" using load_acceptable [OF assms(1) created(1)] .
  from save_acceptable [OF assms(1) this created(2)] show ?thesis using open_with_inv [OF created(3)] by simp
qed

lemma call_acceptable:
  assumes "service_call lib save digest sv call = (sv', r)" and "ok (sv_store sv)" and "acceptable (sv_store sv)"
  shows "ok (sv_store sv') \<and> acceptable (sv_store sv')"
  using assms(1)
proof (cases rule: service_call_cases)
  case (failed env new_state store e)
  then show ?thesis using save_keeps_ok [OF assms(2) failed(1)] save_acceptable [OF assms(2,3) failed(1)] by simp
next
  case (saved env new_state store)
  then show ?thesis using save_keeps_ok [OF assms(2) saved(1)] save_acceptable [OF assms(2,3) saved(1)] by simp
qed (use assms(2,3) in simp)

lemma runs_acceptable:
  assumes "runs (service_step lib save digest) sv ls sv'" and "ok (sv_store sv)" and "acceptable (sv_store sv)"
  shows "acceptable (sv_store sv')"
  using assms
proof (induction rule: runs.induct)
  case (runs_Cons s l t ls u)
  obtain call r where l: "l = (call, r)" by (cases l)
  have "service_call lib save digest s call = (t, r)" using runs_Cons.hyps(1) unfolding l by (auto elim: service_stepE)
  from call_acceptable [OF this runs_Cons.prems] runs_Cons.IH show ?case by simp
qed simp

end

interpretation memory_store: pairing_store "\<lambda>_ :: unit. memory_load" "\<lambda>_ :: unit. memory_save" "\<lambda>store. store" "\<lambda>_. True"
  by unfold_locales (auto simp: memory_load_def memory_save_def)

interpretation memory_store: reloadable_store "\<lambda>_ :: unit. memory_load" "\<lambda>_ :: unit. memory_save" "\<lambda>store. store" "\<lambda>_. True"
    "\<lambda>_. True" "\<lambda>_. True"
  by unfold_locales (auto simp: memory_load_def)

end
