(* ===== verification/File_Store.thy ===== *)
theory File_Store
  imports Pairing
begin

unbundle bit_operations_syntax

text \<open>
  \<open>remote/pairing/file.rs\<close>: the pairing state as a JSON file that is replaced atomically. The
  file system is a finite map from a directory and a name to an entry; every system call
  may fail, as the environment of the operation says. \<open>serde_json\<close> is third-party: its
  encoder and decoder are part of the store record, and \<open>file_ok\<close> states the round trip
  that the code relies on.
\<close>

section \<open>Data\<close>

record stored_state =
  version :: nat
  stored_server_id :: uuid
  stored_client :: "paired_client option"

definition STATE_VERSION :: nat where "STATE_VERSION = 1"

text \<open>\<open>0o600\<close>.\<close>

definition STATE_MODE :: "32 word" where "STATE_MODE = 0x180"

record json_lib =
  json_encode :: "stored_state \<Rightarrow> bytes option"
  json_decode :: "bytes \<Rightarrow> stored_state option"

record file_entry =
  fe_bytes :: bytes
  fe_mode :: "32 word"

type_synonym file_key = "rstring \<times> rstring"

text \<open>
  The path of the store as the code takes it apart: its parent directory, if it has a
  non-empty one, and its file name, if it has one.
\<close>

record file_store =
  path_parent :: "rstring option"
  path_name :: "rstring option"
  fs_files :: "(file_key, file_entry) hashmap"
  fs_json :: json_lib

definition path_key :: "file_store \<Rightarrow> file_key" where
  "path_key st = (case path_parent st of None \<Rightarrow> [] | Some p \<Rightarrow> p, case path_name st of None \<Rightarrow> [] | Some n \<Rightarrow> n)"

text \<open>The system calls, and the environment that decides them.\<close>

datatype io_call =
    IoRead | IoMetadata | IoCreateDirAll | IoOpenTemporary | IoWrite | IoWriteNewline | IoSyncFile
  | IoRename | IoOpenParent | IoSyncParent | IoRemove

record io_env =
  io_fails :: "io_call \<Rightarrow> bool"
  io_written :: nat
  io_unique :: rstring
  io_umask :: "32 word"

section \<open>Operations\<close>

definition to_stored :: "pairing_state \<Rightarrow> stored_state" where
  "to_stored state =
     \<lparr>version = STATE_VERSION, stored_server_id = server_id state, stored_client = client state\<rparr>"

definition from_stored :: "stored_state \<Rightarrow> store_error + pairing_state" where
  "from_stored state =
     (if version state \<noteq> STATE_VERSION then Err (UnsupportedStateVersion (version state))
      else Ok \<lparr>server_id = stored_server_id state, client = stored_client state\<rparr>)"

definition file_load :: "io_env \<Rightarrow> file_store \<Rightarrow> store_error + pairing_state option" where
  "file_load env st =
     (case hm_get (fs_files st) (path_key st) of
        None \<Rightarrow> if io_fails env IoRead then Err CouldNotRead else Ok None
      | Some entry \<Rightarrow>
          if io_fails env IoRead then Err CouldNotRead
          else if io_fails env IoMetadata then Err CouldNotInspect
          else if fe_mode entry AND 0x3F \<noteq> 0 then Err WrongMode
          else (case json_decode (fs_json st) (fe_bytes entry) of None \<Rightarrow> Err CouldNotDecode
                | Some state \<Rightarrow> (case from_stored state of Inl e \<Rightarrow> Err e | Inr s \<Rightarrow> Ok (Some s))))"

text \<open>
  \<open>write_and_replace\<close>. A write that fails may have put a prefix into the temporary file; its
  mode is the requested one less the process's umask.
\<close>

definition write_and_replace ::
  "io_env \<Rightarrow> file_key \<Rightarrow> file_store \<Rightarrow> pairing_state \<Rightarrow> file_store \<times> (store_error + unit)" where
  "write_and_replace env temporary st state =
     (case json_encode (fs_json st) (to_stored state) of None \<Rightarrow> (st, Err CouldNotEncode)
      | Some bs \<Rightarrow>
          (let mode = STATE_MODE AND NOT (io_umask env);
               put = (\<lambda>content. st\<lparr>fs_files := hm_insert temporary \<lparr>fe_bytes = content, fe_mode = mode\<rparr> (fs_files st)\<rparr>);
               full = \<lparr>fe_bytes = bs @ [10], fe_mode = mode\<rparr>;
               replaced = st\<lparr>fs_files := hm_insert (path_key st) full (hm_remove temporary (fs_files st))\<rparr>
           in if hm_get (fs_files st) temporary \<noteq> None \<or> io_fails env IoOpenTemporary then (st, Err CouldNotCreateTemporary)
              else if io_fails env IoWrite then (put (take (io_written env) bs), Err CouldNotWrite)
              else if io_fails env IoWriteNewline then (put bs, Err CouldNotFinish)
              else if io_fails env IoSyncFile then (put (bs @ [10]), Err CouldNotSync)
              else if io_fails env IoRename then (put (bs @ [10]), Err CouldNotReplace)
              else if io_fails env IoOpenParent \<or> io_fails env IoSyncParent then (replaced, Err CouldNotSyncParent)
              else (replaced, Ok ())))"

text \<open>\<open>format!(".{name}.{}.tmp", Uuid::new_v4())\<close>.\<close>

definition temporary_name :: "rstring \<Rightarrow> rstring \<Rightarrow> rstring" where
  "temporary_name name unique = [46] @ name @ [46] @ unique @ [46, 116, 109, 112]"

definition file_save :: "io_env \<Rightarrow> file_store save_op" where
  "file_save env st state =
     (case path_parent st of None \<Rightarrow> (st, Err NoParentDirectory)
      | Some parent \<Rightarrow>
          if io_fails env IoCreateDirAll then (st, Err CouldNotCreateDirectory)
          else (case path_name st of None \<Rightarrow> (st, Err NoFileName)
                | Some name \<Rightarrow>
                    (let temporary = (parent, temporary_name (utf8_lossy name) (io_unique env)) in
                     case write_and_replace env temporary st state of
                       (st, Inl e) \<Rightarrow>
                         (if io_fails env IoRemove then st
                          else st\<lparr>fs_files := hm_remove temporary (fs_files st)\<rparr>, Err e)
                     | (st, Inr _) \<Rightarrow> (st, Ok ()))))"

section \<open>The store contract\<close>

definition file_ok :: "file_store \<Rightarrow> bool" where
  "file_ok st \<longleftrightarrow>
     (\<forall>s bs. json_encode (fs_json st) s = Some bs \<longrightarrow> json_decode (fs_json st) (bs @ [10]) = Some s)
     \<and> (\<forall>name. path_name st = Some name \<longrightarrow> utf8_valid name)"

definition file_content :: "file_store \<Rightarrow> pairing_state option" where
  "file_content st =
     (case hm_get (fs_files st) (path_key st) of None \<Rightarrow> None
      | Some entry \<Rightarrow>
          (case json_decode (fs_json st) (fe_bytes entry) of None \<Rightarrow> None
           | Some state \<Rightarrow> (case from_stored state of Inl _ \<Rightarrow> None | Inr s \<Rightarrow> Some s)))"

lemma from_to_stored [simp]: "from_stored (to_stored s) = Ok s"
  by (simp add: from_stored_def to_stored_def)

lemma temporary_differs: "temporary_name name unique \<noteq> name"
  by (auto simp: temporary_name_def dest: arg_cong [where f = length])

lemma write_frame:
  "write_and_replace env temporary st s = (st', r) \<Longrightarrow>
     path_parent st' = path_parent st \<and> path_name st' = path_name st \<and> fs_json st' = fs_json st"
  by (auto simp: write_and_replace_def Let_def split: option.splits if_splits)

lemma file_save_frame:
  "file_save env st s = (st', r) \<Longrightarrow>
     path_parent st' = path_parent st \<and> path_name st' = path_name st \<and> fs_json st' = fs_json st"
  by (auto simp: file_save_def Let_def split: option.splits if_splits prod.splits sum.splits dest!: write_frame)

lemma file_content_cong:
  assumes "path_parent st' = path_parent st" and "path_name st' = path_name st" and "fs_json st' = fs_json st"
    and "hm_get (fs_files st') (path_key st) = hm_get (fs_files st) (path_key st)"
  shows "file_content st' = file_content st"
  using assms by (simp add: file_content_def path_key_def cong: option.case_cong)

text \<open>What the file at the path of the store is after each outcome.\<close>

lemma write_outcome:
  assumes "write_and_replace env temporary st s = (st', r)" and "temporary \<noteq> path_key st"
  shows "(\<exists>e. r = Err e) \<and> hm_get (fs_files st') (path_key st) = hm_get (fs_files st) (path_key st)
    \<or> (\<exists>bs. json_encode (fs_json st) (to_stored s) = Some bs
        \<and> hm_get (fs_files st') (path_key st) = Some \<lparr>fe_bytes = bs @ [10], fe_mode = STATE_MODE AND NOT (io_umask env)\<rparr>)"
  using assms by (auto simp: write_and_replace_def Let_def hm_simps split: option.splits if_splits)

lemma file_save_outcome:
  assumes "file_ok st" and "file_save env st s = (st', r)"
  shows "(\<exists>e. r = Err e) \<and> hm_get (fs_files st') (path_key st) = hm_get (fs_files st) (path_key st)
    \<or> (\<exists>bs. json_encode (fs_json st) (to_stored s) = Some bs
        \<and> hm_get (fs_files st') (path_key st) = Some \<lparr>fe_bytes = bs @ [10], fe_mode = STATE_MODE AND NOT (io_umask env)\<rparr>)"
proof (cases "path_parent st = None \<or> path_name st = None \<or> io_fails env IoCreateDirAll")
  case True
  then show ?thesis using assms(2) by (auto simp: file_save_def split: option.splits if_splits)
next
  case False
  then obtain parent name where p: "path_parent st = Some parent" "path_name st = Some name"
    and dir: "\<not> io_fails env IoCreateDirAll" by auto
  let ?t = "(parent, temporary_name (utf8_lossy name) (io_unique env))"
  obtain st1 r1 where w: "write_and_replace env ?t st s = (st1, r1)" by (cases "write_and_replace env ?t st s")
  have "utf8_lossy name = name" using assms(1) p(2) by (simp add: file_ok_def utf8_lossy_valid)
  then have ne: "?t \<noteq> path_key st" using p temporary_differs by (simp add: path_key_def)
  then have "hm_get (fs_files st') (path_key st) = hm_get (fs_files st1) (path_key st) \<and> r = r1"
    using assms(2) p dir w by (auto simp: file_save_def Let_def hm_simps split: sum.splits if_splits)
  with write_outcome [OF w ne] show ?thesis by simp
qed

lemma file_save_content:
  assumes "file_ok st" and "file_save env st s = (st', r)"
  shows "(\<exists>e. r = Err e) \<and> file_content st' = file_content st \<or> file_content st' = Some s"
proof -
  note frame = file_save_frame [OF assms(2)]
  have key: "path_key st' = path_key st" using frame by (simp add: path_key_def)
  from file_save_outcome [OF assms] show ?thesis
  proof (elim disjE exE conjE)
    fix bs assume "json_encode (fs_json st) (to_stored s) = Some bs"
      and "hm_get (fs_files st') (path_key st) = Some \<lparr>fe_bytes = bs @ [10], fe_mode = STATE_MODE AND NOT (io_umask env)\<rparr>"
    then have "file_content st' = Some s"
      using assms(1) frame key by (simp add: file_content_def file_ok_def)
    then show ?thesis ..
  next
    fix e assume "r = Err e" and "hm_get (fs_files st') (path_key st) = hm_get (fs_files st) (path_key st)"
    then show ?thesis using file_content_cong [of st' st] frame by simp
  qed
qed

interpretation file_store: pairing_store file_load file_save file_content file_ok
proof
  fix st env x assume "file_ok st" and "file_load env st = Ok x"
  then show "x = file_content st"
    by (auto simp: file_load_def file_content_def split: option.splits if_splits sum.splits)
next
  fix st env s st' res assume "file_ok st" and "file_save env st s = (st', res)"
  then show "file_ok st'" using file_save_frame [of env st s st' res] by (simp add: file_ok_def)
next
  fix st env s st' assume "file_ok st" and "file_save env st s = (st', Ok ())"
  then show "file_content st' = Some s" using file_save_content [of st env s st' "Ok ()"] by simp
next
  fix st env s st' e assume "file_ok st" and "file_save env st s = (st', Err e)"
  then show "file_content st' = file_content st \<or> file_content st' = Some s"
    using file_save_content [of st env s st' "Err e"] by auto
qed

lemma mode_private: "(STATE_MODE AND NOT umask) AND 0x3F = 0"
proof -
  have "(STATE_MODE AND NOT umask) AND 0x3F = (STATE_MODE AND 0x3F) AND NOT umask"
    by (simp only: ac_simps)
  then show ?thesis by (simp add: STATE_MODE_def)
qed

text \<open>Nobody but the owner may use the file; every save keeps it so, and \<open>load\<close> insists on it.\<close>

definition file_private :: "file_store \<Rightarrow> bool" where
  "file_private st \<longleftrightarrow> (\<forall>entry. hm_get (fs_files st) (path_key st) = Some entry \<longrightarrow> fe_mode entry AND 0x3F = 0)"

definition file_readable :: "io_env \<Rightarrow> bool" where
  "file_readable env \<longleftrightarrow> \<not> io_fails env IoRead \<and> \<not> io_fails env IoMetadata"

interpretation file_store: reloadable_store file_load file_save file_content file_ok file_private file_readable
proof
  fix st env x assume "file_load env st = Ok x"
  then show "file_private st" by (auto simp: file_load_def file_private_def split: option.splits if_splits)
next
  fix st env s st' res assume ok: "file_ok st" and p: "file_private st" and save: "file_save env st s = (st', res)"
  have "path_key st' = path_key st" using file_save_frame [OF save] by (simp add: path_key_def)
  then show "file_private st'"
    using file_save_outcome [OF ok save] p mode_private by (auto simp: file_private_def)
next
  fix st s env assume "file_private st" and "file_content st = Some s" and "file_readable env"
  then show "file_load env st = Ok (Some s)"
    by (auto simp: file_load_def file_private_def file_content_def file_readable_def split: option.splits sum.splits)
qed

text \<open>Only a failure after the rename can leave the new state behind.\<close>

lemma write_Err_content:
  assumes "write_and_replace env temporary st s = (st', Err e)" and "temporary \<noteq> path_key st" and "e \<noteq> CouldNotSyncParent"
  shows "hm_get (fs_files st') (path_key st) = hm_get (fs_files st) (path_key st)"
  using assms by (auto simp: write_and_replace_def Let_def hm_simps split: option.splits if_splits)

lemma file_save_Err_entry:
  assumes "file_ok st" and "file_save env st s = (st', Err e)" and "e \<noteq> CouldNotSyncParent"
  shows "hm_get (fs_files st') (path_key st) = hm_get (fs_files st) (path_key st)"
proof (cases "path_parent st = None \<or> path_name st = None \<or> io_fails env IoCreateDirAll")
  case True
  then show ?thesis using assms(2) by (auto simp: file_save_def split: option.splits if_splits)
next
  case False
  then obtain parent name where p: "path_parent st = Some parent" "path_name st = Some name"
    and dir: "\<not> io_fails env IoCreateDirAll" by auto
  let ?t = "(parent, temporary_name (utf8_lossy name) (io_unique env))"
  have "utf8_lossy name = name" using assms(1) p(2) by (simp add: file_ok_def utf8_lossy_valid)
  then have ne: "?t \<noteq> path_key st" using p temporary_differs by (simp add: path_key_def)
  from assms(2) p dir obtain st1 where w: "write_and_replace env ?t st s = (st1, Err e)"
    and st': "st' = (if io_fails env IoRemove then st1 else st1\<lparr>fs_files := hm_remove ?t (fs_files st1)\<rparr>)"
    by (auto simp: file_save_def Let_def split: prod.splits sum.splits)
  show ?thesis using write_Err_content [OF w ne assms(3)] ne by (simp add: st' hm_simps)
qed

lemma file_save_sync_parent:
  assumes "file_ok st" and "file_save env st s = (st', Err CouldNotSyncParent)"
  shows "file_content st' = Some s \<and> file_private st'"
proof -
  from assms(2) obtain parent name where p: "path_parent st = Some parent" "path_name st = Some name"
    and dir: "\<not> io_fails env IoCreateDirAll"
    by (auto simp: file_save_def split: option.splits if_splits)
  let ?t = "(parent, temporary_name (utf8_lossy name) (io_unique env))"
  have "utf8_lossy name = name" using assms(1) p(2) by (simp add: file_ok_def utf8_lossy_valid)
  then have ne: "?t \<noteq> path_key st" using p temporary_differs by (simp add: path_key_def)
  from assms(2) p dir obtain st1 where w: "write_and_replace env ?t st s = (st1, Err CouldNotSyncParent)"
    and st': "st' = (if io_fails env IoRemove then st1 else st1\<lparr>fs_files := hm_remove ?t (fs_files st1)\<rparr>)"
    by (auto simp: file_save_def Let_def split: prod.splits sum.splits)
  from w obtain bs where enc: "json_encode (fs_json st) (to_stored s) = Some bs"
    and st1: "st1 = st\<lparr>fs_files := hm_insert (path_key st) \<lparr>fe_bytes = bs @ [10], fe_mode = STATE_MODE AND NOT (io_umask env)\<rparr>
        (hm_remove ?t (fs_files st))\<rparr>"
    by (auto simp: write_and_replace_def Let_def split: option.splits if_splits)
  have "hm_get (fs_files st') (path_key st) = Some \<lparr>fe_bytes = bs @ [10], fe_mode = STATE_MODE AND NOT (io_umask env)\<rparr>"
    using ne by (simp add: st' st1 hm_simps)
  moreover have "path_key st' = path_key st" "fs_json st' = fs_json st"
    using file_save_frame [OF assms(2)] by (simp_all add: path_key_def)
  ultimately show ?thesis using assms(1) enc mode_private by (simp add: file_content_def file_ok_def file_private_def)
qed

end
