(* ===== verification/Pairing_Props.thy ===== *)
theory Pairing_Props
  imports File_Store
begin

text \<open>
  The properties of pairing: one client at a time, recognised by its credential until the
  pairing is cleared, with a state that survives a restart.
\<close>

section \<open>What calls do to the paired client\<close>

definition pair_succeeds :: "'env pairing_call \<times> pairing_result \<Rightarrow> bool" where
  "pair_succeeds l \<longleftrightarrow> (case l of (CallPair _ _ _ _ _, ResAuthorization (Inr (Paired _ _ _))) \<Rightarrow> True | _ \<Rightarrow> False)"

definition clear_succeeds :: "'env pairing_call \<times> pairing_result \<Rightarrow> bool" where
  "clear_succeeds l \<longleftrightarrow> (case l of (CallClear _, ResClear (Inr True)) \<Rightarrow> True | _ \<Rightarrow> False)"

text \<open>The identity of a pairing: who may authenticate, and with what.\<close>

definition pairing_key :: "'st pairing_service \<Rightarrow> (uuid \<times> bytes) option" where
  "pairing_key sv = map_option (\<lambda>c. (client_id c, credential_hash c)) (client (sv_state sv))"

lemma commit_state:
  "commit save sv n = (sv', Inl e) \<Longrightarrow> sv_state sv' = sv_state sv"
  "commit save sv n = (sv', Inr u) \<Longrightarrow> sv_state sv' = n"
  by (auto simp: commit_def split: prod.splits sum.splits)

lemma pair_key:
  assumes "pair save digest sv name new_id random now = (sv', r)"
  shows "(\<exists>e. r = Err e) \<and> pairing_key sv' = pairing_key sv
    \<or> (\<exists>credential. r = Ok (Paired (server_id (sv_state sv)) new_id credential) \<and> pairing_key sv = None
        \<and> random = Some credential \<and> pairing_key sv' = Some (new_id, digest credential))"
  using assms
  by (auto simp: pair_def pairing_key_def Let_def split: if_splits option.splits prod.splits sum.splits dest: commit_state)

lemma authenticate_key:
  "authenticate save digest sv cid credential now = (sv', r) \<Longrightarrow> pairing_key sv' = pairing_key sv"
  by (auto simp: authenticate_def pairing_key_def split: if_splits option.splits prod.splits sum.splits dest: commit_state)

lemma update_key:
  "set_push_subscription save sv cid subscription = (sv', x) \<Longrightarrow> pairing_key sv' = pairing_key sv"
  "set_identities lib save sv cid identities = (sv', x) \<Longrightarrow> pairing_key sv' = pairing_key sv"
  by (auto simp: set_push_subscription_def set_identities_def pairing_key_def
      split: if_splits option.splits prod.splits sum.splits dest: commit_state)

lemma clear_key:
  "clear save sv = (sv', x) \<Longrightarrow> (if x = Ok True then pairing_key sv' = None else pairing_key sv' = pairing_key sv)"
  by (auto simp: clear_def pairing_key_def Let_def split: if_splits prod.splits sum.splits dest: commit_state)

text \<open>The key changes only by a successful pairing, from none, or by a successful clear.\<close>

lemma step_key:
  assumes "service_step lib save digest sv l sv'"
  shows "pair_succeeds l \<Longrightarrow> pairing_key sv = None \<and> pairing_key sv' \<noteq> None"
    and "clear_succeeds l \<Longrightarrow> pairing_key sv' = None"
    and "\<not> pair_succeeds l \<Longrightarrow> \<not> clear_succeeds l \<Longrightarrow> pairing_key sv' = pairing_key sv"
proof -
  obtain call r where l: "l = (call, r)" by (cases l)
  have run: "service_call lib save digest sv call = (sv', r)" using assms unfolding l by (auto elim: service_stepE)
  show "pair_succeeds l \<Longrightarrow> pairing_key sv = None \<and> pairing_key sv' \<noteq> None"
    using run by (auto simp: l pair_succeeds_def map_prod_def split: pairing_call.splits pairing_result.splits sum.splits
        authorization.splits prod.splits dest: pair_key)
  show "clear_succeeds l \<Longrightarrow> pairing_key sv' = None"
    using run by (auto simp: l clear_succeeds_def map_prod_def split: pairing_call.splits pairing_result.splits sum.splits
        bool.splits prod.splits dest: clear_key)
  show "\<not> pair_succeeds l \<Longrightarrow> \<not> clear_succeeds l \<Longrightarrow> pairing_key sv' = pairing_key sv"
    using run
    by (cases call) (auto simp: l pair_succeeds_def clear_succeeds_def map_prod_def split: prod.splits bool.splits
        dest!: pair_key clear_key authenticate_key update_key split: if_splits)
qed

lemma run_key:
  assumes "runs (service_step lib save digest) sv ls sv'" and "pairing_key sv \<noteq> None" and "\<not> list_ex clear_succeeds ls"
  shows "pairing_key sv' = pairing_key sv \<and> \<not> list_ex pair_succeeds ls"
  using assms
proof (induction rule: runs.induct)
  case (runs_Cons s l t ls u)
  have "\<not> pair_succeeds l" using step_key(1) [OF runs_Cons.hyps(1)] runs_Cons.prems(1) by blast
  moreover have "\<not> clear_succeeds l" using runs_Cons.prems(2) by simp
  ultimately have "pairing_key t = pairing_key s" using step_key(3) [OF runs_Cons.hyps(1)] by blast
  with runs_Cons \<open>\<not> pair_succeeds l\<close> show ?case by simp
qed simp

section \<open>Example services\<close>

text \<open>A fresh server with a memory store, then paired with the credential \<open>[7, 7]\<close>.\<close>

definition ex_fresh :: "pairing_state option pairing_service" where
  "ex_fresh = \<lparr>sv_store = Some (unpaired 1), sv_state = unpaired 1, sv_revocations = \<lparr>rv_generation = 0, rv_version = 0\<rparr>,
     sv_identities = \<lparr>w_value = None, w_version = 0, w_sender_alive = True\<rparr>\<rparr>"

definition ex_paired_state :: pairing_state where
  "ex_paired_state = \<lparr>server_id = 1, client = Some \<lparr>client_id = 2, credential_hash = rev [7, 8], label = [65],
     created_at = 10, last_seen_at = None, client_push_subscription = None, client_identities = None\<rparr>\<rparr>"

abbreviation ex_paired :: "pairing_state option pairing_service" where
  "ex_paired \<equiv> ex_fresh\<lparr>sv_store := Some ex_paired_state, sv_state := ex_paired_state\<rparr>"

abbreviation ex_pair_label :: "unit pairing_call \<times> pairing_result" where
  "ex_pair_label \<equiv> (CallPair () [65] 2 (Some [7, 8]) 10, ResAuthorization (Ok (Paired 1 2 [7, 8])))"

lemma ex_pair_step: "service_step ex_ssh_lib (\<lambda>_. memory_save) rev ex_fresh ex_pair_label ex_paired"
  by (rule service_step) (simp add: pair_def commit_def memory_save_def Let_def ex_fresh_def ex_paired_state_def unpaired_def)

lemma ex_pair_run: "runs (service_step ex_ssh_lib (\<lambda>_. memory_save) rev) ex_fresh [ex_pair_label] ex_paired"
  by (rule runs_Cons, rule ex_pair_step, rule runs_Nil)

section \<open>Properties\<close>

text \<open>
  C25: the pairing slot is claimed at most once. Whatever calls are made, in whatever order and
  with whatever storage failures, between two successful pairings there is a successful
  clear.
\<close>

theorem pairing_claimed_once:
  assumes "runs (service_step lib save digest) sv (xs @ [first] @ ys @ [second]) sv'"
    and "pair_succeeds first" and "pair_succeeds second"
  shows "\<exists>l \<in> set ys. clear_succeeds l"
proof (rule ccontr)
  assume "\<not> (\<exists>l \<in> set ys. clear_succeeds l)"
  then have none: "\<not> list_ex clear_succeeds ys" by (simp add: list_ex_iff)
  obtain a b c where "service_step lib save digest a first b" "runs (service_step lib save digest) b ys c"
    "\<exists>d. service_step lib save digest c second d"
    using assms(1) by (auto simp: runs_append runs_Cons_iff)
  with run_key [OF _ _ none, of lib save digest b c] step_key(1) assms(2,3) show False by metis
qed

theorem pairing_claimed_once_witness:
  "\<exists>l \<in> set [(CallClear (), ResClear (Ok True)) :: unit pairing_call \<times> pairing_result]. clear_succeeds l"
proof -
  let ?c = "(CallClear (), ResClear (Ok True)) :: unit pairing_call \<times> pairing_result"
  let ?sv = "ex_fresh\<lparr>sv_identities := \<lparr>w_value = None, w_version = 1, w_sender_alive = True\<rparr>, sv_revocations := \<lparr>rv_generation = 1, rv_version = 1\<rparr>\<rparr>"
  have c: "service_step ex_ssh_lib (\<lambda>_. memory_save) rev ex_paired ?c ?sv"
    by (rule service_step)
      (simp add: clear_def commit_def memory_save_def Let_def watch_send_def revoke_def wrap_u64_def ex_fresh_def ex_paired_state_def unpaired_def)
  have p: "\<exists>t. service_step ex_ssh_lib (\<lambda>_. memory_save) rev ?sv ex_pair_label t"
    by (rule exI, rule service_step) (simp add: pair_def commit_def memory_save_def Let_def ex_fresh_def unpaired_def)
  then obtain t where "runs (service_step ex_ssh_lib (\<lambda>_. memory_save) rev) ex_fresh ([] @ [ex_pair_label] @ [?c] @ [ex_pair_label]) t"
    using ex_pair_step c by (auto simp: runs_Cons_iff)
  from pairing_claimed_once [OF this] show ?thesis by (simp add: pair_succeeds_def)
qed

text \<open>
  Exactly the paired client is recognised. After a successful pairing and until a clear
  succeeds, an authentication is accepted (or fails only in storage) if it presents the
  identifier and a credential with the same hash as the one handed out, and it is refused
  without any change otherwise.
\<close>

lemma pairing_recognises_client:
  assumes "service_call lib save digest sv0 (CallPair env name new_id random t0) = (sv1, ResAuthorization (Ok (Paired sid cid credential)))"
    and "runs (service_step lib save digest) sv1 ls sv" and "\<not> list_ex clear_succeeds ls"
  shows "if cid' = cid \<and> digest credential' = digest credential
    then \<exists>sv' r. authenticate (save env') digest sv cid' credential' now = (sv', r)
      \<and> (r = Ok (Authenticated (server_id (sv_state sv)) cid) \<or> (\<exists>e. r = Err (Storage e)))
    else authenticate (save env') digest sv cid' credential' now = (sv, Err Rejected)"
proof -
  have "pair (save env) digest sv0 name new_id random t0 = (sv1, Ok (Paired sid cid credential))"
    using assms(1) by (auto simp: map_prod_def split: prod.splits)
  from pair_key [OF this] have "pairing_key sv1 = Some (cid, digest credential)" by auto
  with run_key [OF assms(2) _ assms(3)] obtain c where c: "client (sv_state sv) = Some c"
    and k: "client_id c = cid" "credential_hash c = digest credential" by (auto simp: pairing_key_def)
  show ?thesis
  proof (cases "cid' = cid \<and> digest credential' = digest credential")
    case True
    have "server_id ((sv_state sv)\<lparr>client := Some (c\<lparr>last_seen_at := Some now\<rparr>)\<rparr>) = server_id (sv_state sv)" by simp
    then show ?thesis
      using True c k by (auto simp: authenticate_def split: prod.splits sum.splits dest: commit_state)
  next
    case False
    then show ?thesis using c k by (auto simp: authenticate_def)
  qed
qed

text \<open>
  C5: the pairing survives a restart. Open the file store, make any calls of which none
  reports a storage failure, and open the file again, with no other process having touched
  it: unless the system fails to read or to inspect the file, the mode, the format and the
  version are accepted and the service comes back with exactly the same pairing state and
  publishes the same identities.
\<close>

theorem pairing_survives_restart:
  assumes "file_ok st" and "service_open lib (file_load env0) (file_save env1) st id0 = (st0, Ok sv0)"
    and "runs (service_step lib file_save digest) sv0 ls sv" and "\<forall>l \<in> set ls. storage_failure (snd l) = None"
    and "\<not> io_fails env2 IoRead" and "\<not> io_fails env2 IoMetadata"
  shows "\<exists>sv'. service_open lib (file_load env2) (file_save env3) (sv_store sv) id1 = (sv_store sv, Ok sv')
    \<and> sv_state sv' = sv_state sv \<and> w_value (sv_identities sv') = w_value (sv_identities sv)"
proof -
  have "file_store.backed sv0" "file_content (sv_store sv0) = Some (sv_state sv0)"
    using file_store.open_backed [OF assms(1,2)] by simp_all
  from file_store.runs_durable [OF assms(3) this assms(4)]
  have b: "file_ok (sv_store sv)" "file_content (sv_store sv) = Some (sv_state sv)"
    by (simp_all add: file_store.backed_def)
  have "service_inv lib sv0"
    using assms(2) by (cases rule: service_open_cases) (auto dest: open_with_inv)
  moreover have "file_load env2 (sv_store sv) = Ok (Some (sv_state sv))"
  proof (rule file_store.load_again [OF b(1) _ b(2)])
    have "file_ok (sv_store sv0)" using \<open>file_store.backed sv0\<close> by (simp add: file_store.backed_def)
    then show "file_private (sv_store sv)"
      by (rule file_store.runs_acceptable [OF assms(3) _ file_store.open_acceptable [OF assms(1,2)]])
    show "file_readable env2" using assms(5,6) by (simp add: file_readable_def)
  qed
  ultimately show ?thesis using service_runs.runs_keep [OF assms(3)] file_store.reopen [OF b] by blast
qed

text \<open>A codec of two states, and a file store that uses it.\<close>

definition ex_json :: json_lib where
  "ex_json =
     \<lparr>json_encode = (\<lambda>s. if s = to_stored (unpaired 1) then Some [1] else if s = to_stored ex_paired_state then Some [2] else None),
      json_decode = (\<lambda>bs. if bs = [1, 10] then Some (to_stored (unpaired 1))
                       else if bs = [2, 10] then Some (to_stored ex_paired_state) else None)\<rparr>"

definition ex_file_store :: file_store where
  "ex_file_store = \<lparr>path_parent = Some [47], path_name = Some [115], fs_files = [], fs_json = ex_json\<rparr>"

definition ex_env :: "io_call list \<Rightarrow> io_env" where
  "ex_env failing = \<lparr>io_fails = (\<lambda>c. c \<in> set failing), io_written = 0, io_unique = [48], io_umask = 0x12\<rparr>"

definition ex_saved :: "bytes \<Rightarrow> file_store" where
  "ex_saved bs = ex_file_store\<lparr>fs_files := [(([47], [115]), \<lparr>fe_bytes = bs, fe_mode = STATE_MODE AND NOT 0x12\<rparr>)]\<rparr>"

definition ex_file_service :: "bytes \<Rightarrow> pairing_state \<Rightarrow> file_store pairing_service" where
  "ex_file_service bs state = \<lparr>sv_store = ex_saved bs, sv_state = state, sv_revocations = \<lparr>rv_generation = 0, rv_version = 0\<rparr>,
     sv_identities = \<lparr>w_value = None, w_version = 0, w_sender_alive = True\<rparr>\<rparr>"

lemma ex_states_differ: "to_stored (unpaired 1) \<noteq> to_stored ex_paired_state"
  by (simp add: to_stored_def unpaired_def ex_paired_state_def)

lemma ex_name: "utf8_lossy [115] = [115]"
  by (intro utf8_lossy_valid utf8_valid_ascii) simp

lemma ex_file_ok: "file_ok ex_file_store" "file_ok (ex_saved bs)"
  using ex_states_differ by (auto simp: file_ok_def ex_saved_def ex_file_store_def ex_json_def intro!: utf8_valid_ascii split: if_splits)

lemmas ex_file_unfold = file_save_def write_and_replace_def temporary_name_def path_key_def hm_get_def hm_insert_def hm_remove_def
  ex_file_store_def ex_saved_def ex_env_def ex_name Let_def

lemma ex_save_fresh: "file_save (ex_env []) ex_file_store (unpaired 1) = (ex_saved [1, 10], Ok ())"
  by (simp add: ex_file_unfold ex_json_def)

lemma ex_save_paired:
  "file_save (ex_env []) (ex_saved [1, 10]) ex_paired_state = (ex_saved [2, 10], Ok ())"
  "file_save (ex_env [IoSyncParent]) (ex_saved [1, 10]) ex_paired_state = (ex_saved [2, 10], Err CouldNotSyncParent)"
  using ex_states_differ by (simp_all add: ex_file_unfold ex_json_def)

lemma ex_file_open:
  "service_open ex_ssh_lib (file_load (ex_env [])) (file_save (ex_env [])) ex_file_store 1
     = (ex_saved [1, 10], Ok (ex_file_service [1, 10] (unpaired 1)))"
proof -
  have "file_load (ex_env []) ex_file_store = Ok None" by (simp add: file_load_def ex_file_unfold)
  then show ?thesis
    by (simp add: service_open_def ex_save_fresh open_with_def state_identities_def Let_def ex_file_service_def)
       (simp add: unpaired_def)
qed

abbreviation ex_file_pair :: "io_call list \<Rightarrow> io_env pairing_call" where
  "ex_file_pair failing \<equiv> CallPair (ex_env failing) [65] 2 (Some [7, 8]) 10"

lemma ex_next: "\<lparr>server_id = 1, client = Some \<lparr>client_id = 2, credential_hash = [8, 7], label = [65],
     created_at = 10, last_seen_at = None, client_push_subscription = None, client_identities = None\<rparr>\<rparr> = ex_paired_state"
  by (simp add: ex_paired_state_def)

lemma ex_file_pair_run:
  "service_call ex_ssh_lib file_save rev (ex_file_service [1, 10] (unpaired 1)) (ex_file_pair [])
     = (ex_file_service [2, 10] ex_paired_state, ResAuthorization (Ok (Paired 1 2 [7, 8])))"
  "service_call ex_ssh_lib file_save rev (ex_file_service [1, 10] (unpaired 1)) (ex_file_pair [IoSyncParent])
     = (ex_file_service [2, 10] (unpaired 1), ResAuthorization (Err (Storage CouldNotSyncParent)))"
  by (simp_all add: pair_def commit_def Let_def ex_file_service_def unpaired_def ex_next ex_save_paired)
    (simp_all add: ex_paired_state_def)

lemma ex_file_pair_rename:
  "\<exists>sv. service_call ex_ssh_lib file_save rev (ex_file_service [1, 10] (unpaired 1)) (ex_file_pair [IoRename])
     = (sv, ResAuthorization (Err (Storage CouldNotReplace)))"
proof -
  obtain st where "file_save (ex_env [IoRename]) (ex_saved [1, 10]) ex_paired_state = (st, Err CouldNotReplace)"
    using ex_states_differ by (simp add: ex_file_unfold ex_json_def)
  then show ?thesis
    by (simp add: pair_def commit_def Let_def ex_file_service_def unpaired_def ex_next)
qed

theorem pairing_survives_restart_witness:
  "\<exists>sv'. service_open ex_ssh_lib (file_load (ex_env [])) (file_save (ex_env [])) (ex_saved [2, 10]) 9 = (ex_saved [2, 10], Ok sv')
    \<and> sv_state sv' = ex_paired_state"
proof -
  let ?sv = "ex_file_service [2, 10] ex_paired_state"
  have store: "sv_store ?sv = ex_saved [2, 10]" "sv_state ?sv = ex_paired_state" by (simp_all add: ex_file_service_def)
  have run: "runs (service_step ex_ssh_lib file_save rev) (ex_file_service [1, 10] (unpaired 1))
      [(ex_file_pair [], ResAuthorization (Ok (Paired 1 2 [7, 8])))] ?sv"
    by (rule runs_Cons, rule service_step, rule ex_file_pair_run(1), rule runs_Nil)
  have read: "\<not> io_fails (ex_env []) IoRead" "\<not> io_fails (ex_env []) IoMetadata" by (simp_all add: ex_env_def)
  show ?thesis
    using pairing_survives_restart [OF ex_file_ok(1) ex_file_open run _ read, of "ex_env []" 9] unfolding store by auto
qed

text \<open>
  C26: a storage failure changes nothing, with one exact exception. A call that reports a
  storage failure leaves the pairing state, the published identities and the channel of
  revocations of the service as they were. The file keeps its bytes and its mode if the failure
  was any but the synchronisation of the parent directory; after that one, the file holds
  exactly the state that the call was about to make current, readable by nobody but the owner.
  (Beside it, a temporary file may remain if its removal fails too.)
\<close>

theorem pairing_failure_is_atomic:
  assumes "file_ok (sv_store sv)" and "service_call lib file_save digest sv call = (sv', r)" and "storage_failure r = Some e"
  shows "sv_state sv' = sv_state sv \<and> sv_identities sv' = sv_identities sv \<and> sv_revocations sv' = sv_revocations sv
    \<and> path_key (sv_store sv') = path_key (sv_store sv)
    \<and> (if e = CouldNotSyncParent
       then file_content (sv_store sv') = Some (intended_state lib digest sv call) \<and> file_private (sv_store sv')
       else hm_get (fs_files (sv_store sv')) (path_key (sv_store sv)) = hm_get (fs_files (sv_store sv)) (path_key (sv_store sv))
         \<and> file_content (sv_store sv') = file_content (sv_store sv))"
proof -
  from service_call_failed [OF assms(2,3)] obtain store where
    save: "file_save (call_env call) (sv_store sv) (intended_state lib digest sv call) = (store, Err e)"
    and sv': "sv' = sv\<lparr>sv_store := store\<rparr>" by blast
  note frame = file_save_frame [OF save]
  show ?thesis
  proof (cases "e = CouldNotSyncParent")
    case True
    then show ?thesis using file_save_sync_parent [OF assms(1)] save frame by (simp add: sv' path_key_def)
  next
    case False
    note entry = file_save_Err_entry [OF assms(1) save False]
    then show ?thesis using False frame file_content_cong [of store "sv_store sv"] by (simp add: sv' path_key_def)
  qed
qed

text \<open>Pairing with a failing synchronisation of the directory, and with a failing rename.\<close>

theorem pairing_failure_is_atomic_witness:
  "(case service_call ex_ssh_lib file_save rev (ex_file_service [1, 10] (unpaired 1)) (ex_file_pair [IoSyncParent]) of
      (sv, r) \<Rightarrow> r = ResAuthorization (Err (Storage CouldNotSyncParent)) \<and> sv_state sv = unpaired 1
        \<and> file_content (sv_store sv) = Some ex_paired_state)
   \<and> (case service_call ex_ssh_lib file_save rev (ex_file_service [1, 10] (unpaired 1)) (ex_file_pair [IoRename]) of
      (sv, r) \<Rightarrow> r = ResAuthorization (Err (Storage CouldNotReplace)) \<and> sv_state sv = unpaired 1
        \<and> file_content (sv_store sv) = Some (unpaired 1))"
proof -
  let ?a = "ex_file_service [1, 10] (unpaired 1)"
  have ok: "file_ok (sv_store ?a)" and a: "sv_state ?a = unpaired 1" by (simp_all add: ex_file_service_def ex_file_ok)
  have content: "file_content (sv_store ?a) = Some (unpaired 1)"
    by (simp add: ex_file_service_def file_content_def ex_file_unfold ex_json_def)
  have intended: "intended_state ex_ssh_lib rev ?a (ex_file_pair failing) = ex_paired_state" for failing
    by (simp add: intended_state_def pair_def commit_def ex_file_service_def unpaired_def ex_paired_state_def)
  obtain sv where rename: "service_call ex_ssh_lib file_save rev ?a (ex_file_pair [IoRename])
      = (sv, ResAuthorization (Err (Storage CouldNotReplace)))" using ex_file_pair_rename by blast
  show ?thesis
    using pairing_failure_is_atomic [OF ok ex_file_pair_run(2), of CouldNotSyncParent]
      pairing_failure_is_atomic [OF ok rename, of CouldNotReplace]
    unfolding ex_file_pair_run(2) rename intended by (simp add: a content)
qed

text \<open>
  C27: the exception strands the pairing. If \<open>pair\<close> fails because the parent directory could
  not be synchronised, the service reports the failure and still considers itself unpaired,
  but the file already holds a paired client: after a restart the server is paired with a
  credential that was never handed out, so no client is accepted and none can pair.
\<close>

theorem pairing_sync_failure_strands:
  assumes "file_ok (sv_store sv)" and "client (sv_state sv) = None"
    and "pair (file_save env) digest sv name new_id (Some credential) now = (sv', Err (Storage CouldNotSyncParent))"
    and "\<not> io_fails env2 IoRead" and "\<not> io_fails env2 IoMetadata"
  shows "client (sv_state sv') = None
    \<and> (\<exists>sv''. service_open lib (file_load env2) (file_save env3) (sv_store sv') id1 = (sv_store sv', Ok sv'')
        \<and> client (sv_state sv'') \<noteq> None \<and> pair (file_save env4) digest sv'' name2 id2 random2 now2 = (sv'', Err AlreadyPaired))"
proof -
  let ?c = "\<lparr>client_id = new_id, credential_hash = digest credential, label = name, created_at = now,
    last_seen_at = None, client_push_subscription = None, client_identities = None\<rparr>"
  let ?n = "\<lparr>server_id = server_id (sv_state sv), client = Some ?c\<rparr>"
  from assms(2,3) obtain st where save: "file_save env (sv_store sv) ?n = (st, Err CouldNotSyncParent)"
    and sv': "sv' = sv\<lparr>sv_store := st\<rparr>"
    by (auto simp: pair_def commit_def Let_def split: prod.splits sum.splits)
  have "file_content st = Some ?n" "file_private st" using file_save_sync_parent [OF assms(1) save] by simp_all
  moreover have "file_ok st" using file_store.save_keeps_ok [OF assms(1) save] .
  ultimately have "file_load env2 st = Ok (Some ?n)"
    using file_store.load_again [of st ?n env2] assms(4,5) by (simp add: file_readable_def)
  then show ?thesis
    using assms(2) by (simp add: sv' service_open_def open_with_def state_identities_def Let_def pair_def)
qed

theorem pairing_sync_failure_strands_witness:
  "\<exists>sv''. service_open ex_ssh_lib (file_load (ex_env [])) (file_save (ex_env [])) (ex_saved [2, 10]) 9 = (ex_saved [2, 10], Ok sv'')
    \<and> pair (file_save (ex_env [])) rev sv'' [66] 3 (Some [9]) 20 = (sv'', Err AlreadyPaired)"
proof -
  let ?a = "ex_file_service [1, 10] (unpaired 1)" and ?b = "ex_file_service [2, 10] (unpaired 1)"
  have store: "sv_store ?b = ex_saved [2, 10]" by (simp add: ex_file_service_def)
  have a: "file_ok (sv_store ?a)" "client (sv_state ?a) = None"
    by (simp_all add: ex_file_service_def ex_file_ok unpaired_def)
  have p: "pair (file_save (ex_env [IoSyncParent])) rev ?a [65] 2 (Some [7, 8]) 10 = (?b, Err (Storage CouldNotSyncParent))"
    using ex_file_pair_run(2) by (auto simp: map_prod_def split: prod.splits)
  have read: "\<not> io_fails (ex_env []) IoRead" "\<not> io_fails (ex_env []) IoMetadata" by (simp_all add: ex_env_def)
  from pairing_sync_failure_strands [OF a p read, of ex_ssh_lib "ex_env []" 9 "ex_env []" "[66]" 3 "Some [9]" 20]
  show ?thesis unfolding store by blast
qed

text \<open>
  The server keeps its identity, and what it publishes is what it stores. Along any calls
  the server identifier never changes, and the identities that the watch channel publishes
  are those of the paired client, none when there is no client, and always valid.
\<close>

lemma pairing_publishes_stored_identities:
  assumes "service_open lib load (save env) store new_id = (store', Ok sv0)"
    and "runs (service_step lib save digest) sv0 ls sv"
  shows "server_id (sv_state sv) = server_id (sv_state sv0)
    \<and> w_value (sv_identities sv) = (case client (sv_state sv) of None \<Rightarrow> None | Some c \<Rightarrow> client_identities c)
    \<and> (case w_value (sv_identities sv) of None \<Rightarrow> True | Some ids \<Rightarrow> validate_identities lib ids = Ok ())"
proof -
  have inv0: "service_inv lib sv0" using assms(1) by (cases rule: service_open_cases) (auto dest: open_with_inv)
  have "server_id (sv_state sv) = server_id (sv_state sv0)"
    using assms(2)
  proof (induction rule: runs.induct)
    case (runs_Cons s l t ls u)
    obtain call r where l: "l = (call, r)" by (cases l)
    have run: "service_call lib save digest s call = (t, r)" using runs_Cons.hyps(1) unfolding l by (auto elim: service_stepE)
    then have "server_id (sv_state t) = server_id (sv_state s)" by (cases rule: service_call_cases) auto
    with runs_Cons.IH show ?case by simp
  qed simp
  with service_runs.runs_keep [OF assms(2) inv0] show ?thesis
    unfolding service_inv_def state_identities_def by (elim conjE) (intro conjI)
qed

end
