(* ===== verification/Control.thy ===== *)
theory Control
  imports Socket_File Pairing_Props
begin

text \<open>
  \<open>control/\<close>: the administrative socket. \<open>server.rs\<close> has its own copy of the claim of the
  socket path; \<open>protocol.rs\<close> wraps one request and one response in versioned JSON envelopes;
  \<open>client.rs\<close> is the other end, used by the command line. \<open>serde_json\<close>, the length-delimited
  framing and the texts of errors are parameters.
\<close>

section \<open>The control socket\<close>

datatype control_bind_error =
    ControlMissingParent path
  | ControlInspect path io_error
  | ControlNotSocket path
  | ControlAlreadyListening path
  | ControlProbe path io_error
  | ControlChanged
  | ControlRemoveStale path io_error
  | ControlBind path io_error
  | ControlPermissions path io_error

definition control_prepare_path :: "sock_env \<Rightarrow> path \<Rightarrow> file_system \<Rightarrow> file_system \<times> (control_bind_error + unit)" where
  "control_prepare_path env p fs =
     (let parent = parent_or_dot p in
      if \<not> is_dir fs parent then (fs, Err (ControlMissingParent parent))
      else
        (let fs = sk_others env ScMetadata fs in
         case symlink_metadata env ScMetadata p fs of
           Inl e \<Rightarrow> if e = IoNotFound then (fs, Ok ()) else (fs, Err (ControlInspect p e))
         | Inr m \<Rightarrow>
             if md_kind m \<noteq> KindSocket then (fs, Err (ControlNotSocket p))
             else
               (let fs = sk_others env ScConnect fs in
                case connect env p fs of
                  Inr _ \<Rightarrow> (fs, Err (ControlAlreadyListening p))
                | Inl e \<Rightarrow>
                    if e \<noteq> IoConnectionRefused then (fs, Err (ControlProbe p e))
                    else
                      (let fs = sk_others env ScRecheck fs in
                       case symlink_metadata env ScRecheck p fs of
                         Inl e \<Rightarrow> (fs, Err (ControlInspect p e))
                       | Inr current \<Rightarrow>
                           if md_dev current \<noteq> md_dev m \<or> md_ino current \<noteq> md_ino m then (fs, Err ControlChanged)
                           else (case remove_file env ScRemoveStale p (sk_others env ScRemoveStale fs) of
                                   (fs, Inl e) \<Rightarrow> (fs, Err (ControlRemoveStale p e))
                                 | (fs, Inr _) \<Rightarrow> (fs, Ok ()))))))"

record control_socket =
  cs_listener :: "nat \<times> nat"
  cs_file :: socket_file

definition control_socket_bind ::
  "sock_env \<Rightarrow> path \<Rightarrow> 32 word \<Rightarrow> file_system \<Rightarrow> file_system \<times> (control_bind_error + control_socket)" where
  "control_socket_bind env p mode fs =
     (case control_prepare_path env p fs of
        (fs, Inl e) \<Rightarrow> (fs, Err e)
      | (fs, Inr _) \<Rightarrow>
     (case listener_bind env p (sk_others env ScBind fs) of
        (fs, Inl e) \<Rightarrow> (fs, Err (ControlBind p e))
      | (fs, Inr _) \<Rightarrow>
     (case set_permissions env p mode (sk_others env ScChmod fs) of
        (fs, Inl e) \<Rightarrow>
          (close_listener (sk_identity env) (fst (remove_file env ScRemoveFailed p (sk_others env ScRemoveFailed fs))),
           Err (ControlPermissions p e))
      | (fs, Inr _) \<Rightarrow>
          (let fs = sk_others env ScInspect fs in
           case symlink_metadata env ScInspect p fs of
             Inl e \<Rightarrow> (close_listener (sk_identity env) fs, Err (ControlInspect p e))
           | Inr m \<Rightarrow>
               (fs, Ok \<lparr>cs_listener = sk_identity env,
                        cs_file = \<lparr>sf_path = p, sf_device = md_dev m, sf_inode = md_ino m\<rparr>\<rparr>)))))"

definition control_file_drop :: "sock_env \<Rightarrow> socket_file \<Rightarrow> file_system \<Rightarrow> file_system" where
  "control_file_drop env f fs =
     (let fs = sk_others env ScDropInspect fs in
      case symlink_metadata env ScDropInspect (sf_path f) fs of
        Inl _ \<Rightarrow> fs
      | Inr m \<Rightarrow>
          if md_kind m = KindSocket \<and> md_dev m = sf_device f \<and> md_ino m = sf_inode f
          then fst (remove_file env ScDropRemove (sf_path f) (sk_others env ScDropRemove fs))
          else fs)"

definition control_socket_drop :: "sock_env \<Rightarrow> control_socket \<Rightarrow> file_system \<Rightarrow> file_system" where
  "control_socket_drop env s fs = control_file_drop env (cs_file s) (close_listener (cs_listener s) fs)"

section \<open>The protocol\<close>

definition CONTROL_VERSION :: nat where "CONTROL_VERSION = 1"

definition MAX_FRAME_LENGTH :: nat where "MAX_FRAME_LENGTH = 16 * 1024"

datatype control_request = PairingClear

datatype control_response = PairingCleared bool | ControlError rstring

datatype control_codec_error = ControlEncode | ControlDecode | ControlUnsupportedVersion nat

text \<open>An envelope is the version and the message; the codec of each is given.\<close>

definition control_encode :: "(nat \<times> 'm \<Rightarrow> bytes option) \<Rightarrow> 'm \<Rightarrow> control_codec_error + bytes" where
  "control_encode json message = (case json (CONTROL_VERSION, message) of None \<Rightarrow> Err ControlEncode | Some bs \<Rightarrow> Ok bs)"

definition control_decode :: "(bytes \<Rightarrow> (nat \<times> 'm) option) \<Rightarrow> bytes \<Rightarrow> control_codec_error + 'm" where
  "control_decode json frame =
     (case json frame of None \<Rightarrow> Err ControlDecode
      | Some (v, message) \<Rightarrow> if v \<noteq> CONTROL_VERSION then Err (ControlUnsupportedVersion v) else Ok message)"

record control_lib =
  request_json :: "nat \<times> control_request \<Rightarrow> bytes option"
  request_unjson :: "bytes \<Rightarrow> (nat \<times> control_request) option"
  response_json :: "nat \<times> control_response \<Rightarrow> bytes option"
  response_unjson :: "bytes \<Rightarrow> (nat \<times> control_response) option"
  codec_error_text :: "control_codec_error \<Rightarrow> rstring"
  store_error_text :: "store_error \<Rightarrow> rstring"

section \<open>Serving one connection\<close>

datatype control_error = NoRequest | UnreadableRequest | ControlCodec control_codec_error | UnsentResponse

text \<open>
  \<open>handle_connection\<close>: the service, the frame that was sent, and the result. \<open>received\<close> is what
  the framed stream yields first (an error if the frame is longer than \<open>MAX_FRAME_LENGTH\<close>), and
  \<open>send_ok\<close> whether the stream takes the response; the codec refuses one that is too long.
\<close>

definition control_response_for ::
  "control_lib \<Rightarrow> 'st save_op \<Rightarrow> 'st pairing_service \<Rightarrow> bytes \<Rightarrow> 'st pairing_service \<times> control_response" where
  "control_response_for lib save sv frame =
     (case control_decode (request_unjson lib) frame of
        Inr PairingClear \<Rightarrow>
          (case clear save sv of
             (sv, Inr had_client) \<Rightarrow> (sv, PairingCleared had_client)
           | (sv, Inl e) \<Rightarrow> (sv, ControlError (store_error_text lib e)))
      | Inl e \<Rightarrow> (sv, ControlError (codec_error_text lib e)))"

definition control_handle_connection ::
  "control_lib \<Rightarrow> 'st save_op \<Rightarrow> 'st pairing_service \<Rightarrow> (unit + bytes) option \<Rightarrow> bool \<Rightarrow>
     'st pairing_service \<times> bytes option \<times> (control_error + unit)" where
  "control_handle_connection lib save sv received send_ok =
     (case received of
        None \<Rightarrow> (sv, None, Err NoRequest)
      | Some (Inl _) \<Rightarrow> (sv, None, Err UnreadableRequest)
      | Some (Inr frame) \<Rightarrow>
          (case control_response_for lib save sv frame of
             (sv, response) \<Rightarrow>
               (case control_encode (response_json lib) response of
                  Inl e \<Rightarrow> (sv, None, Err (ControlCodec e))
                | Inr bs \<Rightarrow>
                    if send_ok \<and> length bs \<le> MAX_FRAME_LENGTH then (sv, Some bs, Ok ()) else (sv, None, Err UnsentResponse))))"

section \<open>The accept loop\<close>

text \<open>
  \<open>ControlSocket::serve\<close>: the tasks of the open connections, the result once the loop has been
  left, and the pairing service that the connections share. Whenever the loop is left the
  tasks are aborted; a connection that has not called \<open>clear\<close> yet then has no effect.
\<close>

record 'st control_loop =
  cl_tasks :: "nat list"
  cl_result :: "(unit + unit) option"
  cl_pairing :: "'st pairing_service"

datatype control_event =
    ControlShutdown
  | ControlAccepted nat
  | ControlAcceptFailed
  | ControlHandled nat "(unit + bytes) option" bool

inductive control_step ::
  "control_lib \<Rightarrow> 'st save_op \<Rightarrow> 'st control_loop \<Rightarrow> control_event \<Rightarrow> 'st control_loop \<Rightarrow> bool"
  for lib save where
  control_shutdown: "cl_result l = None \<Longrightarrow>
    control_step lib save l ControlShutdown (l\<lparr>cl_tasks := [], cl_result := Some (Ok ())\<rparr>)"
| control_accepted: "cl_result l = None \<Longrightarrow> task \<notin> set (cl_tasks l) \<Longrightarrow>
    control_step lib save l (ControlAccepted task) (l\<lparr>cl_tasks := cl_tasks l @ [task]\<rparr>)"
| control_accept_failed: "cl_result l = None \<Longrightarrow>
    control_step lib save l ControlAcceptFailed (l\<lparr>cl_tasks := [], cl_result := Some (Err ())\<rparr>)"
| control_handled: "cl_result l = None \<Longrightarrow> task \<in> set (cl_tasks l) \<Longrightarrow>
    control_handle_connection lib save (cl_pairing l) received send_ok = (sv, sent, r) \<Longrightarrow>
    control_step lib save l (ControlHandled task received send_ok)
      (l\<lparr>cl_tasks := filter (\<lambda>t. t \<noteq> task) (cl_tasks l), cl_pairing := sv\<rparr>)"

inductive_cases control_stepE: "control_step lib save l e l'"

text \<open>Administration never pairs: it keeps the identity of the server and can only remove the client.\<close>

definition at_most_cleared :: "'st pairing_service \<Rightarrow> 'st control_loop \<Rightarrow> bool" where
  "at_most_cleared sv l \<longleftrightarrow> server_id (sv_state (cl_pairing l)) = server_id (sv_state sv)
     \<and> (client (sv_state (cl_pairing l)) = None \<or> client (sv_state (cl_pairing l)) = client (sv_state sv))"

lemma control_handle_at_most_cleared:
  assumes "control_handle_connection lib save sv received send_ok = (sv', sent, r)"
  shows "server_id (sv_state sv') = server_id (sv_state sv)
    \<and> (client (sv_state sv') = None \<or> client (sv_state sv') = client (sv_state sv))"
proof -
  have "sv' = sv \<or> sv' = fst (clear save sv)"
    using assms by (auto simp: control_handle_connection_def control_response_for_def
        split: option.splits sum.splits prod.splits control_request.splits if_splits)
  moreover have "server_id (sv_state (fst (clear save sv))) = server_id (sv_state sv)
    \<and> (client (sv_state (fst (clear save sv))) = None \<or> client (sv_state (fst (clear save sv))) = client (sv_state sv))"
    by (auto simp: clear_def commit_def watch_send_def Let_def split: if_splits prod.splits sum.splits)
  ultimately show ?thesis by auto
qed

interpretation control_runs: kept_by_steps "control_step lib save" "at_most_cleared sv" for lib save sv
  by unfold_locales (auto simp: at_most_cleared_def elim!: control_stepE dest!: control_handle_at_most_cleared)

lemma control_loop_at_most_clears:
  "runs (control_step lib save) l es l' \<Longrightarrow> at_most_cleared (cl_pairing l) l'"
  by (erule control_runs.runs_keep) (simp add: at_most_cleared_def)

section \<open>The client\<close>

datatype clear_pairing_error =
    CouldNotConnect | RequestEncoding control_codec_error | CouldNotSend | NoResponse | UnreadableResponse
  | ResponseDecoding control_codec_error | ServerError rstring

text \<open>\<open>clear_pairing\<close>: what it sends, and how it reads what comes back.\<close>

definition clear_pairing_request :: "control_lib \<Rightarrow> bool \<Rightarrow> bool \<Rightarrow> clear_pairing_error + bytes" where
  "clear_pairing_request lib connected send_ok =
     (if \<not> connected then Err CouldNotConnect
      else
        (case control_encode (request_json lib) PairingClear of
           Inl e \<Rightarrow> Err (RequestEncoding e)
         | Inr bs \<Rightarrow> if send_ok \<and> length bs \<le> MAX_FRAME_LENGTH then Ok bs else Err CouldNotSend))"

definition clear_pairing_result :: "control_lib \<Rightarrow> (unit + bytes) option \<Rightarrow> clear_pairing_error + bool" where
  "clear_pairing_result lib received =
     (case received of
        None \<Rightarrow> Err NoResponse
      | Some (Inl _) \<Rightarrow> Err UnreadableResponse
      | Some (Inr frame) \<Rightarrow>
          (case control_decode (response_unjson lib) frame of
             Inl e \<Rightarrow> Err (ResponseDecoding e)
           | Inr (PairingCleared had_client) \<Rightarrow> Ok had_client
           | Inr (ControlError message) \<Rightarrow> Err (ServerError message)))"

text \<open>One exchange over a connection that loses nothing.\<close>

definition clear_pairing ::
  "control_lib \<Rightarrow> 'st save_op \<Rightarrow> 'st pairing_service \<Rightarrow> 'st pairing_service \<times> (clear_pairing_error + bool)" where
  "clear_pairing lib save sv =
     (case clear_pairing_request lib True True of
        Inl e \<Rightarrow> (sv, Err e)
      | Inr request \<Rightarrow>
          (case control_handle_connection lib save sv (Some (Ok request)) True of
             (sv, sent, _) \<Rightarrow> (sv, clear_pairing_result lib (map_option Ok sent))))"

section \<open>The two copies of the socket claim agree\<close>

fun as_agent_error :: "path \<Rightarrow> control_bind_error \<Rightarrow> agent_socket_error" where
  "as_agent_error p (ControlMissingParent q) = MissingParent q"
| "as_agent_error p (ControlInspect q e) = Metadata (PathIoError q e)"
| "as_agent_error p (ControlNotSocket q) = NotSocket q"
| "as_agent_error p (ControlAlreadyListening q) = AlreadyActive q"
| "as_agent_error p (ControlProbe q e) = Probe (PathIoError q e)"
| "as_agent_error p ControlChanged = Changed p"
| "as_agent_error p (ControlRemoveStale q e) = RemoveStale (PathIoError q e)"
| "as_agent_error p (ControlBind q e) = Bind (PathIoError q e)"
| "as_agent_error p (ControlPermissions q e) = Permissions (PathIoError q e)"

definition as_agent_socket :: "nat \<Rightarrow> control_socket \<Rightarrow> agent_socket" where
  "as_agent_socket n s = \<lparr>as_listener = cs_listener s, as_file = cs_file s, as_max_packet_size = n\<rparr>"

lemma control_prepare_path_agrees:
  "map_prod id (map_sum (as_agent_error p) id) (control_prepare_path env p fs) = prepare_path env p fs"
  by (auto simp: control_prepare_path_def prepare_path_def Let_def map_prod_def
      split: if_splits sum.splits io_error.splits prod.splits)

lemma control_bind_agrees:
  "map_prod id (map_sum (as_agent_error p) (as_agent_socket n)) (control_socket_bind env p mode fs) = agent_socket_bind env p mode n fs"
proof -
  obtain fs1 r where c: "control_prepare_path env p fs = (fs1, r)" by fastforce
  then have a: "prepare_path env p fs = (fs1, map_sum (as_agent_error p) id r)"
    using control_prepare_path_agrees [of p env fs] by simp
  show ?thesis
    by (cases r) (simp_all add: control_socket_bind_def agent_socket_bind_def socket_bind_def c a as_agent_socket_def Let_def
        split: prod.split sum.split)
qed

lemma control_drop_agrees: "control_socket_drop env s fs = agent_socket_drop env (as_agent_socket n s) fs"
  by (simp add: control_socket_drop_def agent_socket_drop_def control_file_drop_def socket_drop_def as_agent_socket_def)

lemma control_bind_Ok: "control_socket_bind env p mode fs = (fs', Ok s) \<Longrightarrow> agent_socket_bind env p mode n fs = (fs', Ok (as_agent_socket n s))"
  using control_bind_agrees [of p n env mode fs] by simp

interpretation control_sockets: socket_owner control_socket_bind control_socket_drop
    "\<lambda>s. sf_path (cs_file s)" "\<lambda>s. (sf_device (cs_file s), sf_inode (cs_file s))"
proof (unfold_locales, goal_cases)
  case (1 env fs p mode)
  obtain fs' r where c: "control_socket_bind env p mode fs = (fs', r)" by fastforce
  from agent_sockets.bind_in_use [OF 1, of mode 0] show ?case
    using control_bind_agrees [of p 0 env mode fs] by (cases r) (auto simp: c)
next
  case (2 env p mode fs fs' r q)
  from control_bind_agrees [of p 0 env mode fs] have "agent_socket_bind env p mode 0 fs = (fs', map_sum (as_agent_error p) (as_agent_socket 0) r)"
    by (simp add: 2(2))
  from agent_sockets.bind_frame [OF 2(1) this 2(3)] show ?case .
next
  case (3 env p mode fs fs' s)
  from agent_sockets.bind_Ok [OF 3(1) control_bind_Ok [OF 3(2)], of 0] show ?case by (simp add: as_agent_socket_def)
next
  case (4 env q s fs)
  then show ?case using agent_sockets.drop_frame [of env q "as_agent_socket 0 s" fs]
    by (simp add: control_drop_agrees [of env s fs 0] as_agent_socket_def)
next
  case (5 env fs s)
  then show ?case using agent_sockets.drop_own [of env fs "as_agent_socket 0 s"]
    by (simp add: control_drop_agrees [of env s fs 0] as_agent_socket_def)
next
  case (6 env fs s)
  then show ?case using agent_sockets.drop_foreign [of env fs "as_agent_socket 0 s"]
    by (simp add: control_drop_agrees [of env s fs 0] as_agent_socket_def)
next
  case (7 env s fs)
  then show ?case using agent_sockets.drop_fails [of env "as_agent_socket 0 s" fs] by (simp add: control_drop_agrees [of env s fs 0])
next
  case (8 env s fs)
  then show ?case using agent_sockets.drop_listening [of env "as_agent_socket 0 s" fs] by (simp add: control_drop_agrees [of env s fs 0])
next
  case (9 env p mode fs fs' e)
  from control_bind_agrees [of p 0 env mode fs] have "agent_socket_bind env p mode 0 fs = (fs', Err (as_agent_error p e))"
    by (simp add: 9(2))
  from agent_sockets.bind_Err [OF 9(1) this] show ?case .
next
  case (10 env p mode fs fs' s)
  from agent_sockets.bind_listening [OF 10(1) control_bind_Ok [OF 10(2), of 0]] show ?case .
qed

section \<open>Properties\<close>

text \<open>
  C36: the control socket behaves as the agent socket. The two modules have separate copies of
  the code that claims a socket path; for every file system, every failure and every
  interference, both leave the same file system, succeed together with the same guard, and
  fail together with corresponding errors; and both guards do the same when dropped.
\<close>

theorem control_socket_agrees_with_agent_socket:
  "map_prod id (map_sum (as_agent_error p) (as_agent_socket n)) (control_socket_bind env p mode fs) = agent_socket_bind env p mode n fs
    \<and> control_socket_drop env s fs = agent_socket_drop env (as_agent_socket n s) fs"
  by (intro conjI control_bind_agrees control_drop_agrees)

text \<open>The answer to a clear, and whether a message fits a frame.\<close>

definition fits :: "(nat \<times> 'm \<Rightarrow> bytes option) \<Rightarrow> 'm \<Rightarrow> bool" where
  "fits json m \<longleftrightarrow> (\<forall>bs. json (CONTROL_VERSION, m) = Some bs \<longrightarrow> length bs \<le> MAX_FRAME_LENGTH)"

fun clear_response :: "control_lib \<Rightarrow> store_error + bool \<Rightarrow> control_response" where
  "clear_response lib (Inr had) = PairingCleared had"
| "clear_response lib (Inl e) = ControlError (store_error_text lib e)"

lemma clear_pairing_reports:
  assumes "\<forall>m. \<exists>bs. request_json lib (CONTROL_VERSION, m) = Some bs \<and> request_unjson lib bs = Some (CONTROL_VERSION, m)"
    and "\<forall>m. \<exists>bs. response_json lib (CONTROL_VERSION, m) = Some bs \<and> response_unjson lib bs = Some (CONTROL_VERSION, m)"
    and "fits (request_json lib) PairingClear" and "clear save sv = (sv1, x)"
  shows "clear_pairing lib save sv = (sv1, if fits (response_json lib) (clear_response lib x)
      then (case x of Inr had \<Rightarrow> Ok had | Inl e \<Rightarrow> Err (ServerError (store_error_text lib e))) else Err NoResponse)"
proof -
  obtain req where req: "request_json lib (CONTROL_VERSION, PairingClear) = Some req"
    "request_unjson lib req = Some (CONTROL_VERSION, PairingClear)" using assms(1) by blast
  obtain bs where bs: "response_json lib (CONTROL_VERSION, clear_response lib x) = Some bs"
    "response_unjson lib bs = Some (CONTROL_VERSION, clear_response lib x)" using assms(2) by blast
  have "clear_pairing_request lib True True = Ok req"
    using assms(3) req by (simp add: clear_pairing_request_def control_encode_def fits_def)
  moreover have "control_response_for lib save sv req = (sv1, clear_response lib x)"
    by (cases x) (simp_all add: control_response_for_def control_decode_def req assms(4))
  ultimately show ?thesis
    using bs by (cases x) (simp_all add: clear_pairing_def control_handle_connection_def control_encode_def clear_pairing_result_def
        control_decode_def fits_def)
qed

text \<open>
  C37: the administrative command clears the pairing and reports it truly. If the JSON codec
  reads back what it writes, then \<open>clear_pairing\<close> returns whether a client was paired exactly
  when the new state could be stored; afterwards no client is paired, the published
  identities are gone, and the channel of revocations has moved if and only if there was a
  client. If storing failed, the command reports the server's error and the pairing is as it
  was. The only other outcomes are frames above \<open>MAX_FRAME_LENGTH\<close>: a request that is too long
  is not sent and nothing happens, a response that is too long is reported as missing.
\<close>

theorem control_clears_pairing:
  assumes "\<forall>m. \<exists>bs. request_json lib (CONTROL_VERSION, m) = Some bs \<and> request_unjson lib bs = Some (CONTROL_VERSION, m)"
    and "\<forall>m. \<exists>bs. response_json lib (CONTROL_VERSION, m) = Some bs \<and> response_unjson lib bs = Some (CONTROL_VERSION, m)"
    and "clear_pairing lib save sv = (sv', r)"
  shows "(\<forall>had. r = Ok had \<longrightarrow> had = (client (sv_state sv) \<noteq> None) \<and> client (sv_state sv') = None
        \<and> (if had then w_value (sv_identities sv') = None \<and> sv_revocations sv' = revoke (sv_revocations sv) else sv' = sv))
    \<and> (\<forall>e. r = Err e \<longrightarrow>
        (\<exists>x st. e = (if fits (response_json lib) (ControlError (store_error_text lib x)) then ServerError (store_error_text lib x)
              else NoResponse)
            \<and> client (sv_state sv) \<noteq> None
            \<and> save (sv_store sv) \<lparr>server_id = server_id (sv_state sv), client = None\<rparr> = (st, Err x)
            \<and> sv' = sv\<lparr>sv_store := st\<rparr>)
        \<or> e = CouldNotSend \<and> \<not> fits (request_json lib) PairingClear \<and> sv' = sv
        \<or> (\<exists>had. e = NoResponse \<and> \<not> fits (response_json lib) (PairingCleared had) \<and> clear save sv = (sv', Ok had)))"
proof (cases "fits (request_json lib) PairingClear")
  case False
  then have "clear_pairing lib save sv = (sv, Err CouldNotSend)"
    using assms(1) by (auto simp: clear_pairing_def clear_pairing_request_def control_encode_def fits_def)
  then have "sv' = sv" "r = Err CouldNotSend" using assms(3) by simp_all
  then show ?thesis using False by simp
next
  case True
  obtain sv1 x where c: "clear save sv = (sv1, x)" by fastforce
  have sv': "sv' = sv1" and r: "r = (if fits (response_json lib) (clear_response lib x)
      then (case x of Inr had \<Rightarrow> Ok had | Inl e \<Rightarrow> Err (ServerError (store_error_text lib e))) else Err NoResponse)"
    using clear_pairing_reports [OF assms(1,2) True c] assms(3) by simp_all
  show ?thesis
  proof (cases x)
    case (Inl e)
    with c have "client (sv_state sv) \<noteq> None
        \<and> (\<exists>st. save (sv_store sv) \<lparr>server_id = server_id (sv_state sv), client = None\<rparr> = (st, Err e) \<and> sv1 = sv\<lparr>sv_store := st\<rparr>)"
      by (auto simp: clear_def commit_def Let_def split: if_splits prod.splits sum.splits)
    then show ?thesis by (auto simp: r sv' Inl)
  next
    case (Inr had)
    with c have "had = (client (sv_state sv) \<noteq> None) \<and> client (sv_state sv1) = None
        \<and> (if had then w_value (sv_identities sv1) = None \<and> sv_revocations sv1 = revoke (sv_revocations sv) else sv1 = sv)"
      by (auto simp: clear_def commit_def watch_send_def Let_def split: if_splits prod.splits sum.splits)
    then show ?thesis using c by (simp add: r sv' Inr)
  qed
qed

fun ex_response_json :: "nat \<times> control_response \<Rightarrow> bytes option" where
  "ex_response_json (_, PairingCleared had_client) = Some [0, if had_client then 1 else 0]"
| "ex_response_json (_, ControlError message) = Some (1 # message)"

definition ex_control_lib :: control_lib where
  "ex_control_lib =
     \<lparr>request_json = (\<lambda>_. Some [7]), request_unjson = (\<lambda>bs. if bs = [7] then Some (1, PairingClear) else None),
      response_json = ex_response_json,
      response_unjson = (\<lambda>bs. case bs of [] \<Rightarrow> None
        | t # rest \<Rightarrow> Some (1, if t = 0 then PairingCleared (rest = [1]) else ControlError rest)),
      codec_error_text = (\<lambda>_. []), store_error_text = (\<lambda>_. [])\<rparr>"

theorem control_clears_pairing_witness:
  "\<exists>sv'. clear_pairing ex_control_lib memory_save ex_paired = (sv', Ok True) \<and> client (sv_state sv') = None"
proof -
  have "\<exists>bs. request_json ex_control_lib (CONTROL_VERSION, m) = Some bs \<and> request_unjson ex_control_lib bs = Some (CONTROL_VERSION, m)" for m
    by (cases m) (simp add: ex_control_lib_def CONTROL_VERSION_def)
  moreover have "\<exists>bs. response_json ex_control_lib (CONTROL_VERSION, m) = Some bs \<and> response_unjson ex_control_lib bs = Some (CONTROL_VERSION, m)" for m
    by (cases m) (simp_all add: ex_control_lib_def CONTROL_VERSION_def)
  moreover obtain sv' where "clear memory_save ex_paired = (sv', Ok True)"
    by (simp add: clear_def commit_def memory_save_def ex_paired_state_def Let_def)
  then have "clear_pairing ex_control_lib memory_save ex_paired = (sv', Ok True)"
    by (simp add: clear_pairing_def clear_pairing_request_def control_encode_def control_decode_def control_handle_connection_def
        control_response_for_def clear_pairing_result_def CONTROL_VERSION_def MAX_FRAME_LENGTH_def ex_control_lib_def)
  ultimately show ?thesis using control_clears_pairing [of ex_control_lib memory_save ex_paired sv' "Ok True"] by blast
qed

end
