(* ===== verification/Config.thy ===== *)
theory Config
  imports Socket_File
begin

unbundle bit_operations_syntax

text \<open>
  \<open>config.rs\<close>: the configuration of the daemon. Values come from the defaults, an optional
  TOML file and the command line, in this order; \<open>figment\<close>, \<open>humantime\<close> and the DSN parser
  of \<open>sentry\<close> are parameters.
\<close>

section \<open>Data\<close>

text \<open>
  The fields of \<open>Config\<close>. The type of the modes is \<open>u32\<close> in a configuration, and a value to be
  deserialized before that. An address is its octets and its port.
\<close>

record 'm config_fields =
  state_path :: "path option"
  vapid_private_key_file :: path
  control_socket_path :: path
  control_socket_mode :: 'm
  unix_socket :: path
  socket_mode :: 'm
  http_listen :: "nat list \<times> nat"
  cfg_request_timeout :: duration
  max_agent_packet_size :: nat
  cfg_max_pending_requests :: nat
  remote_capacity :: nat
  sentry_backend_dsn :: "rstring option"
  sentry_frontend_dsn :: "rstring option"

type_synonym config = "32 word config_fields"

datatype mode_value = ModeInteger nat | ModeString rstring

text \<open>\<open>Duration::from_secs\<close>, in nanoseconds.\<close>

definition from_secs :: "nat \<Rightarrow> duration" where
  "from_secs n = n * 1000000000"

definition default_config :: config where
  "default_config =
     \<lparr>state_path = None,
      vapid_private_key_file = (True, [''var'', ''lib'', ''agent-witness'', ''vapid.key'']),
      control_socket_path = (True, [''run'', ''agent-witness'', ''control.sock'']),
      control_socket_mode = 0x180,
      unix_socket = (True, [''run'', ''agent-witness'', ''agent.sock'']),
      socket_mode = 0x180,
      http_listen = ([127, 0, 0, 1], 9345),
      cfg_request_timeout = from_secs 90,
      max_agent_packet_size = 256 * 1024,
      cfg_max_pending_requests = 32,
      remote_capacity = 32,
      sentry_backend_dsn = None,
      sentry_frontend_dsn = None\<rparr>"

record config_overrides =
  ov_control_socket :: "path option"
  ov_unix_socket :: "path option"
  ov_request_timeout :: "duration option"

section \<open>Modes\<close>

datatype parse_int_error = Empty | InvalidDigit | PosOverflow

definition octal_digit :: "u8 \<Rightarrow> nat option" where
  "octal_digit c = (if 48 \<le> unat c \<and> unat c \<le> 55 then Some (unat c - 48) else None)"

text \<open>\<open>u32::from_str_radix(value, 8)\<close>: an optional plus sign and digits, with checked arithmetic.\<close>

fun octal_digits :: "nat \<Rightarrow> rstring \<Rightarrow> parse_int_error + nat" where
  "octal_digits acc [] = Ok acc"
| "octal_digits acc (c # cs) =
     (case octal_digit c of None \<Rightarrow> Err InvalidDigit
      | Some d \<Rightarrow>
          if 2 ^ 32 \<le> acc * 8 \<or> 2 ^ 32 \<le> acc * 8 + d then Err PosOverflow
          else octal_digits (acc * 8 + d) cs)"

definition from_str_radix_8 :: "rstring \<Rightarrow> parse_int_error + nat" where
  "from_str_radix_8 s =
     (case s of [] \<Rightarrow> Err Empty
      | c # cs \<Rightarrow>
          if (c = 43 \<or> c = 45) \<and> cs = [] then Err InvalidDigit
          else if c = 43 then octal_digits 0 cs
          else octal_digits 0 (c # cs))"

fun deserialize_mode :: "mode_value \<Rightarrow> unit + 32 word" where
  "deserialize_mode (ModeInteger n) = (if n < 2 ^ 32 then Ok (of_nat n) else Err ())"
| "deserialize_mode (ModeString s) = (case from_str_radix_8 s of Inl _ \<Rightarrow> Err () | Inr n \<Rightarrow> Ok (of_nat n))"

section \<open>Layers\<close>

text \<open>What a TOML file sets.\<close>

record config_layer =
  ly_state_path :: "path option"
  ly_vapid_private_key_file :: "path option"
  ly_control_socket :: "path option"
  ly_control_socket_mode :: "mode_value option"
  ly_unix_socket :: "path option"
  ly_socket_mode :: "mode_value option"
  ly_http_listen :: "(nat list \<times> nat) option"
  ly_request_timeout :: "duration option"
  ly_max_agent_packet_size :: "nat option"
  ly_max_pending_requests :: "nat option"
  ly_remote_capacity :: "nat option"
  ly_sentry_backend_dsn :: "rstring option"
  ly_sentry_frontend_dsn :: "rstring option"

abbreviation override :: "'a option \<Rightarrow> 'a \<Rightarrow> 'a" where
  "override new old \<equiv> (case new of None \<Rightarrow> old | Some v \<Rightarrow> v)"

abbreviation override_option :: "'a option \<Rightarrow> 'a option \<Rightarrow> 'a option" where
  "override_option new old \<equiv> (case new of None \<Rightarrow> old | Some v \<Rightarrow> Some v)"

text \<open>\<open>Figment::merge\<close>: a value of the new layer replaces the old one.\<close>

definition merge_layer :: "mode_value config_fields \<Rightarrow> config_layer \<Rightarrow> mode_value config_fields" where
  "merge_layer c ly =
     \<lparr>state_path = override_option (ly_state_path ly) (state_path c),
      vapid_private_key_file = override (ly_vapid_private_key_file ly) (vapid_private_key_file c),
      control_socket_path = override (ly_control_socket ly) (control_socket_path c),
      control_socket_mode = override (ly_control_socket_mode ly) (control_socket_mode c),
      unix_socket = override (ly_unix_socket ly) (unix_socket c),
      socket_mode = override (ly_socket_mode ly) (socket_mode c),
      http_listen = override (ly_http_listen ly) (http_listen c),
      cfg_request_timeout = override (ly_request_timeout ly) (cfg_request_timeout c),
      max_agent_packet_size = override (ly_max_agent_packet_size ly) (max_agent_packet_size c),
      cfg_max_pending_requests = override (ly_max_pending_requests ly) (cfg_max_pending_requests c),
      remote_capacity = override (ly_remote_capacity ly) (remote_capacity c),
      sentry_backend_dsn = override_option (ly_sentry_backend_dsn ly) (sentry_backend_dsn c),
      sentry_frontend_dsn = override_option (ly_sentry_frontend_dsn ly) (sentry_frontend_dsn c)\<rparr>"

text \<open>Replacing the modes: serializing the defaults, and deserializing at the end.\<close>

definition with_modes :: "'a config_fields \<Rightarrow> 'b \<Rightarrow> 'b \<Rightarrow> 'b config_fields" where
  "with_modes c control_mode mode =
     \<lparr>state_path = state_path c, vapid_private_key_file = vapid_private_key_file c,
      control_socket_path = control_socket_path c, control_socket_mode = control_mode,
      unix_socket = unix_socket c, socket_mode = mode, http_listen = http_listen c,
      cfg_request_timeout = cfg_request_timeout c, max_agent_packet_size = max_agent_packet_size c,
      cfg_max_pending_requests = cfg_max_pending_requests c, remote_capacity = remote_capacity c,
      sentry_backend_dsn = sentry_backend_dsn c, sentry_frontend_dsn = sentry_frontend_dsn c\<rparr>"

text \<open>
  \<open>Config::extract\<close>. \<open>file\<close> is what \<open>figment\<close> reads from the TOML file, if one is given;
  \<open>humantime\<close> is the text of a duration, printed and parsed again.
\<close>

definition extract_config ::
  "(duration \<Rightarrow> duration option) \<Rightarrow> (unit + config_layer) option \<Rightarrow> config_overrides \<Rightarrow> unit + config" where
  "extract_config humantime file overrides =
     (let c = with_modes default_config (ModeInteger (unat (control_socket_mode default_config)))
                (ModeInteger (unat (socket_mode default_config))) in
      case (case file of None \<Rightarrow> Ok c | Some (Inl _) \<Rightarrow> Err () | Some (Inr ly) \<Rightarrow> Ok (merge_layer c ly)) of
        Inl e \<Rightarrow> Err e
      | Inr c \<Rightarrow>
          (let c = c\<lparr>control_socket_path := override (ov_control_socket overrides) (control_socket_path c),
                     unix_socket := override (ov_unix_socket overrides) (unix_socket c)\<rparr> in
           case (case ov_request_timeout overrides of None \<Rightarrow> Some (cfg_request_timeout c) | Some d \<Rightarrow> humantime d) of
             None \<Rightarrow> Err ()
           | Some timeout \<Rightarrow>
               (case (deserialize_mode (control_socket_mode c), deserialize_mode (socket_mode c)) of
                  (Inr control_mode, Inr mode) \<Rightarrow> Ok (with_modes (c\<lparr>cfg_request_timeout := timeout\<rparr>) control_mode mode)
                | _ \<Rightarrow> Err ())))"

section \<open>Validation\<close>

datatype config_error = Invalid string

definition validate_dsn ::
  "(rstring \<Rightarrow> string + unit) \<Rightarrow> string \<Rightarrow> rstring option \<Rightarrow> config_error + unit" where
  "validate_dsn parse_dsn name value =
     (case value of None \<Rightarrow> Ok ()
      | Some v \<Rightarrow>
          (case parse_dsn v of Inr _ \<Rightarrow> Ok ()
           | Inl e \<Rightarrow> Err (Invalid (name @ '' is not a valid Sentry DSN: '' @ e))))"

definition validate :: "(rstring \<Rightarrow> string + unit) \<Rightarrow> config \<Rightarrow> config_error + unit" where
  "validate parse_dsn c =
     (if control_socket_mode c AND NOT 0x1FF \<noteq> 0 then
        Err (Invalid ''control_socket_mode must contain only Unix permission bits'')
      else if socket_mode c AND NOT 0x1FF \<noteq> 0 then
        Err (Invalid ''socket_mode must contain only Unix permission bits'')
      else if cfg_request_timeout c = 0 then
        Err (Invalid ''request_timeout must be greater than zero'')
      else if max_agent_packet_size c = 0 then
        Err (Invalid ''max_agent_packet_size must be greater than zero'')
      else if max_agent_packet_size c > 2 ^ 32 - 1 then
        Err (Invalid ''max_agent_packet_size cannot exceed the SSH-agent u32 frame length'')
      else if cfg_max_pending_requests c = 0 then
        Err (Invalid ''max_pending_requests must be greater than zero'')
      else if remote_capacity c = 0 then
        Err (Invalid ''remote_capacity must be greater than zero'')
      else
        (case validate_dsn parse_dsn ''sentry_backend_dsn'' (sentry_backend_dsn c) of
           Inl e \<Rightarrow> Err e
         | Inr _ \<Rightarrow> validate_dsn parse_dsn ''sentry_frontend_dsn'' (sentry_frontend_dsn c)))"

section \<open>Octal modes\<close>

definition is_octal :: "u8 \<Rightarrow> bool" where
  "is_octal c \<longleftrightarrow> 48 \<le> unat c \<and> unat c \<le> 55"

definition octal_value :: "nat \<Rightarrow> rstring \<Rightarrow> nat" where
  "octal_value acc cs = foldl (\<lambda>a c. a * 8 + (unat c - 48)) acc cs"

lemma octal_value_ge: "acc \<le> octal_value acc cs"
proof (induction cs arbitrary: acc)
  case (Cons c cs)
  have "acc \<le> acc * 8 + (unat c - 48)" by simp
  also have "\<dots> \<le> octal_value (acc * 8 + (unat c - 48)) cs" by (rule Cons.IH)
  finally show ?case by (simp add: octal_value_def)
qed (simp add: octal_value_def)

text \<open>The checked arithmetic overflows exactly when the number does not fit.\<close>

lemma octal_digits_iff:
  "acc < 2 ^ 32 \<Longrightarrow> octal_digits acc cs = Ok n \<longleftrightarrow> list_all is_octal cs \<and> n = octal_value acc cs \<and> n < 2 ^ 32"
proof (induction cs arbitrary: acc)
  case (Cons c cs)
  let ?a = "acc * 8 + (unat c - 48)"
  have step: "octal_value acc (c # cs) = octal_value ?a cs" by (simp add: octal_value_def)
  show ?case
  proof (cases "is_octal c \<and> ?a < 2 ^ 32")
    case True
    with Cons.IH [of ?a] show ?thesis by (auto simp: octal_digit_def is_octal_def step)
  next
    case False
    have "2 ^ 32 \<le> octal_value ?a cs" if "is_octal c" using False that octal_value_ge [of ?a cs] by simp
    with False show ?thesis by (auto simp: octal_digit_def is_octal_def step)
  qed
qed (auto simp: octal_value_def)

text \<open>
  A mode string is read as the octal number it writes. A string is accepted if and only if
  it is a non-empty sequence of octal digits, with an optional plus sign, whose value fits in
  32 bits; the result is that value, and no other string is accepted.
\<close>

lemma config_mode_is_octal:
  "deserialize_mode (ModeString s) = Ok m \<longleftrightarrow>
     (\<exists>digits. (s = digits \<or> s = 43 # digits) \<and> digits \<noteq> [] \<and> list_all is_octal digits
        \<and> octal_value 0 digits < 2 ^ 32 \<and> m = of_nat (octal_value 0 digits))"
proof -
  let ?ok = "\<lambda>digits n. digits \<noteq> [] \<and> list_all is_octal digits \<and> n = octal_value 0 digits \<and> n < 2 ^ 32"
  have digits: "octal_digits 0 cs = Ok n \<longleftrightarrow> list_all is_octal cs \<and> n = octal_value 0 cs \<and> n < 2 ^ 32" for cs n
    by (rule octal_digits_iff) simp
  have radix: "from_str_radix_8 s = Ok n \<longleftrightarrow> ?ok s n \<or> (\<exists>cs. s = 43 # cs \<and> ?ok cs n)" for n
  proof (cases s)
    case (Cons c cs)
    have "\<not> is_octal 43" "\<not> is_octal 45" by (simp_all add: is_octal_def)
    then show ?thesis
      unfolding from_str_radix_8_def Cons list.case using digits [of cs n] digits [of "c # cs" n]
      by (cases "c = 43"; cases "cs = []") (simp_all del: octal_digits.simps)
  qed (simp add: from_str_radix_8_def)
  have "deserialize_mode (ModeString s) = Ok m \<longleftrightarrow> (\<exists>n. from_str_radix_8 s = Ok n \<and> m = of_nat n)"
    by (cases "from_str_radix_8 s") auto
  also have "\<dots> \<longleftrightarrow> (\<exists>n. (?ok s n \<or> (\<exists>cs. s = 43 # cs \<and> ?ok cs n)) \<and> m = of_nat n)" by (simp only: radix)
  finally show ?thesis by metis
qed

section \<open>Validation\<close>

definition dsn_ok :: "(rstring \<Rightarrow> string + unit) \<Rightarrow> rstring option \<Rightarrow> bool" where
  "dsn_ok parse_dsn value \<longleftrightarrow> (\<forall>v. value = Some v \<longrightarrow> parse_dsn v = Ok ())"

lemma validate_iff:
  "validate parse_dsn c = Ok () \<longleftrightarrow>
     control_socket_mode c AND NOT 0x1FF = 0 \<and> socket_mode c AND NOT 0x1FF = 0
     \<and> 0 < cfg_request_timeout c \<and> 0 < max_agent_packet_size c \<and> max_agent_packet_size c < 2 ^ 32
     \<and> 0 < cfg_max_pending_requests c \<and> 0 < remote_capacity c
     \<and> dsn_ok parse_dsn (sentry_backend_dsn c) \<and> dsn_ok parse_dsn (sentry_frontend_dsn c)"
  by (auto simp: validate_def validate_dsn_def dsn_ok_def split: option.splits sum.splits)

lemma default_config_valid: "validate parse_dsn default_config = Ok ()"
  by (simp add: validate_iff dsn_ok_def default_config_def from_secs_def)

lemma extract_defaults:
  "extract_config humantime None \<lparr>ov_control_socket = None, ov_unix_socket = None, ov_request_timeout = None\<rparr> = Ok default_config"
  by (simp add: extract_config_def with_modes_def default_config_def)

end
