(* ===== verification/Broker_Model.thy ===== *)
theory Broker_Model
  imports Packet
begin

text \<open>
  \<open>broker/model.rs\<close> and the shared types of \<open>broker/mod.rs\<close>: the pure request state
  machine. \<open>apply\<close> takes the state by value and returns the new one; \<^term>\<open>None\<close> is a panic
  (the \<open>unwrap\<close> in \<open>expire\<close>, the \<open>unreachable!\<close> in the \<open>Locked\<close> event), and a rejected
  event returns its error together with the state it leaves behind.
\<close>

section \<open>State\<close>

type_synonym request_id = uuid
type_synonym session_id = uuid

datatype remote_agent_state =
    RemoteDisconnected
  | RemoteLocked session_id nat
  | RemoteReady session_id nat

fun agent_session :: "remote_agent_state \<Rightarrow> session_id option" where
  "agent_session RemoteDisconnected = None"
| "agent_session (RemoteLocked session_id _) = Some session_id"
| "agent_session (RemoteReady session_id _) = Some session_id"

datatype pending_state = Queued | InFlight session_id nat

record pending_request =
  pr_packet :: bytes
  pr_context :: "request_context option"
  pr_deadline :: instant
  pr_requested_at :: nat
  pr_deadline_timestamp :: nat
  pr_sequence :: nat
  pr_attempt :: nat
  pr_state :: pending_state

record broker_state =
  agent :: remote_agent_state
  pending :: "(request_id, pending_request) hashmap"
  queue :: "request_id list"
  max_pending_requests :: nat
  next_sequence :: nat
  wake_announced :: bool

definition broker_new :: "nat \<Rightarrow> broker_state" where
  "broker_new max_requests =
     \<lparr>agent = RemoteDisconnected, pending = [], queue = [], max_pending_requests = max_requests,
      next_sequence = 0, wake_announced = False\<rparr>"

section \<open>Events and effects\<close>

datatype event =
    EvSubmit request_id bytes "request_context option" instant nat nat
  | EvConnected session_id nat
  | EvReady session_id
  | EvLocked session_id
  | EvDisconnected session_id
  | EvResponse session_id request_id nat bytes
  | EvCancelled request_id
  | EvTick

record wake_request =
  reasons :: "rstring list"

datatype effect =
    Dispatch session_id request_id nat nat nat bytes "request_context option"
  | Cancel session_id request_id nat
  | WakeRequired wake_request
  | Complete request_id "request_error + bytes"

datatype model_error = RemoteAlreadyConnected

section \<open>Expiry\<close>

text \<open>The body of the \<open>flat_map\<close> closure, after the request left \<open>pending\<close>.\<close>

definition cancel_effects :: "request_id \<Rightarrow> pending_request \<Rightarrow> effect list" where
  "cancel_effects request_id p =
     (case pr_state p of Queued \<Rightarrow> [] | InFlight session_id attempt \<Rightarrow> [Cancel session_id request_id attempt])"

fun expire_each ::
  "(request_id \<times> nat) list \<Rightarrow> (request_id, pending_request) hashmap \<Rightarrow>
     ((request_id, pending_request) hashmap \<times> effect list) option" where
  "expire_each [] pending_map = Some (pending_map, [])"
| "expire_each ((request_id, _) # expired) pending_map =
     (case hm_get pending_map request_id of None \<Rightarrow> None
      | Some p \<Rightarrow>
          (case expire_each expired (hm_remove request_id pending_map) of None \<Rightarrow> None
           | Some (pending_map', effects) \<Rightarrow>
               Some (pending_map',
                 cancel_effects request_id p @ [Complete request_id (Err TimedOut)] @ effects)))"

definition expire :: "broker_state \<Rightarrow> instant \<Rightarrow> (broker_state \<times> effect list) option" where
  "expire s now =
     (let expired = sort_key snd (map (\<lambda>(request_id, p). (request_id, pr_sequence p))
                      (filter (\<lambda>(_, p). pr_deadline p \<le> now) (pending s)));
          expired_ids = map fst expired
      in case expire_each expired (pending s) of None \<Rightarrow> None
         | Some (pending', effects) \<Rightarrow>
             Some (s\<lparr>queue := filter (\<lambda>request_id. request_id \<notin> set expired_ids) (queue s),
                     pending := pending'\<rparr>, effects))"

section \<open>Reconciliation\<close>

fun connected_remote :: "remote_agent_state \<Rightarrow> (session_id \<times> nat) option" where
  "connected_remote RemoteDisconnected = None"
| "connected_remote (RemoteLocked session_id capacity) = Some (session_id, capacity)"
| "connected_remote (RemoteReady session_id capacity) = Some (session_id, capacity)"

fun in_flight_with :: "session_id \<Rightarrow> pending_state \<Rightarrow> bool" where
  "in_flight_with session_id Queued = False"
| "in_flight_with session_id (InFlight active _) = (active = session_id)"

definition in_flight_for :: "(request_id, pending_request) hashmap \<Rightarrow> session_id \<Rightarrow> nat" where
  "in_flight_for pending_map session_id =
     length (filter (\<lambda>(_, p). in_flight_with session_id (pr_state p)) pending_map)"

definition start_attempt :: "session_id \<Rightarrow> pending_request \<Rightarrow> pending_request" where
  "start_attempt session_id p =
     p\<lparr>pr_attempt := wrap_u32 (pr_attempt p + 1),
       pr_state := InFlight session_id (wrap_u32 (pr_attempt p + 1))\<rparr>"

definition dispatch_effect :: "session_id \<Rightarrow> request_id \<Rightarrow> pending_request \<Rightarrow> effect" where
  "dispatch_effect session_id request_id p =
     Dispatch session_id request_id (pr_attempt p) (pr_requested_at p) (pr_deadline_timestamp p)
       (pr_packet p) (pr_context p)"

text \<open>The \<open>while in_flight < capacity\<close> loop over the front of the queue.\<close>

fun dispatch_loop ::
  "session_id \<Rightarrow> nat \<Rightarrow> nat \<Rightarrow> request_id list \<Rightarrow> (request_id, pending_request) hashmap \<Rightarrow>
     request_id list \<times> (request_id, pending_request) hashmap \<times> effect list" where
  "dispatch_loop session_id capacity in_flight [] pending_map = ([], pending_map, [])"
| "dispatch_loop session_id capacity in_flight (request_id # rest) pending_map =
     (if in_flight < capacity then
        (case hm_get pending_map request_id of
           None \<Rightarrow> dispatch_loop session_id capacity in_flight rest pending_map
         | Some p \<Rightarrow>
             (let p' = start_attempt session_id p;
                  (queue', pending', effects) =
                    dispatch_loop session_id capacity (in_flight + 1) rest (hm_set request_id p' pending_map)
              in (queue', pending', dispatch_effect session_id request_id p' # effects)))
      else (request_id # rest, pending_map, []))"

definition wake_reasons :: "broker_state \<Rightarrow> rstring list" where
  "wake_reasons s =
     first_seen [] (map reason (List.map_filter
       (\<lambda>request_id. case hm_get (pending s) request_id of None \<Rightarrow> None | Some p \<Rightarrow> pr_context p)
       (queue s)))"

definition announce_wake :: "broker_state \<Rightarrow> broker_state \<times> effect list" where
  "announce_wake s =
     (if queue s = [] \<or> agent_session (agent s) \<noteq> None then (s\<lparr>wake_announced := False\<rparr>, [])
      else if \<not> wake_announced s then
        (s\<lparr>wake_announced := True\<rparr>, [WakeRequired \<lparr>reasons = wake_reasons s\<rparr>])
      else (s, []))"

definition dispatch_work :: "broker_state \<Rightarrow> broker_state \<times> effect list" where
  "dispatch_work s =
     (case connected_remote (agent s) of None \<Rightarrow> (s, [])
      | Some (session_id, capacity) \<Rightarrow>
          (let (queue', pending', effects) =
             dispatch_loop session_id capacity (in_flight_for (pending s) session_id) (queue s) (pending s)
           in (s\<lparr>queue := queue', pending := pending'\<rparr>, effects)))"

definition reconcile :: "broker_state \<Rightarrow> broker_state \<times> effect list" where
  "reconcile s =
     (let (s1, dispatches) = dispatch_work s; (s2, wakes) = announce_wake s1
      in (s2, dispatches @ wakes))"

section \<open>Events\<close>

definition requeue_session :: "broker_state \<Rightarrow> session_id \<Rightarrow> broker_state" where
  "requeue_session s session_id =
     (let requeued = map (\<lambda>(request_id, p). (request_id, pr_sequence p))
                       (filter (\<lambda>(_, p). in_flight_with session_id (pr_state p)) (pending s));
          pending' = map (\<lambda>(request_id, p).
                       (request_id, if in_flight_with session_id (pr_state p) then p\<lparr>pr_state := Queued\<rparr> else p))
                       (pending s)
      in s\<lparr>pending := pending', queue := map fst (sort_key snd requeued) @ queue s\<rparr>)"

definition submit_request ::
  "broker_state \<Rightarrow> request_id \<Rightarrow> bytes \<Rightarrow> request_context option \<Rightarrow> instant \<Rightarrow> nat \<Rightarrow> nat \<Rightarrow>
     broker_state \<times> effect list" where
  "submit_request s request_id packet context deadline requested_at deadline_timestamp =
     (if length (pending s) \<ge> max_pending_requests s then
        (s, [Complete request_id (Err QueueFull)])
      else
        (s\<lparr>next_sequence := wrap_u64 (next_sequence s + 1),
           pending := hm_insert request_id
             \<lparr>pr_packet = packet, pr_context = context, pr_deadline = deadline,
              pr_requested_at = requested_at, pr_deadline_timestamp = deadline_timestamp,
              pr_sequence = next_sequence s, pr_attempt = 0, pr_state = Queued\<rparr> (pending s),
           queue := queue s @ [request_id],
           wake_announced := False\<rparr>, []))"

definition remote_response_event ::
  "broker_state \<Rightarrow> session_id \<Rightarrow> request_id \<Rightarrow> nat \<Rightarrow> bytes \<Rightarrow> broker_state \<times> effect list" where
  "remote_response_event s session_id request_id attempt packet =
     (case hm_get (pending s) request_id of None \<Rightarrow> (s, [])
      | Some p \<Rightarrow>
          if pr_state p = InFlight session_id attempt then
            (s\<lparr>pending := hm_remove request_id (pending s)\<rparr>, [Complete request_id (Ok packet)])
          else (s, []))"

definition cancel_request :: "broker_state \<Rightarrow> request_id \<Rightarrow> broker_state \<times> effect list" where
  "cancel_request s request_id =
     (case hm_get (pending s) request_id of None \<Rightarrow> (s, [])
      | Some p \<Rightarrow>
          (s\<lparr>pending := hm_remove request_id (pending s),
             queue := filter (\<lambda>queued. queued \<noteq> request_id) (queue s)\<rparr>,
           cancel_effects request_id p @ [Complete request_id (Err Cancelled)]))"

text \<open>The \<open>match event\<close> of \<open>apply\<close>: the error returns early, before reconciliation.\<close>

fun handle_event ::
  "broker_state \<Rightarrow> event \<Rightarrow> (broker_state \<times> (model_error + effect list)) option" where
  "handle_event s (EvSubmit request_id packet context deadline requested_at deadline_timestamp) =
     (let (s', effects) =
        submit_request s request_id packet context deadline requested_at deadline_timestamp
      in Some (s', Ok effects))"
| "handle_event s (EvConnected session_id capacity) =
     (if agent s \<noteq> RemoteDisconnected then Some (s, Err RemoteAlreadyConnected)
      else Some (s\<lparr>agent := RemoteLocked session_id capacity, wake_announced := False\<rparr>, Ok []))"
| "handle_event s (EvReady session_id) =
     (case connected_remote (agent s) of None \<Rightarrow> Some (s, Ok [])
      | Some (active, capacity) \<Rightarrow>
          if active = session_id then Some (s\<lparr>agent := RemoteReady session_id capacity\<rparr>, Ok [])
          else Some (s, Ok []))"
| "handle_event s (EvLocked session_id) =
     (if agent_session (agent s) = Some session_id then
        (case agent s of
           RemoteLocked _ capacity \<Rightarrow> Some (s\<lparr>agent := RemoteLocked session_id capacity\<rparr>, Ok [])
         | RemoteReady _ capacity \<Rightarrow> Some (s\<lparr>agent := RemoteLocked session_id capacity\<rparr>, Ok [])
         | RemoteDisconnected \<Rightarrow> None)
      else Some (s, Ok []))"
| "handle_event s (EvDisconnected session_id) =
     (if agent_session (agent s) = Some session_id then
        Some ((requeue_session s session_id)\<lparr>agent := RemoteDisconnected, wake_announced := False\<rparr>, Ok [])
      else Some (s, Ok []))"
| "handle_event s (EvResponse session_id request_id attempt packet) =
     (let (s', effects) = remote_response_event s session_id request_id attempt packet
      in Some (s', Ok effects))"
| "handle_event s (EvCancelled request_id) =
     (let (s', effects) = cancel_request s request_id in Some (s', Ok effects))"
| "handle_event s EvTick = Some (s, Ok [])"

definition apply_event ::
  "broker_state \<Rightarrow> event \<Rightarrow> instant \<Rightarrow> (broker_state \<times> (model_error + effect list)) option" where
  "apply_event s e now =
     (case expire s now of None \<Rightarrow> None
      | Some (s1, expired) \<Rightarrow>
          (case handle_event s1 e of None \<Rightarrow> None
           | Some (s2, Inl err) \<Rightarrow> Some (s2, Err err)
           | Some (s2, Inr effects) \<Rightarrow>
               (let (s3, reconciled) = reconcile s2 in Some (s3, Ok (expired @ effects @ reconciled)))))"

fun min_deadline :: "instant list \<Rightarrow> instant option" where
  "min_deadline [] = None"
| "min_deadline (d # ds) =
     (case min_deadline ds of None \<Rightarrow> Some d | Some m \<Rightarrow> Some (min d m))"

definition next_deadline :: "broker_state \<Rightarrow> instant option" where
  "next_deadline s = min_deadline (map (\<lambda>(_, p). pr_deadline p) (pending s))"

end
