(* ===== verification/Push.thy ===== *)
theory Push
  imports Pairing Broker_Model Socket_File "HOL-Library.Sublist"
begin

unbundle bit_operations_syntax

text \<open>
  \<open>push.rs\<close>: the key that authenticates the server to push services, and the delivery of
  wake-up notifications. The curve arithmetic (\<open>p256\<close>), the JSON encoder and the push client
  are parameters.
\<close>

section \<open>The key file\<close>

definition PRIVATE_KEY_LENGTH :: nat where "PRIVATE_KEY_LENGTH = 32"

text \<open>\<open>0o600\<close>.\<close>

definition PRIVATE_KEY_MODE :: "32 word" where "PRIVATE_KEY_MODE = 0x180"

text \<open>\<open>SecretKey::from_slice\<close>, \<open>to_bytes\<close> and the uncompressed point of the public key.\<close>

record 'key p256_lib =
  from_slice :: "bytes \<Rightarrow> 'key option"
  to_bytes :: "'key \<Rightarrow> bytes"
  public_point :: "'key \<Rightarrow> bytes"

record key_file =
  kf_bytes :: bytes
  kf_mode :: "32 word"

datatype key_call =
    KcRead | KcMetadata | KcCreateDirAll | KcOpen | KcWrite | KcSync | KcRemove | KcOpenParent | KcSyncParent

text \<open>
  The environment: which calls fail, how much a failing write leaves behind, the umask, what
  another process puts at the path before the file is created, and the random source, a
  sequence of draws that may fail.
\<close>

record key_env =
  ke_fails :: "key_call \<Rightarrow> bool"
  ke_written :: nat
  ke_umask :: "32 word"
  ke_other :: "key_file option"
  ke_random :: "bytes option list"

datatype key_error =
    KeyUnreadable | KeyUninspectable | KeyMode | KeyLength | KeyScalar | KeyNoParent | KeyDirectory | KeyRandom
  | KeyDisappeared | KeyUncreated | KeyUnpersisted | KeyParentUnsynced

definition decode_key :: "'key p256_lib \<Rightarrow> bytes \<Rightarrow> key_error + 'key" where
  "decode_key lib bs =
     (if length bs \<noteq> PRIVATE_KEY_LENGTH then Err KeyLength
      else (case from_slice lib bs of None \<Rightarrow> Err KeyScalar | Some key \<Rightarrow> Ok key))"

definition load_key :: "'key p256_lib \<Rightarrow> key_env \<Rightarrow> key_file option \<Rightarrow> key_error + 'key option" where
  "load_key lib env file =
     (if ke_fails env KcRead then Err KeyUnreadable
      else (case file of None \<Rightarrow> Ok None
            | Some f \<Rightarrow>
                if ke_fails env KcMetadata then Err KeyUninspectable
                else if kf_mode f AND 0x3F \<noteq> 0 then Err KeyMode
                else (case decode_key lib (kf_bytes f) of Inl e \<Rightarrow> Err e | Inr key \<Rightarrow> Ok (Some key))))"

text \<open>\<open>generate\<close> draws until a scalar is valid; \<^term>\<open>None\<close> when the given draws are used up.\<close>

fun generate_key :: "'key p256_lib \<Rightarrow> bytes option list \<Rightarrow> (key_error + 'key) option" where
  "generate_key lib [] = None"
| "generate_key lib (None # draws) = Some (Err KeyRandom)"
| "generate_key lib (Some bs # draws) =
     (case from_slice lib bs of Some key \<Rightarrow> Some (Ok key) | None \<Rightarrow> generate_key lib draws)"

text \<open>\<open>create_new\<close> fails if a file has appeared; the file is then loaded.\<close>

definition create_key ::
  "'key p256_lib \<Rightarrow> key_env \<Rightarrow> path \<Rightarrow> key_file option \<Rightarrow> (key_file option \<times> (key_error + 'key)) option" where
  "create_key lib env p file =
     (case parent p of
        None \<Rightarrow> Some (file, Err KeyNoParent)
      | Some q \<Rightarrow>
          if q = (False, []) then Some (file, Err KeyNoParent)
          else if ke_fails env KcCreateDirAll then Some (file, Err KeyDirectory)
          else
            (case generate_key lib (ke_random env) of
               None \<Rightarrow> None
             | Some (Inl e) \<Rightarrow> Some (file, Err e)
             | Some (Inr key) \<Rightarrow>
                 (let file = (case ke_other env of None \<Rightarrow> file | Some f \<Rightarrow> Some f) in
                  if file \<noteq> None then
                    Some (file, case load_key lib env file of
                                  Inl e \<Rightarrow> Err e | Inr None \<Rightarrow> Err KeyDisappeared | Inr (Some key) \<Rightarrow> Ok key)
                  else if ke_fails env KcOpen then Some (file, Err KeyUncreated)
                  else
                    (let bs = to_bytes lib key; mode = PRIVATE_KEY_MODE AND NOT (ke_umask env);
                         written = (if ke_fails env KcWrite then take (ke_written env) bs else bs);
                         created = Some \<lparr>kf_bytes = written, kf_mode = mode\<rparr>
                     in if ke_fails env KcWrite \<or> ke_fails env KcSync
                        then Some (if ke_fails env KcRemove then created else None, Err KeyUnpersisted)
                        else if ke_fails env KcOpenParent \<or> ke_fails env KcSyncParent
                        then Some (created, Err KeyParentUnsynced)
                        else Some (created, Ok key)))))"

definition open_key ::
  "'key p256_lib \<Rightarrow> key_env \<Rightarrow> path \<Rightarrow> key_file option \<Rightarrow> (key_file option \<times> (key_error + 'key)) option" where
  "open_key lib env p file =
     (case load_key lib env file of
        Inl e \<Rightarrow> Some (file, Err e)
      | Inr (Some key) \<Rightarrow> Some (file, Ok key)
      | Inr None \<Rightarrow> create_key lib env p file)"

section \<open>Notifications\<close>

text \<open>\<open>"Signing request"\<close>, \<open>"A server is requesting SSH authentication."\<close> as UTF-8.\<close>

definition NOTIFICATION_TITLE :: rstring where
  "NOTIFICATION_TITLE = map of_char ''Signing request''"

definition NOTIFICATION_BODY :: rstring where
  "NOTIFICATION_BODY = map of_char ''A server is requesting SSH authentication.''"

text \<open>A \<open>usize\<close> in decimal, as \<open>format!\<close> writes it.\<close>

fun decimal :: "nat \<Rightarrow> rstring" where
  "decimal n = (if n < 10 then [of_nat (48 + n)] else decimal (n div 10) @ [of_nat (48 + n mod 10)])"

declare decimal.simps [simp del]

definition notification_body :: "rstring list \<Rightarrow> rstring" where
  "notification_body rs =
     (case rs of [] \<Rightarrow> NOTIFICATION_BODY
      | r # rest \<Rightarrow>
          if length rs = 1 then r
          else r @ [32, 40] @ decimal (length rs - 1) @ [0xC3, 0x97] @ map of_char '' more)'')"

definition notification_payload :: "(rstring \<times> rstring \<Rightarrow> bytes option) \<Rightarrow> rstring list \<Rightarrow> unit + bytes" where
  "notification_payload json rs =
     (case json (NOTIFICATION_TITLE, notification_body rs) of None \<Rightarrow> Err () | Some bs \<Rightarrow> Ok bs)"

definition push_ttl :: "duration \<Rightarrow> nat" where
  "push_ttl request_timeout =
     (let secs = request_timeout div 1000000000 in if secs < 2 ^ 32 then secs else 2 ^ 32 - 1)"

definition public_key :: "'key p256_lib \<Rightarrow> 'key \<Rightarrow> bytes" where
  "public_key key_lib vapid = public_point key_lib vapid"

text \<open>\<open>base64\<close> is the encoding for URLs, without padding.\<close>

definition encoded_private_key :: "(bytes \<Rightarrow> rstring) \<Rightarrow> 'key p256_lib \<Rightarrow> 'key \<Rightarrow> rstring" where
  "encoded_private_key base64 key_lib vapid = base64 (to_bytes key_lib vapid)"

text \<open>
  What is handed to the push client: the subscription, the key, the time to live and the
  payload; \<open>pl_sign\<close> is the VAPID signature and \<open>pl_build\<close> the construction of the message.
\<close>

record ('sig, 'msg) push_lib =
  pl_json :: "rstring \<times> rstring \<Rightarrow> bytes option"
  pl_base64 :: "bytes \<Rightarrow> rstring"
  pl_sign :: "rstring \<Rightarrow> rstring \<times> rstring \<times> rstring \<Rightarrow> 'sig option"
  pl_build :: "rstring \<times> rstring \<times> rstring \<Rightarrow> nat \<Rightarrow> bytes \<Rightarrow> 'sig \<Rightarrow> 'msg option"

datatype push_error = PushSign | PushPayload | PushBuild | PushTimedOut | PushRejected

definition build_notification ::
  "('sig, 'msg) push_lib \<Rightarrow> 'key p256_lib \<Rightarrow> push_subscription \<Rightarrow> 'key \<Rightarrow> nat \<Rightarrow> rstring list \<Rightarrow> push_error + 'msg" where
  "build_notification lib key_lib subscription vapid ttl rs =
     (let info = (endpoint subscription, p256dh subscription, auth subscription) in
      case pl_sign lib (encoded_private_key (pl_base64 lib) key_lib vapid) info of None \<Rightarrow> Err PushSign
      | Some signature \<Rightarrow>
          (case notification_payload (pl_json lib) rs of Inl _ \<Rightarrow> Err PushPayload
           | Inr payload \<Rightarrow>
               (case pl_build lib info ttl payload signature of None \<Rightarrow> Err PushBuild | Some message \<Rightarrow> Ok message)))"

text \<open>
  \<open>publish\<close>: the message handed to the push client, if any, and the result. \<open>answer\<close> is what the
  push client answers: nothing within the timeout, or whether it accepted.
\<close>

definition publish ::
  "('sig, 'msg) push_lib \<Rightarrow> 'key p256_lib \<Rightarrow> 'st pairing_service \<Rightarrow> 'key \<Rightarrow> nat \<Rightarrow> wake_request \<Rightarrow> ('msg \<Rightarrow> bool option) \<Rightarrow>
     'msg option \<times> (push_error + bool)" where
  "publish lib key_lib sv vapid ttl request answer =
     (case push_subscription_of sv of None \<Rightarrow> (None, Ok False)
      | Some subscription \<Rightarrow>
          (case build_notification lib key_lib subscription vapid ttl (reasons request) of
             Inl e \<Rightarrow> (None, Err e)
           | Inr message \<Rightarrow>
               (Some message,
                case answer message of None \<Rightarrow> Err PushTimedOut
                | Some accepted \<Rightarrow> if accepted then Ok True else Err PushRejected)))"

section \<open>The delivery loop\<close>

text \<open>
  \<open>serve\<close>: it waits for a wake request, sleeps, takes everything that has arrived meanwhile,
  and publishes the last of it. New requests may be sent at any time.
\<close>

datatype push_phase = Receiving | Sleeping wake_request | Publishing wake_request | Stopped

record push_loop =
  pw_queue :: "wake_request list"
  pw_sender_open :: bool
  pw_phase :: push_phase

datatype push_event = WakeSent wake_request | SenderDropped | Received | Slept | Published wake_request

definition push_init :: push_loop where
  "push_init = \<lparr>pw_queue = [], pw_sender_open = True, pw_phase = Receiving\<rparr>"

inductive push_step :: "push_loop \<Rightarrow> push_event \<Rightarrow> push_loop \<Rightarrow> bool" where
  wake_sent: "pw_sender_open l \<Longrightarrow> push_step l (WakeSent request) (l\<lparr>pw_queue := pw_queue l @ [request]\<rparr>)"
| sender_dropped: "push_step l SenderDropped (l\<lparr>pw_sender_open := False\<rparr>)"
| received: "pw_phase l = Receiving \<Longrightarrow> pw_queue l = request # rest \<Longrightarrow>
    push_step l Received (l\<lparr>pw_queue := rest, pw_phase := Sleeping request\<rparr>)"
| received_end: "pw_phase l = Receiving \<Longrightarrow> pw_queue l = [] \<Longrightarrow> \<not> pw_sender_open l \<Longrightarrow>
    push_step l Received (l\<lparr>pw_phase := Stopped\<rparr>)"
| slept: "pw_phase l = Sleeping request \<Longrightarrow>
    push_step l Slept (l\<lparr>pw_queue := [], pw_phase := Publishing (last (request # pw_queue l))\<rparr>)"
| published: "pw_phase l = Publishing request \<Longrightarrow> push_step l (Published request) (l\<lparr>pw_phase := Receiving\<rparr>)"

fun sent_wakes :: "push_event list \<Rightarrow> wake_request list" where
  "sent_wakes [] = []"
| "sent_wakes (WakeSent request # es) = request # sent_wakes es"
| "sent_wakes (_ # es) = sent_wakes es"

fun published_wakes :: "push_event list \<Rightarrow> wake_request list" where
  "published_wakes [] = []"
| "published_wakes (Published request # es) = request # published_wakes es"
| "published_wakes (_ # es) = published_wakes es"

text \<open>The request in hand, and all requests that are still to be dealt with.\<close>

fun in_hand :: "push_phase \<Rightarrow> wake_request list" where
  "in_hand (Sleeping request) = [request]"
| "in_hand (Publishing request) = [request]"
| "in_hand _ = []"

abbreviation backlog :: "push_loop \<Rightarrow> wake_request list" where
  "backlog l \<equiv> in_hand (pw_phase l) @ pw_queue l"

text \<open>
  What a run from \<open>l\<close> publishes is chosen, in order, from the backlog and what is sent, and
  the newest of these is published or still in the backlog at the end.
\<close>

lemma subseq_last: "subseq (last (x # xs) # ys) (x # xs @ ys)"
proof (cases xs rule: rev_cases)
  case (snoc zs z)
  have "subseq (z # ys) ((x # zs) @ z # ys)" by (rule list_emb_append2) simp
  then show ?thesis by (simp add: snoc)
qed simp

lemma push_step_progress:
  assumes "push_step l e l'"
  shows "subseq (published_wakes [e] @ backlog l') (backlog l @ sent_wakes [e])"
    and "backlog l @ sent_wakes [e] \<noteq> [] \<Longrightarrow>
      published_wakes [e] @ backlog l' \<noteq> [] \<and> last (published_wakes [e] @ backlog l') = last (backlog l @ sent_wakes [e])"
proof -
  have "subseq (published_wakes [e] @ backlog l') (backlog l @ sent_wakes [e])
      \<and> (backlog l @ sent_wakes [e] \<noteq> [] \<longrightarrow>
        published_wakes [e] @ backlog l' \<noteq> [] \<and> last (published_wakes [e] @ backlog l') = last (backlog l @ sent_wakes [e]))"
    using assms
  proof (cases rule: push_step.cases)
    case (slept request)
    then show ?thesis using subseq_last [of request "pw_queue l" "[]"] by simp
  qed auto
  then show "subseq (published_wakes [e] @ backlog l') (backlog l @ sent_wakes [e])"
    and "backlog l @ sent_wakes [e] \<noteq> [] \<Longrightarrow>
      published_wakes [e] @ backlog l' \<noteq> [] \<and> last (published_wakes [e] @ backlog l') = last (backlog l @ sent_wakes [e])"
    by blast+
qed

lemma events_Cons:
  "sent_wakes (e # es) = sent_wakes [e] @ sent_wakes es" "published_wakes (e # es) = published_wakes [e] @ published_wakes es"
  by (cases e; simp)+

lemma subseq_chain:
  assumes "subseq a (b @ c)" and "subseq (p @ b) q"
  shows "subseq (p @ a) (q @ c)"
proof -
  have "subseq (p @ a) (p @ (b @ c))" by (rule list_emb_append_mono [OF subseq_order.refl assms(1)])
  also have "p @ (b @ c) = (p @ b) @ c" by simp
  also have "subseq ((p @ b) @ c) (q @ c)" by (rule list_emb_append_mono [OF assms(2) subseq_order.refl])
  finally show ?thesis .
qed

lemma last_chain:
  assumes "b @ c \<noteq> [] \<longrightarrow> a \<noteq> [] \<and> last a = last (b @ c)" and "q \<noteq> [] \<longrightarrow> p @ b \<noteq> [] \<and> last (p @ b) = last q"
    and "b @ c = [] \<longrightarrow> a = []"
  shows "q @ c \<noteq> [] \<longrightarrow> p @ a \<noteq> [] \<and> last (p @ a) = last (q @ c)"
  using assms by (cases "b = []"; cases "c = []") (auto simp: last_append split: if_splits)

lemma push_run_progress:
  assumes "runs push_step l es l'"
  shows "subseq (published_wakes es @ backlog l') (backlog l @ sent_wakes es)
    \<and> (backlog l @ sent_wakes es \<noteq> [] \<longrightarrow>
         published_wakes es @ backlog l' \<noteq> [] \<and> last (published_wakes es @ backlog l') = last (backlog l @ sent_wakes es))"
  using assms
proof (induction rule: runs.induct)
  case (runs_Cons l e m es l')
  note step = push_step_progress [OF runs_Cons.hyps(1)]
  note sub = conjunct1 [OF runs_Cons.IH] and latest = conjunct2 [OF runs_Cons.IH]
  have none: "backlog m @ sent_wakes es = [] \<longrightarrow> published_wakes es @ backlog l' = []" using sub by (metis list_emb_Nil2)
  show ?case
    using subseq_chain [OF sub step(1)] last_chain [OF latest impI [OF step(2)] none]
    unfolding events_Cons [of e es] append_assoc by (rule conjI)
qed simp

section \<open>Properties\<close>

text \<open>
  Bursts of wake-ups are coalesced and the newest is never lost. Along any run of the
  delivery loop, the wake requests that were published are a subsequence of those sent, so
  none is invented, repeated or reordered; and whenever the loop waits with an empty channel,
  the newest request sent is the last one it published.
\<close>

lemma push_publishes_newest:
  assumes "runs push_step push_init es l"
  shows "subseq (published_wakes es) (sent_wakes es)
    \<and> (pw_phase l = Receiving \<and> pw_queue l = [] \<and> sent_wakes es \<noteq> [] \<longrightarrow>
         published_wakes es \<noteq> [] \<and> last (published_wakes es) = last (sent_wakes es))"
proof -
  have start: "backlog push_init = []" by (simp add: push_init_def)
  note run = push_run_progress [OF assms, unfolded start append_Nil]
  from conjunct1 [OF run] have "subseq (published_wakes es) (sent_wakes es)"
    by (rule subseq_order.trans [rotated]) (use list_emb_append_mono [of "(=)" "published_wakes es" "published_wakes es" "[]" "backlog l"] in simp)
  with conjunct2 [OF run] show ?thesis by auto
qed

lemma load_keyD:
  "load_key lib env x = Ok (Some key) \<Longrightarrow> \<exists>f. x = Some f \<and> kf_mode f AND 0x3F = 0 \<and> decode_key lib (kf_bytes f) = Ok key"
  "load_key lib env x = Ok None \<Longrightarrow> x = None"
  by (auto simp: load_key_def split: if_splits option.splits sum.splits)

lemma create_key_OkE:
  assumes "create_key lib env p x = Some (x', Ok key)"
  obtains (found) "load_key lib env x' = Ok (Some key)"
  | (created) "x' = Some \<lparr>kf_bytes = to_bytes lib key, kf_mode = PRIVATE_KEY_MODE AND NOT (ke_umask env)\<rparr>"
  using assms by (auto simp: create_key_def Let_def split: option.splits sum.splits if_splits)

lemma open_key_OkE:
  assumes "open_key lib env p x = Some (x', Ok key)"
  obtains (found) "load_key lib env x' = Ok (Some key)" and "x \<noteq> None \<longrightarrow> x' = x"
  | (created) "x = None" and "x' = Some \<lparr>kf_bytes = to_bytes lib key, kf_mode = PRIVATE_KEY_MODE AND NOT (ke_umask env)\<rparr>"
proof (cases "load_key lib env x")
  case (Inr r)
  show thesis
  proof (cases r)
    case None
    with Inr assms have "create_key lib env p x = Some (x', Ok key)" "x = None" by (auto simp: open_key_def dest: load_keyD)
    then show thesis by (cases rule: create_key_OkE) (auto intro: that)
  qed (use Inr assms that(1) in \<open>auto simp: open_key_def\<close>)
qed (use assms in \<open>simp add: open_key_def\<close>)

text \<open>
  C39: the push key is created once and then kept. If the curve library reads back the bytes
  it writes, a key that \<open>open\<close> returned is in the file, with a mode that gives nothing to
  group or others; every later \<open>open\<close> that can read the file returns the same key and leaves
  the file alone, whatever its random source; and an existing file is never written.
\<close>

theorem push_key_is_stable:
  assumes "\<forall>key. from_slice lib (to_bytes lib key) = Some key" and "\<forall>key. length (to_bytes lib key) = PRIVATE_KEY_LENGTH"
    and "open_key lib env p file = Some (file', Ok key)"
  shows "(\<exists>f. file' = Some f \<and> kf_mode f AND 0x3F = 0 \<and> decode_key lib (kf_bytes f) = Ok key)
    \<and> (file \<noteq> None \<longrightarrow> file' = file)
    \<and> (\<forall>env2 p2. \<not> ke_fails env2 KcRead \<and> \<not> ke_fails env2 KcMetadata \<longrightarrow> open_key lib env2 p2 file' = Some (file', Ok key))"
proof -
  have mode: "(PRIVATE_KEY_MODE AND NOT u) AND 0x3F = 0" for u
    by (simp add: PRIVATE_KEY_MODE_def and.commute and.left_commute)
  have dec: "decode_key lib (to_bytes lib k) = Ok k" for k using assms(1,2) by (simp add: decode_key_def)
  from assms(3) obtain f where f: "file' = Some f" "kf_mode f AND 0x3F = 0" "decode_key lib (kf_bytes f) = Ok key"
    by (cases rule: open_key_OkE) (auto dest: load_keyD simp: dec mode)
  from assms(3) have old: "file \<noteq> None \<longrightarrow> file' = file" by (cases rule: open_key_OkE) auto
  have "open_key lib env2 p2 file' = Some (file', Ok key)" if "\<not> ke_fails env2 KcRead \<and> \<not> ke_fails env2 KcMetadata" for env2 p2
    using that f by (simp add: open_key_def load_key_def)
  with f old show ?thesis by blast
qed

text \<open>A library with one-byte keys, padded to the length of a scalar.\<close>

definition ex_p256 :: "u8 p256_lib" where
  "ex_p256 = \<lparr>from_slice = (\<lambda>bs. if bs = replicate 31 0 @ [last bs] then Some (last bs) else None),
     to_bytes = (\<lambda>key. replicate 31 0 @ [key]), public_point = (\<lambda>key. [4, key])\<rparr>"

definition ex_key_env :: key_env where
  "ex_key_env = \<lparr>ke_fails = (\<lambda>_. False), ke_written = 0, ke_umask = 0x12, ke_other = None,
     ke_random = [Some [1, 2], Some (replicate 31 0 @ [9])]\<rparr>"

theorem push_key_is_stable_witness:
  "\<exists>file'. open_key ex_p256 ex_key_env (True, [''var'', ''vapid.key'']) None = Some (file', Ok 9)
    \<and> open_key ex_p256 (ex_key_env\<lparr>ke_random := []\<rparr>) (True, [''var'', ''vapid.key'']) file' = Some (file', Ok 9)"
proof -
  have laws: "\<forall>key. from_slice ex_p256 (to_bytes ex_p256 key) = Some key" "\<forall>key. length (to_bytes ex_p256 key) = PRIVATE_KEY_LENGTH"
    by (simp_all add: ex_p256_def PRIVATE_KEY_LENGTH_def)
  obtain file' where run: "open_key ex_p256 ex_key_env (True, [''var'', ''vapid.key'']) None = Some (file', Ok 9)"
    by (simp add: open_key_def load_key_def create_key_def ex_key_env_def ex_p256_def Let_def numeral_eq_Suc)
  have "\<not> ke_fails (ex_key_env\<lparr>ke_random := []\<rparr>) KcRead \<and> \<not> ke_fails (ex_key_env\<lparr>ke_random := []\<rparr>) KcMetadata"
    by (simp add: ex_key_env_def)
  with push_key_is_stable [OF laws run] run show ?thesis by blast
qed

end
