(* ===== verification/Assets.thy ===== *)
theory Assets
  imports Push
begin

text \<open>
  \<open>web/assets.rs\<close>: the embedded web application with validators for conditional requests. The
  embedded files, SHA-256, the media types, the JSON encoder and the conversion of a header
  value to text are parameters.
\<close>

section \<open>Text\<close>

abbreviation text_of :: "string \<Rightarrow> rstring" where "text_of s \<equiv> map of_char s"

text \<open>\<open>str::split(',')\<close>.\<close>

fun split_on :: "u8 \<Rightarrow> rstring \<Rightarrow> rstring list" where
  "split_on sep [] = [[]]"
| "split_on sep (c # cs) =
     (if c = sep then [] # split_on sep cs
      else (case split_on sep cs of [] \<Rightarrow> [[c]] | part # parts \<Rightarrow> (c # part) # parts))"

text \<open>
  \<open>str::trim\<close>. The text of a header value is visible ASCII, blanks and tabs, so the white
  space of Unicode beyond ASCII does not occur.
\<close>

definition ascii_space :: "u8 \<Rightarrow> bool" where
  "ascii_space c \<longleftrightarrow> c = 32 \<or> 9 \<le> unat c \<and> unat c \<le> 13"

definition trim :: "rstring \<Rightarrow> rstring" where
  "trim s = rev (dropWhile ascii_space (rev (dropWhile ascii_space s)))"

text \<open>\<open>trim_start_matches("W/")\<close> removes every leading occurrence.\<close>

fun strip_weak :: "rstring \<Rightarrow> rstring" where
  "strip_weak (a # b # rest) = (if a = 87 \<and> b = 47 then strip_weak rest else a # b # rest)"
| "strip_weak s = s"

definition starts_with :: "rstring \<Rightarrow> rstring \<Rightarrow> bool" where
  "starts_with pattern s \<longleftrightarrow> take (length pattern) s = pattern"

text \<open>\<open>replacen(pattern, value, 1)\<close> for a non-empty pattern.\<close>

fun replace_first :: "rstring \<Rightarrow> rstring \<Rightarrow> rstring \<Rightarrow> rstring" where
  "replace_first pattern value [] = []"
| "replace_first pattern value (c # cs) =
     (if starts_with pattern (c # cs) then value @ drop (length pattern) (c # cs)
      else c # replace_first pattern value cs)"

section \<open>Responses\<close>

definition IMMUTABLE_CACHE :: rstring where "IMMUTABLE_CACHE = text_of ''public, max-age=31536000, immutable''"

definition REVALIDATE_CACHE :: rstring where "REVALIDATE_CACHE = text_of ''no-cache''"

text \<open>The quoted placeholder of the page.\<close>

definition SENTRY_DSN_PLACEHOLDER :: rstring where
  "SENTRY_DSN_PLACEHOLDER = [34] @ text_of ''__AGENT_WITNESS_SENTRY_DSN__'' @ [34]"

record http_response =
  rs_status :: nat
  rs_body :: bytes
  rs_headers :: "(string, rstring) hashmap"

definition hex_digit :: "nat \<Rightarrow> u8" where
  "hex_digit n = of_nat (if n < 10 then 48 + n else 87 + n)"

text \<open>\<open>etag\<close> and \<open>etag_bytes\<close>: the hash in lower-case hexadecimal, quoted.\<close>

definition etag :: "bytes \<Rightarrow> rstring" where
  "etag hash = [34] @ concat (map (\<lambda>b. [hex_digit (unat b div 16), hex_digit (unat b mod 16)]) hash) @ [34]"

definition etag_bytes :: "(bytes \<Rightarrow> bytes) \<Rightarrow> bytes \<Rightarrow> rstring" where
  "etag_bytes sha256 bs = etag (sha256 bs)"

definition matches_etag :: "(bytes \<Rightarrow> rstring option) \<Rightarrow> bytes option \<Rightarrow> rstring \<Rightarrow> bool" where
  "matches_etag to_str if_none_match tag =
     (case if_none_match of None \<Rightarrow> False
      | Some value \<Rightarrow>
          (case to_str value of None \<Rightarrow> False
           | Some s \<Rightarrow>
               list_ex (\<lambda>candidate. let c = trim candidate in c = [42] \<or> strip_weak c = tag) (split_on 44 s)))"

definition response :: "nat \<Rightarrow> bytes \<Rightarrow> rstring \<Rightarrow> rstring \<Rightarrow> http_response" where
  "response status body cache_control tag =
     \<lparr>rs_status = status, rs_body = body,
      rs_headers = hm_insert ''x-content-type-options'' (text_of ''nosniff'')
        (hm_insert ''etag'' tag (hm_insert ''cache-control'' cache_control []))\<rparr>"

record web_lib =
  wl_asset :: "rstring \<Rightarrow> (bytes \<times> bytes) option"
  wl_sha256 :: "bytes \<Rightarrow> bytes"
  wl_mime :: "rstring \<Rightarrow> rstring"
  wl_json :: "rstring option \<Rightarrow> rstring"
  wl_to_str :: "bytes \<Rightarrow> rstring option"

definition serve_data ::
  "web_lib \<Rightarrow> rstring \<Rightarrow> bytes \<Rightarrow> rstring \<Rightarrow> bytes option \<Rightarrow> rstring \<Rightarrow> http_response" where
  "serve_data lib name body cache_control if_none_match tag =
     (if matches_etag (wl_to_str lib) if_none_match tag then response 304 [] cache_control tag
      else
        (let r = response 200 body cache_control tag in
         r\<lparr>rs_headers := hm_insert ''content-length'' (decimal (length body))
              (hm_insert ''content-type'' (wl_mime lib name) (rs_headers r))\<rparr>))"

definition not_found :: http_response where
  "not_found = \<lparr>rs_status = 404, rs_body = [], rs_headers = []\<rparr>"

definition serve_asset :: "web_lib \<Rightarrow> rstring \<Rightarrow> rstring \<Rightarrow> bytes option \<Rightarrow> http_response" where
  "serve_asset lib name cache_control if_none_match =
     (case wl_asset lib name of None \<Rightarrow> not_found
      | Some (body, hash) \<Rightarrow> serve_data lib name body cache_control if_none_match (etag hash))"

text \<open>\<open>index\<close>: a page that is not UTF-8 makes it panic.\<close>

definition escape_lt :: "rstring \<Rightarrow> rstring" where
  "escape_lt s = concat (map (\<lambda>c. if c = 60 then [92] @ text_of ''u003c'' else [c]) s)"

definition index_page :: "web_lib \<Rightarrow> rstring option \<Rightarrow> bytes \<Rightarrow> bytes" where
  "index_page lib dsn page = replace_first SENTRY_DSN_PLACEHOLDER (escape_lt (wl_json lib dsn)) page"

definition index :: "web_lib \<Rightarrow> rstring option \<Rightarrow> bytes option \<Rightarrow> http_response option" where
  "index lib dsn if_none_match =
     (case wl_asset lib (text_of ''index.html'') of None \<Rightarrow> Some not_found
      | Some (page, _) \<Rightarrow>
          if \<not> utf8_valid page then None
          else
            (let body = index_page lib dsn page; tag = etag_bytes (wl_sha256 lib) body in
             Some (serve_data lib (text_of ''index.html'') body REVALIDATE_CACHE if_none_match tag)))"

definition manifest :: "web_lib \<Rightarrow> bytes option \<Rightarrow> http_response" where
  "manifest lib = serve_asset lib (text_of ''manifest.webmanifest'') REVALIDATE_CACHE"

definition service_worker :: "web_lib \<Rightarrow> bytes option \<Rightarrow> http_response" where
  "service_worker lib = serve_asset lib (text_of ''service-worker.js'') REVALIDATE_CACHE"

definition asset :: "web_lib \<Rightarrow> rstring \<Rightarrow> bytes option \<Rightarrow> http_response" where
  "asset lib name = serve_asset lib (text_of ''assets/'' @ name) IMMUTABLE_CACHE"

section \<open>Validators\<close>

text \<open>The characters of an entity tag: quotes and hexadecimal digits.\<close>

definition tag_char :: "u8 \<Rightarrow> bool" where
  "tag_char c \<longleftrightarrow> c = 34 \<or> 48 \<le> unat c \<and> unat c \<le> 57 \<or> 97 \<le> unat c \<and> unat c \<le> 102"

lemma hex_digit_tag: "n < 16 \<Longrightarrow> tag_char (hex_digit n)"
  by (simp add: tag_char_def hex_digit_def unat_of_nat_u8)

lemma etag_chars: "list_all tag_char (etag hash)"
proof -
  have "tag_char (hex_digit (unat b div 16))" "tag_char (hex_digit (unat b mod 16))" for b :: u8
    using unat_u8_less [of b] by (simp_all add: hex_digit_tag)
  then show ?thesis by (simp add: etag_def list_all_iff) (simp add: tag_char_def)
qed

lemma split_on_none: "sep \<notin> set s \<Longrightarrow> split_on sep s = [s]"
  by (induction s) auto

lemma trim_id: "\<forall>c \<in> set s. \<not> ascii_space c \<Longrightarrow> trim s = s"
proof -
  have keep: "dropWhile ascii_space s = s" if "\<forall>c \<in> set s. \<not> ascii_space c" for s using that by (cases s) auto
  assume plain: "\<forall>c \<in> set s. \<not> ascii_space c"
  then have "dropWhile ascii_space (rev s) = rev s" by (intro keep) simp
  with keep [OF plain] show "trim s = s" by (simp add: trim_def)
qed

lemma tag_char_plain: "tag_char c \<Longrightarrow> \<not> ascii_space c \<and> c \<noteq> 44"
  by (auto simp: tag_char_def ascii_space_def)

lemma etag_plain: "44 \<notin> set (etag hash)" "\<forall>c \<in> set (etag hash). \<not> ascii_space c" "strip_weak (etag hash) = etag hash"
proof -
  have "\<forall>c \<in> set (etag hash). tag_char c" using etag_chars by (simp add: list_all_iff)
  then show "44 \<notin> set (etag hash)" "\<forall>c \<in> set (etag hash). \<not> ascii_space c" using tag_char_plain by blast+
  obtain x xs where "concat (map (\<lambda>b. [hex_digit (unat b div 16), hex_digit (unat b mod 16)]) hash) @ [34] = x # xs"
    by (cases "concat (map (\<lambda>b. [hex_digit (unat b div 16), hex_digit (unat b mod 16)]) hash)") auto
  then show "strip_weak (etag hash) = etag hash" by (simp add: etag_def)
qed

lemma matches_own_etag:
  assumes "to_str value = Some (weak @ etag hash)" and "weak = [] \<or> weak = [87, 47]"
  shows "matches_etag to_str (Some value) (etag hash)"
proof -
  have ws: "\<not> ascii_space 87" "\<not> ascii_space 47" by (simp_all add: ascii_space_def)
  have "trim (weak @ etag hash) = weak @ etag hash" using assms(2) etag_plain(2) ws by (intro trim_id) auto
  moreover have "strip_weak (weak @ etag hash) = etag hash" using assms(2) etag_plain(3) by auto
  moreover have "split_on 44 (weak @ etag hash) = [weak @ etag hash]"
    using assms(2) etag_plain(1) by (intro split_on_none) auto
  ultimately show ?thesis by (simp add: matches_etag_def assms(1))
qed

section \<open>Properties\<close>

text \<open>
  Conditional requests work. Every answer for an embedded file carries its entity tag; a
  client that sends this tag back, strong or weak, is told that nothing changed, without a
  body; and an answer that is not such a notice is the whole file with its length. The only
  assumption is that header text consisting of the characters of a tag reads as itself.
\<close>

lemma asset_revalidation:
  assumes "wl_asset lib name = Some (body, hash)"
    and "\<forall>s. list_all (\<lambda>c. 33 \<le> unat c \<and> unat c \<le> 126) s \<longrightarrow> wl_to_str lib s = Some s"
    and "weak = [] \<or> weak = [87, 47]"
  shows "hm_get (rs_headers (serve_asset lib name cache_control header)) ''etag'' = Some (etag hash)
    \<and> serve_asset lib name cache_control (Some (weak @ etag hash)) = response 304 [] cache_control (etag hash)
    \<and> (let r = serve_asset lib name cache_control header in
        rs_status r = 304 \<and> rs_body r = []
        \<or> rs_status r = 200 \<and> rs_body r = body \<and> hm_get (rs_headers r) ''content-length'' = Some (decimal (length body)))"
proof -
  have "33 \<le> unat c \<and> unat c \<le> 126" if "c \<in> set (weak @ etag hash)" for c
    using that assms(3) etag_chars [of hash] by (auto simp: list_all_iff tag_char_def)
  then have "wl_to_str lib (weak @ etag hash) = Some (weak @ etag hash)" using assms(2) by (simp add: list_all_iff)
  from matches_own_etag [of "wl_to_str lib" "weak @ etag hash" weak hash, OF this assms(3)] have "matches_etag (wl_to_str lib) (Some (weak @ etag hash)) (etag hash)" .
  then have "serve_asset lib name cache_control (Some (weak @ etag hash)) = response 304 [] cache_control (etag hash)"
    by (simp add: serve_asset_def serve_data_def assms(1))
  moreover have "hm_get (rs_headers (serve_asset lib name cache_control header)) ''etag'' = Some (etag hash)"
    by (simp add: serve_asset_def serve_data_def response_def assms(1) hm_simps Let_def)
  moreover have "let r = serve_asset lib name cache_control header in
        rs_status r = 304 \<and> rs_body r = []
        \<or> rs_status r = 200 \<and> rs_body r = body \<and> hm_get (rs_headers r) ''content-length'' = Some (decimal (length body))"
    by (simp add: serve_asset_def serve_data_def response_def assms(1) hm_simps Let_def)
  ultimately show ?thesis by blast
qed

lemma escape_lt_clean: "filter (\<lambda>c. c = 60) (escape_lt s) = []"
  by (induction s) (auto simp: escape_lt_def)

lemma starts_with_split: "starts_with p s \<Longrightarrow> s = p @ drop (length p) s"
  unfolding starts_with_def by (metis append_take_drop_id)

text \<open>
  C40: the injected DSN cannot inject markup. Whatever the configured DSN and its JSON encoding
  are, the page that is served contains exactly the \<open><\<close> characters of the embedded page, in
  number; so the value cannot close the script element it is placed in.
\<close>

theorem index_page_keeps_markup:
  "filter (\<lambda>c. c = 60) (index_page lib dsn page) = filter (\<lambda>c. c = 60) page"
proof -
  have clean: "filter (\<lambda>c. c = 60) SENTRY_DSN_PLACEHOLDER = []" by (simp add: SENTRY_DSN_PLACEHOLDER_def)
  have "filter (\<lambda>c. c = 60) (replace_first SENTRY_DSN_PLACEHOLDER (escape_lt v) page) = filter (\<lambda>c. c = 60) page" for v
  proof (induction page)
    case (Cons c cs)
    show ?case
    proof (cases "starts_with SENTRY_DSN_PLACEHOLDER (c # cs)")
      case True
      from arg_cong [OF starts_with_split [OF True], of "filter (\<lambda>c. c = 60)"] True show ?thesis
        by (simp add: escape_lt_clean clean)
    qed (use Cons.IH in auto)
  qed simp
  then show ?thesis by (simp add: index_page_def)
qed

end
