(* ===== verification/Broker_Spec.thy ===== *)
theory Broker_Spec
  imports Broker_Model
begin

text \<open>
  What the broker promises, without its data structures: one list of requests in admission
  order, each queued or in flight. There is no hash map, no separate queue and no sequence
  number; expiry and completion remove entries, a disconnect turns every in-flight entry
  back into a queued one in place, and dispatch serves the first queued entries.
\<close>

record spec_request =
  sr_packet :: bytes
  sr_context :: "request_context option"
  sr_deadline :: instant
  sr_requested_at :: nat
  sr_deadline_timestamp :: nat
  sr_attempt :: nat
  sr_state :: pending_state

record spec_state =
  sp_agent :: remote_agent_state
  sp_requests :: "(request_id \<times> spec_request) list"
  sp_limit :: nat
  sp_wake :: bool

definition spec_cancel :: "request_id \<Rightarrow> spec_request \<Rightarrow> effect list" where
  "spec_cancel i r = (case sr_state r of Queued \<Rightarrow> [] | InFlight sid a \<Rightarrow> [Cancel sid i a])"

definition spec_due :: "instant \<Rightarrow> request_id \<times> spec_request \<Rightarrow> bool" where
  "spec_due now e \<longleftrightarrow> sr_deadline (snd e) \<le> now"

definition spec_expire :: "spec_state \<Rightarrow> instant \<Rightarrow> spec_state \<times> effect list" where
  "spec_expire s now =
     (s\<lparr>sp_requests := filter (\<lambda>e. \<not> spec_due now e) (sp_requests s)\<rparr>,
      concat (map (\<lambda>e. spec_cancel (fst e) (snd e) @ [Complete (fst e) (Err TimedOut)])
        (filter (spec_due now) (sp_requests s))))"

definition spec_start :: "session_id \<Rightarrow> spec_request \<Rightarrow> spec_request" where
  "spec_start sid r =
     r\<lparr>sr_attempt := wrap_u32 (sr_attempt r + 1), sr_state := InFlight sid (wrap_u32 (sr_attempt r + 1))\<rparr>"

definition spec_send :: "session_id \<Rightarrow> request_id \<Rightarrow> spec_request \<Rightarrow> effect" where
  "spec_send sid i r =
     Dispatch sid i (sr_attempt r) (sr_requested_at r) (sr_deadline_timestamp r) (sr_packet r) (sr_context r)"

text \<open>Serve the first \<open>slots\<close> queued requests.\<close>

fun spec_serve ::
  "session_id \<Rightarrow> nat \<Rightarrow> (request_id \<times> spec_request) list \<Rightarrow>
     (request_id \<times> spec_request) list \<times> effect list" where
  "spec_serve sid slots [] = ([], [])"
| "spec_serve sid slots ((i, r) # rs) =
     (if sr_state r = Queued \<and> 0 < slots then
        (let (rs', es) = spec_serve sid (slots - 1) rs; r' = spec_start sid r
         in ((i, r') # rs', spec_send sid i r' # es))
      else (let (rs', es) = spec_serve sid slots rs in ((i, r) # rs', es)))"

definition spec_queued :: "request_id \<times> spec_request \<Rightarrow> bool" where
  "spec_queued e \<longleftrightarrow> sr_state (snd e) = Queued"

definition spec_reconcile :: "spec_state \<Rightarrow> spec_state \<times> effect list" where
  "spec_reconcile s =
     (case connected_remote (sp_agent s) of
        Some (sid, capacity) \<Rightarrow>
          (let busy = length (filter (\<lambda>e. \<not> spec_queued e) (sp_requests s));
               (rs', es) = spec_serve sid (capacity - busy) (sp_requests s)
           in (s\<lparr>sp_requests := rs', sp_wake := False\<rparr>, es))
      | None \<Rightarrow>
          (if filter spec_queued (sp_requests s) = [] then (s\<lparr>sp_wake := False\<rparr>, [])
           else if sp_wake s then (s, [])
           else (s\<lparr>sp_wake := True\<rparr>,
                 [WakeRequired \<lparr>reasons = first_seen [] (map reason
                    (List.map_filter (\<lambda>e. sr_context (snd e)) (filter spec_queued (sp_requests s))))\<rparr>])))"

definition spec_remove :: "request_id \<Rightarrow> spec_state \<Rightarrow> spec_state" where
  "spec_remove i s = s\<lparr>sp_requests := filter (\<lambda>e. fst e \<noteq> i) (sp_requests s)\<rparr>"

fun spec_handle :: "spec_state \<Rightarrow> event \<Rightarrow> spec_state \<times> (model_error + effect list)" where
  "spec_handle s (EvSubmit i packet context deadline requested_at deadline_timestamp) =
     (if sp_limit s \<le> length (sp_requests s) then (s, Ok [Complete i (Err QueueFull)])
      else (s\<lparr>sp_requests := sp_requests s @
                [(i, \<lparr>sr_packet = packet, sr_context = context, sr_deadline = deadline,
                      sr_requested_at = requested_at, sr_deadline_timestamp = deadline_timestamp,
                      sr_attempt = 0, sr_state = Queued\<rparr>)],
              sp_wake := False\<rparr>, Ok []))"
| "spec_handle s (EvConnected sid capacity) =
     (if sp_agent s \<noteq> RemoteDisconnected then (s, Err RemoteAlreadyConnected)
      else (s\<lparr>sp_agent := RemoteLocked sid capacity, sp_wake := False\<rparr>, Ok []))"
| "spec_handle s (EvReady sid) =
     (case connected_remote (sp_agent s) of
        Some (active, capacity) \<Rightarrow>
          (if active = sid then (s\<lparr>sp_agent := RemoteReady sid capacity\<rparr>, Ok []) else (s, Ok []))
      | None \<Rightarrow> (s, Ok []))"
| "spec_handle s (EvLocked sid) =
     (case connected_remote (sp_agent s) of
        Some (active, capacity) \<Rightarrow>
          (if active = sid then (s\<lparr>sp_agent := RemoteLocked sid capacity\<rparr>, Ok []) else (s, Ok []))
      | None \<Rightarrow> (s, Ok []))"
| "spec_handle s (EvDisconnected sid) =
     (if agent_session (sp_agent s) = Some sid then
        (s\<lparr>sp_agent := RemoteDisconnected, sp_wake := False,
           sp_requests := map (\<lambda>e. (fst e, (snd e)\<lparr>sr_state := Queued\<rparr>)) (sp_requests s)\<rparr>, Ok [])
      else (s, Ok []))"
| "spec_handle s (EvResponse sid i attempt packet) =
     (case map_of (sp_requests s) i of
        Some r \<Rightarrow>
          (if sr_state r = InFlight sid attempt then (spec_remove i s, Ok [Complete i (Ok packet)])
           else (s, Ok []))
      | None \<Rightarrow> (s, Ok []))"
| "spec_handle s (EvCancelled i) =
     (case map_of (sp_requests s) i of
        Some r \<Rightarrow> (spec_remove i s, Ok (spec_cancel i r @ [Complete i (Err Cancelled)]))
      | None \<Rightarrow> (s, Ok []))"
| "spec_handle s EvTick = (s, Ok [])"

definition spec_apply :: "spec_state \<Rightarrow> event \<Rightarrow> instant \<Rightarrow> spec_state \<times> (model_error + effect list)" where
  "spec_apply s e now =
     (let (s1, expired) = spec_expire s now in
      case spec_handle s1 e of
        (s2, Inl err) \<Rightarrow> (s2, Err err)
      | (s2, Inr es) \<Rightarrow> (let (s3, rs) = spec_reconcile s2 in (s3, Ok (expired @ es @ rs))))"

section \<open>Facts about serving\<close>

lemma spec_serve_busy:
  "(\<And>e. e \<in> set I \<Longrightarrow> \<not> spec_queued e) \<Longrightarrow>
     spec_serve sid slots (I @ rs) = (let (rs', es) = spec_serve sid slots rs in (I @ rs', es))"
proof (induction I)
  case (Cons e I)
  then have "\<not> spec_queued e" by simp
  with Cons show ?case by (cases e) (auto simp: spec_queued_def split: prod.splits)
qed simp

lemma spec_serve_queued:
  "(\<And>e. e \<in> set Q \<Longrightarrow> spec_queued e) \<Longrightarrow>
     spec_serve sid slots Q =
       (map (\<lambda>e. (fst e, spec_start sid (snd e))) (take slots Q) @ drop slots Q,
        map (\<lambda>e. spec_send sid (fst e) (spec_start sid (snd e))) (take slots Q))"
proof (induction Q arbitrary: slots)
  case (Cons e Q)
  then have "spec_queued e" by simp
  with Cons show ?case by (cases e; cases slots) (auto simp: spec_queued_def Let_def split: prod.splits)
qed simp

end
