(* ===== verification/Broker_Correct.thy ===== *)
theory Broker_Correct
  imports Broker_Spec
begin

text \<open>
  The broker of \<open>broker/model.rs\<close> implements the ordered list of \<open>Broker_Spec\<close>. The
  representation relation \<open>rep s I Q\<close> says that \<open>I @ Q\<close> is the admission order of the hash
  map \<open>pending\<close>, in whatever order the map iterates, that the requests \<open>I\<close> in flight were
  all admitted before the queued ones \<open>Q\<close>, and that \<open>queue\<close> is \<open>Q\<close>.
\<close>

section \<open>Representation\<close>

definition seq_of :: "request_id \<times> pending_request \<Rightarrow> nat" where
  "seq_of e = pr_sequence (snd e)"

definition is_queued :: "request_id \<times> pending_request \<Rightarrow> bool" where
  "is_queued e \<longleftrightarrow> pr_state (snd e) = Queued"

fun flying :: "session_id option \<Rightarrow> request_id \<times> pending_request \<Rightarrow> bool" where
  "flying active (i, p) = (case pr_state p of Queued \<Rightarrow> False | InFlight sid a \<Rightarrow> active = Some sid \<and> a = pr_attempt p)"

definition admitted :: "broker_state \<Rightarrow> (request_id \<times> pending_request) list" where
  "admitted s = sort_key seq_of (pending s)"

definition spec_request_of :: "pending_request \<Rightarrow> spec_request" where
  "spec_request_of p =
     \<lparr>sr_packet = pr_packet p, sr_context = pr_context p, sr_deadline = pr_deadline p,
      sr_requested_at = pr_requested_at p, sr_deadline_timestamp = pr_deadline_timestamp p,
      sr_attempt = pr_attempt p, sr_state = pr_state p\<rparr>"

abbreviation spec_entry :: "request_id \<times> pending_request \<Rightarrow> request_id \<times> spec_request" where
  "spec_entry e \<equiv> (fst e, spec_request_of (snd e))"

definition abs_state :: "broker_state \<Rightarrow> spec_state" where
  "abs_state s =
     \<lparr>sp_agent = agent s, sp_requests = map spec_entry (admitted s),
      sp_limit = max_pending_requests s, sp_wake = wake_announced s\<rparr>"

definition within_capacity :: "remote_agent_state \<Rightarrow> nat \<Rightarrow> bool" where
  "within_capacity a n \<longleftrightarrow> (case connected_remote a of None \<Rightarrow> n = 0 | Some (_, capacity) \<Rightarrow> n \<le> capacity)"

definition rep ::
  "broker_state \<Rightarrow> (request_id \<times> pending_request) list \<Rightarrow> (request_id \<times> pending_request) list \<Rightarrow> bool" where
  "rep s I Q \<longleftrightarrow>
     mset (pending s) = mset (I @ Q) \<and>
     distinct (map fst (I @ Q)) \<and>
     sorted_wrt (<) (map seq_of (I @ Q)) \<and>
     (\<forall>e \<in> set (I @ Q). seq_of e < next_sequence s) \<and>
     (\<forall>e \<in> set I. flying (agent_session (agent s)) e) \<and>
     (\<forall>e \<in> set Q. is_queued e) \<and>
     queue s = map fst Q \<and>
     length (I @ Q) \<le> max_pending_requests s \<and>
     within_capacity (agent s) (length I)"

text \<open>The same property of the state alone, as a computable predicate.\<close>

definition broker_inv :: "broker_state \<Rightarrow> bool" where
  "broker_inv s \<longleftrightarrow>
     (let A = admitted s; I = takeWhile (\<lambda>e. \<not> is_queued e) A; Q = dropWhile (\<lambda>e. \<not> is_queued e) A in
      distinct (map fst A) \<and>
      sorted_wrt (<) (map seq_of A) \<and>
      (\<forall>e \<in> set A. seq_of e < next_sequence s) \<and>
      (\<forall>e \<in> set I. flying (agent_session (agent s)) e) \<and>
      (\<forall>e \<in> set Q. is_queued e) \<and>
      queue s = map fst Q \<and>
      length A \<le> max_pending_requests s \<and>
      within_capacity (agent s) (length I))"

lemma flying_not_queued: "flying active e \<Longrightarrow> \<not> is_queued e"
  by (cases e) (auto simp: is_queued_def split: pending_state.splits)

lemma is_queued_spec [simp]: "spec_queued (spec_entry e) = is_queued e"
  by (simp add: spec_queued_def is_queued_def spec_request_of_def)

lemma strict_sorted_inj: "sorted_wrt (<) (map (f :: 'a \<Rightarrow> nat) xs) \<Longrightarrow> inj_on f (set xs)"
  by (metis distinct_map strict_sorted_iff)

lemma sort_key_rep:
  assumes "mset xs = mset ys" and "sorted_wrt (<) (map f ys :: nat list)"
  shows "sort_key f xs = ys"
proof -
  have "inj_on f (set ys)" using assms(2) by (rule strict_sorted_inj)
  moreover have "set xs = set ys" using assms(1) by (rule mset_eq_setD)
  moreover have "sorted (map f ys)" using assms(2) by (simp add: strict_sorted_iff)
  ultimately show ?thesis using assms(1) by (intro sort_key_inj_key_eq) auto
qed

lemma rep_admitted: "rep s I Q \<Longrightarrow> admitted s = I @ Q"
  unfolding admitted_def rep_def by (intro sort_key_rep) simp_all

lemma rep_inv: "rep s I Q \<Longrightarrow> broker_inv s"
proof -
  assume r: "rep s I Q"
  then have A: "admitted s = I @ Q" by (rule rep_admitted)
  have I: "\<And>e. e \<in> set I \<Longrightarrow> \<not> is_queued e" using r by (auto simp: rep_def dest: flying_not_queued)
  have Q: "\<And>e. e \<in> set Q \<Longrightarrow> is_queued e" using r by (auto simp: rep_def)
  have "takeWhile (\<lambda>e. \<not> is_queued e) (I @ Q) = I" "dropWhile (\<lambda>e. \<not> is_queued e) (I @ Q) = Q"
    using I Q by (cases Q; auto simp: takeWhile_append dropWhile_append)+
  with r show ?thesis unfolding broker_inv_def A Let_def rep_def by simp
qed

lemma inv_rep:
  "broker_inv s \<Longrightarrow> rep s (takeWhile (\<lambda>e. \<not> is_queued e) (admitted s)) (dropWhile (\<lambda>e. \<not> is_queued e) (admitted s))"
  unfolding broker_inv_def rep_def Let_def takeWhile_dropWhile_id
  by (auto simp only: admitted_def mset_sort)

lemma inv_iff_rep: "broker_inv s \<longleftrightarrow> (\<exists>I Q. rep s I Q)"
  using rep_inv inv_rep by blast

lemma inv_repE:
  assumes "broker_inv s"
  obtains I Q where "rep s I Q"
  using assms inv_iff_rep by blast

lemma rep_set: "rep s I Q \<Longrightarrow> set (pending s) = set I \<union> set Q"
  unfolding rep_def by (metis mset_eq_setD set_append)

lemma rep_length: "rep s I Q \<Longrightarrow> length (pending s) = length (I @ Q)"
  unfolding rep_def by (metis size_mset)

lemma rep_hm_ok: "rep s I Q \<Longrightarrow> hm_ok (pending s)"
  unfolding rep_def hm_ok_def by (metis mset_map mset_eq_imp_distinct_iff)

lemma rep_get: "rep s I Q \<Longrightarrow> e \<in> set I \<union> set Q \<Longrightarrow> hm_get (pending s) (fst e) = Some (snd e)"
  by (simp add: hm_get_Some_iff rep_hm_ok rep_set)

lemma abs_rep:
  "rep s I Q \<Longrightarrow> abs_state s =
     \<lparr>sp_agent = agent s, sp_requests = map spec_entry (I @ Q),
      sp_limit = max_pending_requests s, sp_wake = wake_announced s\<rparr>"
  by (simp add: abs_state_def rep_admitted)

lemma rep_new: "rep (broker_new n) [] []"
  by (simp add: rep_def broker_new_def within_capacity_def)

section \<open>Expiry, completion and cancellation\<close>

definition due :: "instant \<Rightarrow> request_id \<times> pending_request \<Rightarrow> bool" where
  "due now e \<longleftrightarrow> pr_deadline (snd e) \<le> now"

definition alive :: "instant \<Rightarrow> request_id \<times> pending_request \<Rightarrow> bool" where
  "alive now e \<longleftrightarrow> now < pr_deadline (snd e)"

lemma alive_due: "alive now = (\<lambda>e. \<not> due now e)"
  by (auto simp: alive_def due_def)

definition timeout_effects :: "request_id \<times> pending_request \<Rightarrow> effect list" where
  "timeout_effects e = cancel_effects (fst e) (snd e) @ [Complete (fst e) (Err TimedOut)]"

lemma within_capacity_mono: "within_capacity a n \<Longrightarrow> m \<le> n \<Longrightarrow> within_capacity a m"
  by (auto simp: within_capacity_def split: option.splits)

lemma strict_sorted_filter: "sorted_wrt (<) (map f xs :: nat list) \<Longrightarrow> sorted_wrt (<) (map f (filter P xs))"
  by (simp add: sorted_wrt_map sorted_wrt_filter)

text \<open>Removing requests keeps the representation.\<close>

lemma rep_filter:
  assumes "rep s I Q"
  shows "rep (s\<lparr>queue := map fst (filter P Q), pending := filter P (pending s)\<rparr>) (filter P I) (filter P Q)"
proof -
  have "distinct (map fst (filter P (I @ Q)))"
    using assms unfolding rep_def by (intro distinct_map_filter) simp
  moreover have "sorted_wrt (<) (map seq_of (filter P (I @ Q)))"
    using assms unfolding rep_def by (intro strict_sorted_filter) simp
  moreover have "mset (filter P (pending s)) = mset (filter P (I @ Q))"
    using assms unfolding rep_def by (metis mset_filter)
  moreover have "length (filter P (I @ Q)) \<le> max_pending_requests s"
    using assms unfolding rep_def by (meson length_filter_le order_trans)
  moreover have "within_capacity (agent s) (length (filter P I))"
    using assms unfolding rep_def by (meson length_filter_le within_capacity_mono)
  ultimately show ?thesis using assms unfolding rep_def by (simp add: ball_Un)
qed

lemma expire_each_closed:
  assumes "distinct (map fst L)" and "\<And>e. e \<in> set L \<Longrightarrow> hm_get m (fst e) = Some (snd e)"
  shows "expire_each (map (\<lambda>(i, p). (i, pr_sequence p)) L) m =
    Some (filter (\<lambda>e. fst e \<notin> fst ` set L) m, concat (map timeout_effects L))"
  using assms
proof (induction L arbitrary: m)
  case (Cons e L)
  have "hm_get (hm_remove (fst e) m) (fst d) = Some (snd d)" if "d \<in> set L" for d
    using that Cons.prems by (auto simp: hm_simps image_iff)
  with Cons.IH [of "hm_remove (fst e) m"] Cons.prems show ?case
    by (cases e) (force simp: timeout_effects_def hm_remove_def intro: filter_cong)
qed simp

lemma key_in_filter:
  assumes "distinct (map fst m)" and "e \<in> set m"
  shows "fst e \<in> fst ` set (filter P m) \<longleftrightarrow> P e"
proof -
  have "inj_on fst (set m)" using assms(1) by (simp add: distinct_map)
  moreover have "set (filter P m) \<subseteq> set m" by auto
  ultimately have "fst e \<in> fst ` set (filter P m) \<longleftrightarrow> e \<in> set (filter P m)"
    using assms(2) by (intro inj_on_image_mem_iff)
  with assms(2) show ?thesis by simp
qed

lemma keys_filter_eq:
  assumes "distinct (map fst m)" and "mset m = mset L"
  shows "filter (\<lambda>e. fst e \<notin> fst ` set (filter P L)) m = filter (\<lambda>e. \<not> P e) m"
proof (rule filter_cong)
  fix e assume "e \<in> set m"
  moreover have "set (filter P L) = set (filter P m)"
    using mset_eq_setD [OF assms(2)] by auto
  ultimately show "(fst e \<notin> fst ` set (filter P L)) = (\<not> P e)"
    using key_in_filter [OF assms(1)] by simp
qed simp

lemma queue_filter_eq:
  assumes "distinct (map fst (I @ Q))"
  shows "filter (\<lambda>i. i \<notin> fst ` set (filter P (I @ Q))) (map fst Q) = map fst (filter (\<lambda>e. \<not> P e) Q)"
proof -
  have "(fst e \<notin> fst ` set (filter P (I @ Q))) = (\<not> P e)" if "e \<in> set Q" for e
    using that key_in_filter [OF assms, of e P] by (simp del: filter_append)
  then show ?thesis unfolding filter_map comp_def
    by (intro arg_cong [where f = "map fst"] filter_cong) simp_all
qed

lemma expire_rep:
  assumes "rep s I Q"
  shows "expire s now =
    Some (s\<lparr>queue := map fst (filter (alive now) Q), pending := filter (alive now) (pending s)\<rparr>,
      concat (map timeout_effects (filter (due now) (I @ Q))))"
proof -
  let ?A = "I @ Q"
  let ?L = "filter (due now) ?A"
  have ms: "mset (pending s) = mset ?A" and dis: "distinct (map fst ?A)"
    and srt: "sorted_wrt (<) (map seq_of ?A)" and q: "queue s = map fst Q"
    using assms(1) by (simp_all add: rep_def)
  have "sort_key seq_of (filter (due now) (pending s)) = ?L"
    using ms by (intro sort_key_rep strict_sorted_filter srt) (simp only: mset_filter)
  then have ids: "sort_key snd (map (\<lambda>(i, p). (i, pr_sequence p)) (filter (\<lambda>(_, p). pr_deadline p \<le> now) (pending s)))
      = map (\<lambda>(i, p). (i, pr_sequence p)) ?L"
    using map_sort_key [of "\<lambda>(i, p). (i, pr_sequence p)" snd "filter (due now) (pending s)"]
    by (simp add: seq_of_def [abs_def] due_def [abs_def] case_prod_beta' comp_def)
  have "expire_each (map (\<lambda>(i, p). (i, pr_sequence p)) ?L) (pending s)
      = Some (filter (\<lambda>e. fst e \<notin> fst ` set ?L) (pending s), concat (map timeout_effects ?L))"
    using dis rep_get [OF assms(1)] by (intro expire_each_closed) (auto simp: distinct_map_filter)
  moreover have "filter (\<lambda>e. fst e \<notin> fst ` set ?L) (pending s) = filter (alive now) (pending s)"
    unfolding alive_due using rep_hm_ok [OF assms(1)] ms by (intro keys_filter_eq) (simp_all add: hm_ok_def)
  moreover have "filter (\<lambda>i. i \<notin> fst ` set ?L) (queue s) = map fst (filter (alive now) Q)"
    unfolding alive_due q using dis by (rule queue_filter_eq)
  ultimately show ?thesis
    unfolding expire_def Let_def ids by (simp add: image_image case_prod_beta' comp_def del: filter_append)
qed

lemma rep_expire:
  assumes "rep s I Q"
  obtains s1 where "expire s now = Some (s1, concat (map timeout_effects (filter (due now) (I @ Q))))"
    and "rep s1 (filter (alive now) I) (filter (alive now) Q)"
    and "agent s1 = agent s" "max_pending_requests s1 = max_pending_requests s"
    and "next_sequence s1 = next_sequence s" "wake_announced s1 = wake_announced s"
  by (rule that [OF expire_rep [OF assms] rep_filter [OF assms]]) simp_all

lemma hm_remove_filter: "hm_remove i = filter (\<lambda>e. fst e \<noteq> i)"
  by (simp add: hm_remove_def [abs_def] fun_eq_iff)

lemma rep_cancel:
  assumes "rep s I Q"
  shows "rep (s\<lparr>pending := hm_remove i (pending s), queue := filter (\<lambda>q. q \<noteq> i) (queue s)\<rparr>)
    (filter (\<lambda>e. fst e \<noteq> i) I) (filter (\<lambda>e. fst e \<noteq> i) Q)"
  using rep_filter [OF assms, of "\<lambda>e. fst e \<noteq> i"] assms
  by (simp add: hm_remove_filter rep_def filter_map comp_def)

lemma rep_complete:
  assumes "rep s I Q" and "hm_get (pending s) i = Some p" and "pr_state p \<noteq> Queued"
  shows "rep (s\<lparr>pending := hm_remove i (pending s)\<rparr>) (filter (\<lambda>e. fst e \<noteq> i) I) (filter (\<lambda>e. fst e \<noteq> i) Q)"
proof -
  have "fst e \<noteq> i" if "e \<in> set Q" for e
    using that assms rep_get [OF assms(1), of e] by (auto simp: rep_def is_queued_def)
  then have "filter (\<lambda>q. q \<noteq> i) (queue s) = queue s"
    using assms(1) by (auto simp: rep_def intro!: filter_True)
  with rep_cancel [OF assms(1), of i] show ?thesis by (simp add: rep_def)
qed

lemma rep_submit:
  assumes "rep s I Q" and "i \<notin> hm_keys (pending s)" and "length (pending s) < max_pending_requests s"
    and "next_sequence s + 1 < 2 ^ 64" and "pr_state p = Queued" and "pr_sequence p = next_sequence s"
  shows "rep (s\<lparr>next_sequence := wrap_u64 (next_sequence s + 1), pending := hm_insert i p (pending s),
      queue := queue s @ [i], wake_announced := w\<rparr>) I (Q @ [(i, p)])"
proof -
  have "hm_insert i p (pending s) = (i, p) # pending s"
    using assms(2) by (simp add: hm_insert_absent hm_get_None_iff)
  moreover have "wrap_u64 (next_sequence s + 1) = next_sequence s + 1"
    using assms(4) by (rule wrap_u64_id)
  moreover have "sorted_wrt (<) (map seq_of (I @ Q @ [(i, p)]))"
    using assms(1,6) by (auto simp: rep_def sorted_wrt_append seq_of_def)
  moreover have "distinct (map fst (I @ Q @ [(i, p)]))"
    using assms(1,2) rep_set [OF assms(1)] by (auto simp: rep_def)
  ultimately show ?thesis
    using assms rep_length [OF assms(1)] by (auto simp: rep_def is_queued_def seq_of_def less_Suc_eq)
qed

section \<open>Disconnect\<close>

definition unfly :: "request_id \<times> pending_request \<Rightarrow> request_id \<times> pending_request" where
  "unfly e = (fst e, (snd e)\<lparr>pr_state := Queued\<rparr>)"

lemma unfly_simps [simp]: "fst (unfly e) = fst e" "seq_of (unfly e) = seq_of e" "is_queued (unfly e)"
  by (simp_all add: unfly_def seq_of_def is_queued_def)

lemma unfly_queued: "is_queued e \<Longrightarrow> unfly e = e"
  by (cases e) (simp add: unfly_def is_queued_def)

lemma flying_in_flight: "flying (Some sid) e \<Longrightarrow> in_flight_with sid (pr_state (snd e))"
  by (cases e) (auto split: pending_state.splits)

lemma queued_not_in_flight: "is_queued e \<Longrightarrow> \<not> in_flight_with sid (pr_state (snd e))"
  by (simp add: is_queued_def)

lemma filter_in_flight:
  assumes "rep s I Q" and "agent_session (agent s) = Some sid"
  shows "filter (\<lambda>e. in_flight_with sid (pr_state (snd e))) (I @ Q) = I"
proof -
  have "filter (\<lambda>e. in_flight_with sid (pr_state (snd e))) I = I"
    using assms by (intro filter_True) (auto simp: rep_def intro!: flying_in_flight)
  moreover have "filter (\<lambda>e. in_flight_with sid (pr_state (snd e))) Q = []"
    using assms by (intro filter_False) (auto simp: rep_def dest: queued_not_in_flight)
  ultimately show ?thesis by simp
qed

lemma requeue_session_rep:
  assumes "rep s I Q" and "agent_session (agent s) = Some sid"
  shows "requeue_session s sid = s\<lparr>pending := map unfly (pending s), queue := map fst (I @ Q)\<rparr>"
proof -
  let ?fly = "\<lambda>e. in_flight_with sid (pr_state (snd e))"
  have "mset (filter ?fly (pending s)) = mset I"
    using assms(1) filter_in_flight [OF assms] unfolding rep_def by (metis mset_filter)
  moreover have "sorted_wrt (<) (map seq_of I)"
    using assms(1) by (simp add: rep_def sorted_wrt_append)
  ultimately have "sort_key seq_of (filter ?fly (pending s)) = I" by (rule sort_key_rep)
  then have "map fst (sort_key snd (map (\<lambda>(i, p). (i, pr_sequence p)) (filter (\<lambda>(_, p). in_flight_with sid (pr_state p)) (pending s))))
      = map fst I"
    using map_sort_key [of "\<lambda>(i, p). (i, pr_sequence p)" snd "filter ?fly (pending s)", symmetric]
    by (simp add: seq_of_def [abs_def] case_prod_beta' comp_def)
  moreover have "(if ?fly e then (snd e)\<lparr>pr_state := Queued\<rparr> else snd e) = snd (unfly e)"
    if "e \<in> set (pending s)" for e
  proof (cases "e \<in> set I")
    case True
    with assms show ?thesis by (auto simp: rep_def unfly_def intro!: flying_in_flight)
  next
    case False
    with that rep_set [OF assms(1)] assms(1) have "is_queued e" by (auto simp: rep_def)
    then show ?thesis using unfly_queued [of e] queued_not_in_flight [of e sid] by simp
  qed
  ultimately show ?thesis
    using assms(1) unfolding requeue_session_def Let_def
    by (simp add: rep_def case_prod_beta' unfly_def [abs_def])
qed

lemma rep_disconnect:
  assumes "rep s I Q" and "agent_session (agent s) = Some sid"
  shows "rep ((requeue_session s sid)\<lparr>agent := RemoteDisconnected, wake_announced := w\<rparr>) [] (map unfly (I @ Q))"
proof -
  have "mset (map unfly (pending s)) = mset (map unfly (I @ Q))"
    using assms(1) unfolding rep_def by (metis mset_map)
  then show ?thesis
    using assms(1) unfolding requeue_session_rep [OF assms] rep_def
    by (simp add: within_capacity_def comp_def ball_Un)
qed

section \<open>Dispatch\<close>

definition launch :: "session_id \<Rightarrow> request_id \<times> pending_request \<Rightarrow> request_id \<times> pending_request" where
  "launch sid e = (fst e, start_attempt sid (snd e))"

definition launch_effect :: "session_id \<Rightarrow> request_id \<times> pending_request \<Rightarrow> effect" where
  "launch_effect sid e = dispatch_effect sid (fst e) (start_attempt sid (snd e))"

lemma launch_simps [simp]: "fst (launch sid e) = fst e" "seq_of (launch sid e) = seq_of e"
    "flying (Some sid) (launch sid e)"
  by (simp_all add: launch_def seq_of_def start_attempt_def)

lemma hm_set_launch:
  assumes "hm_ok m" and "hm_get m (fst e) = Some (snd e)"
  shows "hm_set (fst e) (start_attempt sid (snd e)) m = map (\<lambda>d. if fst d = fst e then launch sid d else d) m"
proof -
  have "snd d = snd e" if "d \<in> set m" "fst d = fst e" for d
    using that assms by (metis hm_get_Some_iff option.inject prod.collapse)
  then show ?thesis by (auto simp: hm_set_def launch_def)
qed

text \<open>The loop serves as many requests as there are free slots, in queue order.\<close>

lemma dispatch_loop_closed:
  assumes "hm_ok m" and "distinct (map fst Q)" and "\<And>e. e \<in> set Q \<Longrightarrow> hm_get m (fst e) = Some (snd e)"
  shows "dispatch_loop sid capacity n (map fst Q) m =
    (map fst (drop (capacity - n) Q),
     map (\<lambda>d. if fst d \<in> fst ` set (take (capacity - n) Q) then launch sid d else d) m,
     map (launch_effect sid) (take (capacity - n) Q))"
  using assms
proof (induction Q arbitrary: n m)
  case (Cons e Q)
  show ?case
  proof (cases "n < capacity")
    case True
    then obtain k where k: "capacity - n = Suc k" "capacity - (n + 1) = k" by (metis Suc_diff_Suc Suc_eq_plus1)
    let ?m = "map (\<lambda>d. if fst d = fst e then launch sid d else d) m"
    have set: "hm_set (fst e) (start_attempt sid (snd e)) m = ?m"
      using Cons.prems(1,3) by (intro hm_set_launch) auto
    have "hm_get ?m (fst d) = Some (snd d)" if "d \<in> set Q" for d
      using that Cons.prems set [symmetric] by (auto simp: hm_simps image_iff)
    moreover have "hm_ok ?m" using Cons.prems(1) set [symmetric] by simp
    ultimately have "dispatch_loop sid capacity (n + 1) (map fst Q) ?m =
        (map fst (drop k Q), map (\<lambda>d. if fst d \<in> fst ` set (take k Q) then launch sid d else d) ?m,
         map (launch_effect sid) (take k Q))"
      using Cons.IH [of ?m "n + 1"] Cons.prems(2) k by simp
    moreover have "fst e \<notin> fst ` set (take k Q)"
      using Cons.prems(2) by (auto dest: in_set_takeD)
    ultimately show ?thesis
      using True Cons.prems(3) [of e] set k
      by (auto simp: launch_effect_def Let_def)
  qed simp
qed simp

lemma in_flight_for_rep:
  assumes "rep s I Q" and "agent_session (agent s) = Some sid"
  shows "in_flight_for (pending s) sid = length I"
proof -
  have "mset (filter (\<lambda>e. in_flight_with sid (pr_state (snd e))) (pending s)) = mset I"
    using assms(1) filter_in_flight [OF assms] unfolding rep_def by (metis mset_filter)
  then show ?thesis
    unfolding in_flight_for_def case_prod_beta' by (metis size_mset)
qed

lemma connected_session: "connected_remote a = Some (sid, capacity) \<Longrightarrow> agent_session a = Some sid"
  by (cases a) auto

lemma connected_None: "connected_remote a = None \<longleftrightarrow> agent_session a = None"
  by (cases a) auto

lemma map_launch_split:
  assumes "distinct (map fst (I @ Q))"
  shows "map (\<lambda>d. if fst d \<in> fst ` set (take k Q) then launch sid d else d) (I @ Q) =
    I @ map (launch sid) (take k Q) @ drop k Q"
proof -
  let ?f = "\<lambda>d. if fst d \<in> fst ` set (take k Q) then launch sid d else d"
  have "distinct (map fst (take k Q @ drop k Q))" using assms by simp
  then have "fst ` set (take k Q) \<inter> fst ` set (drop k Q) = {}" by (simp del: append_take_drop_id)
  then have "map ?f (drop k Q) = drop k Q" by (intro map_idI) auto
  moreover have "map ?f (take k Q) = map (launch sid) (take k Q)" by simp
  moreover have "map ?f I = I" using assms by (intro map_idI) (auto dest: in_set_takeD)
  ultimately have "map ?f (I @ take k Q @ drop k Q) = I @ map (launch sid) (take k Q) @ drop k Q"
    by (simp only: map_append)
  then show ?thesis by (simp only: append_take_drop_id)
qed

lemma dispatch_work_rep:
  assumes "rep s I Q" and "connected_remote (agent s) = Some (sid, capacity)"
  defines "k \<equiv> capacity - length I"
  shows "dispatch_work s =
      (s\<lparr>queue := map fst (drop k Q),
         pending := map (\<lambda>d. if fst d \<in> fst ` set (take k Q) then launch sid d else d) (pending s)\<rparr>,
       map (launch_effect sid) (take k Q))"
    and "rep (fst (dispatch_work s)) (I @ map (launch sid) (take k Q)) (drop k Q)"
proof -
  have sess: "agent_session (agent s) = Some sid" using assms(2) by (rule connected_session)
  have q: "queue s = map fst Q" and dis: "distinct (map fst (I @ Q))"
    and srt: "sorted_wrt (<) (map seq_of (I @ Q))" and ms: "mset (pending s) = mset (I @ Q)"
    using assms(1) by (simp_all add: rep_def)
  let ?f = "\<lambda>d. if fst d \<in> fst ` set (take k Q) then launch sid d else d"
  have "dispatch_loop sid capacity (length I) (map fst Q) (pending s) =
      (map fst (drop k Q), map ?f (pending s), map (launch_effect sid) (take k Q))"
    unfolding k_def using rep_hm_ok [OF assms(1)] dis rep_get [OF assms(1)]
    by (intro dispatch_loop_closed) auto
  then show eq: "dispatch_work s =
      (s\<lparr>queue := map fst (drop k Q), pending := map ?f (pending s)\<rparr>, map (launch_effect sid) (take k Q))"
    using assms(2) q in_flight_for_rep [OF assms(1) sess] by (simp add: dispatch_work_def)
  have map_f: "map ?f (I @ Q) = I @ map (launch sid) (take k Q) @ drop k Q"
    using dis by (rule map_launch_split)
  have ms': "mset (map ?f (pending s)) = mset (I @ map (launch sid) (take k Q) @ drop k Q)"
    unfolding map_f [symmetric] mset_map ms ..
  have keys: "map fst (I @ map (launch sid) (take k Q) @ drop k Q) = map fst (I @ Q)"
    and seqs: "map seq_of (I @ map (launch sid) (take k Q) @ drop k Q) = map seq_of (I @ Q)"
    unfolding map_f [symmetric] by (simp_all add: comp_def if_distrib cong: if_cong)
  have len: "length (I @ map (launch sid) (take k Q) @ drop k Q) = length (I @ Q)"
    using arg_cong [OF keys, of length] by simp
  have bound: "\<forall>e \<in> set (I @ map (launch sid) (take k Q) @ drop k Q). seq_of e < next_sequence s"
  proof -
    have "set (map seq_of (I @ map (launch sid) (take k Q) @ drop k Q)) \<subseteq> {..< next_sequence s}"
      unfolding seqs using assms(1) by (auto simp: rep_def)
    then show ?thesis by (auto simp del: append_assoc)
  qed
  have cap: "within_capacity (agent s) (length (I @ map (launch sid) (take k Q)))"
    using assms(1,2) by (auto simp: rep_def within_capacity_def k_def)
  let ?I = "I @ map (launch sid) (take k Q)"
  have fly: "\<forall>e \<in> set ?I. flying (agent_session (agent s)) e"
    using assms(1) sess by (auto simp: rep_def)
  have qud: "\<forall>e \<in> set (drop k Q). is_queued e"
    using assms(1) by (auto simp: rep_def dest: in_set_dropD)
  have max: "length (I @ Q) \<le> max_pending_requests s" using assms(1) by (simp add: rep_def)
  show "rep (fst (dispatch_work s)) ?I (drop k Q)"
    unfolding rep_def eq fst_conv append_assoc keys seqs len
    by (intro conjI) (use dis srt ms' bound fly qud max cap in simp_all)
qed

section \<open>Reconciliation\<close>

lemma rep_wake [simp]: "rep (s\<lparr>wake_announced := w\<rparr>) I Q = rep s I Q"
  by (simp add: rep_def)

lemma abs_wake: "abs_state (s\<lparr>wake_announced := w\<rparr>) = (abs_state s)\<lparr>sp_wake := w\<rparr>"
  by (simp add: abs_state_def admitted_def)

lemma spec_entry_launch:
  "spec_request_of (snd (launch sid e)) = spec_start sid (spec_request_of (snd e))"
  "spec_send sid (fst e) (spec_start sid (spec_request_of (snd e))) = launch_effect sid e"
  by (simp_all add: launch_def launch_effect_def dispatch_effect_def spec_send_def start_attempt_def
      spec_start_def spec_request_of_def)

lemma filter_queued_rep:
  assumes "rep s I Q"
  shows "filter spec_queued (map spec_entry (I @ Q)) = map spec_entry Q"
    and "filter (\<lambda>e. \<not> spec_queued e) (map spec_entry (I @ Q)) = map spec_entry I"
proof -
  have I: "\<And>e. e \<in> set I \<Longrightarrow> \<not> is_queued e" using assms by (auto simp: rep_def dest: flying_not_queued)
  have Q: "\<And>e. e \<in> set Q \<Longrightarrow> is_queued e" using assms by (auto simp: rep_def)
  have "filter is_queued I = []" "filter is_queued Q = Q"
    "filter (\<lambda>e. \<not> is_queued e) I = I" "filter (\<lambda>e. \<not> is_queued e) Q = []"
    using I Q by (simp_all add: filter_empty_conv)
  then show "filter spec_queued (map spec_entry (I @ Q)) = map spec_entry Q"
    and "filter (\<lambda>e. \<not> spec_queued e) (map spec_entry (I @ Q)) = map spec_entry I"
    by (simp_all add: filter_map comp_def)
qed

lemma reconcile_connected:
  assumes "rep s I Q" and c: "connected_remote (agent s) = Some (sid, capacity)"
  defines "k \<equiv> capacity - length I"
  shows "rep (fst (reconcile s)) (I @ map (launch sid) (take k Q)) (drop k Q)"
    and "snd (reconcile s) = map (launch_effect sid) (take k Q)"
    and "spec_reconcile (abs_state s) = (abs_state (fst (reconcile s)), snd (reconcile s))"
proof -
  let ?I = "I @ map (launch sid) (take k Q)"
  note dw = dispatch_work_rep [OF assms(1,2), folded k_def]
  have ag: "agent (fst (dispatch_work s)) = agent s"
    "max_pending_requests (fst (dispatch_work s)) = max_pending_requests s" by (simp_all add: dw(1))
  have "agent_session (agent s) \<noteq> None" using c by (simp add: connected_session)
  then have rc: "reconcile s = ((fst (dispatch_work s))\<lparr>wake_announced := False\<rparr>, map (launch_effect sid) (take k Q))"
    using ag by (simp add: reconcile_def announce_wake_def case_prod_beta' dw(1) Let_def)
  from dw(2) show r: "rep (fst (reconcile s)) ?I (drop k Q)" by (simp add: rc)
  show "snd (reconcile s) = map (launch_effect sid) (take k Q)" by (simp add: rc)
  have "spec_serve sid k (map spec_entry (I @ Q)) =
      (map spec_entry (?I @ drop k Q), map (launch_effect sid) (take k Q))"
  proof -
    have busy: "\<not> spec_queued e" if "e \<in> set (map spec_entry I)" for e
      using that assms(1) by (auto simp: rep_def is_queued_def spec_queued_def spec_request_of_def dest!: bspec flying_not_queued)
    have queued: "spec_queued e" if "e \<in> set (map spec_entry Q)" for e
      using that assms(1) by (auto simp: rep_def is_queued_def spec_queued_def spec_request_of_def)
    have "spec_serve sid k (map spec_entry Q) =
        (map spec_entry (map (launch sid) (take k Q) @ drop k Q), map (launch_effect sid) (take k Q))"
      using queued by (subst spec_serve_queued) (simp_all add: take_map drop_map comp_def spec_entry_launch)
    moreover have "spec_serve sid k (map spec_entry I @ rs) =
        (let (rs', es) = spec_serve sid k rs in (map spec_entry I @ rs', es))" for rs
      using busy by (rule spec_serve_busy)
    ultimately show ?thesis by simp
  qed
  then show "spec_reconcile (abs_state s) = (abs_state (fst (reconcile s)), snd (reconcile s))"
    using c ag by (simp add: spec_reconcile_def abs_wake abs_rep [OF assms(1)] abs_rep [OF dw(2)] Let_def
        filter_queued_rep [OF assms(1)] k_def rc del: map_append filter_append)
qed

lemma map_filter_contexts:
  assumes "rep s I Q"
  shows "List.map_filter (\<lambda>i. case hm_get (pending s) i of None \<Rightarrow> None | Some p \<Rightarrow> pr_context p) (queue s)
    = List.map_filter (\<lambda>e. sr_context (snd e)) (map spec_entry Q)"
proof -
  have "hm_get (pending s) (fst e) = Some (snd e)" if "e \<in> set Q" for e
    using assms that by (simp add: rep_get)
  moreover have "queue s = map fst Q" using assms by (simp add: rep_def)
  ultimately show ?thesis
    by (simp add: List.map_filter_def filter_map comp_def spec_request_of_def cong: filter_cong)
qed

lemma reconcile_offline:
  assumes "rep s I Q" and "connected_remote (agent s) = None"
  shows "rep (fst (reconcile s)) I Q"
    and "snd (reconcile s) = (if Q = [] \<or> wake_announced s then [] else [WakeRequired \<lparr>reasons = wake_reasons s\<rparr>])"
    and "wake_announced (fst (reconcile s)) = (Q \<noteq> [])"
    and "spec_reconcile (abs_state s) = (abs_state (fst (reconcile s)), snd (reconcile s))"
proof -
  have rc: "reconcile s = announce_wake s"
    using assms(2) by (simp add: reconcile_def dispatch_work_def case_prod_beta')
  have off: "agent_session (agent s) = None" using assms(2) by (simp add: connected_None)
  have q: "queue s = [] \<longleftrightarrow> Q = []" using assms(1) by (simp add: rep_def)
  show r: "rep (fst (reconcile s)) I Q"
    using assms(1) by (simp add: rc announce_wake_def)
  show "snd (reconcile s) = (if Q = [] \<or> wake_announced s then [] else [WakeRequired \<lparr>reasons = wake_reasons s\<rparr>])"
    and "wake_announced (fst (reconcile s)) = (Q \<noteq> [])"
    using off q by (simp_all add: rc announce_wake_def)
  show "spec_reconcile (abs_state s) = (abs_state (fst (reconcile s)), snd (reconcile s))"
    using assms(2) off q
    by (auto simp: spec_reconcile_def abs_wake abs_rep [OF assms(1)] rc announce_wake_def
        filter_queued_rep [OF assms(1)] wake_reasons_def map_filter_contexts [OF assms(1)]
        simp del: map_append filter_append)
qed

lemma reconcile_sim:
  assumes "rep s I Q"
  shows "broker_inv (fst (reconcile s))"
    and "spec_reconcile (abs_state s) = (abs_state (fst (reconcile s)), snd (reconcile s))"
proof -
  show "broker_inv (fst (reconcile s))"
    using reconcile_connected(1) [OF assms] reconcile_offline(1) [OF assms]
    by (cases "connected_remote (agent s)") (auto intro: rep_inv)
  show "spec_reconcile (abs_state s) = (abs_state (fst (reconcile s)), snd (reconcile s))"
    using reconcile_connected(3) [OF assms] reconcile_offline(4) [OF assms]
    by (cases "connected_remote (agent s)") auto
qed

section \<open>The simulation\<close>

text \<open>
  A submission needs an identifier that is not pending (\<open>Uuid::new_v4\<close>) and a sequence
  counter that does not wrap (fewer than \<open>2 ^ 64\<close> admissions).
\<close>

fun admissible :: "broker_state \<Rightarrow> event \<Rightarrow> bool" where
  "admissible s (EvSubmit i _ _ _ _ _) = (i \<notin> hm_keys (pending s) \<and> next_sequence s + 1 < 2 ^ 64)"
| "admissible s _ = True"

lemma map_of_spec_entry: "map_of (map spec_entry xs) i = map_option spec_request_of (map_of xs i)"
  by (induction xs) auto

lemma abs_lookup:
  assumes "rep s I Q"
  shows "map_of (sp_requests (abs_state s)) i = map_option spec_request_of (hm_get (pending s) i)"
proof -
  have "map_of (pending s) = map_of (I @ Q)"
    using rep_hm_ok [OF assms] assms by (intro map_of_inject_set [THEN iffD2])
      (auto simp: hm_ok_def rep_def rep_set [OF assms])
  then show ?thesis
    by (simp add: abs_rep [OF assms] hm_get_def map_of_spec_entry del: map_append)
qed

lemma abs_remove:
  assumes "rep s I Q" and "rep s' (filter (\<lambda>e. fst e \<noteq> i) I) (filter (\<lambda>e. fst e \<noteq> i) Q)"
    and "agent s' = agent s" "max_pending_requests s' = max_pending_requests s" "wake_announced s' = wake_announced s"
  shows "abs_state s' = spec_remove i (abs_state s)"
  using assms(3-) by (simp add: abs_rep [OF assms(1)] abs_rep [OF assms(2)] spec_remove_def filter_map comp_def)

lemma spec_cancel_of [simp]: "spec_cancel i (spec_request_of p) = cancel_effects i p"
  by (simp add: spec_cancel_def cancel_effects_def spec_request_of_def)

lemma sr_state_of [simp]: "sr_state (spec_request_of p) = pr_state p"
  by (simp add: spec_request_of_def)

definition simulates :: "broker_state \<Rightarrow> event \<Rightarrow> bool" where
  "simulates s e \<longleftrightarrow>
     (\<exists>s' r. handle_event s e = Some (s', r) \<and> broker_inv s' \<and> spec_handle (abs_state s) e = (abs_state s', r))"

lemma simulates_submit:
  assumes "rep s I Q" and "admissible s (EvSubmit i pk c d ra dt)"
  shows "simulates s (EvSubmit i pk c d ra dt)"
proof (cases "max_pending_requests s \<le> length (pending s)")
  case True
  then show ?thesis
    using rep_inv [OF assms(1)] rep_length [OF assms(1)]
    by (simp add: simulates_def submit_request_def abs_rep [OF assms(1)])
next
  case False
  let ?p = "\<lparr>pr_packet = pk, pr_context = c, pr_deadline = d, pr_requested_at = ra,
    pr_deadline_timestamp = dt, pr_sequence = next_sequence s, pr_attempt = 0, pr_state = Queued\<rparr>"
  let ?s = "s\<lparr>next_sequence := wrap_u64 (next_sequence s + 1), pending := hm_insert i ?p (pending s),
      queue := queue s @ [i], wake_announced := False\<rparr>"
  have r: "rep ?s I (Q @ [(i, ?p)])"
    using assms False by (intro rep_submit) simp_all
  then show ?thesis
    using False rep_inv [OF r] rep_length [OF assms(1)] abs_rep [OF r]
    by (simp add: simulates_def submit_request_def abs_rep [OF assms(1)] spec_request_of_def)
qed

lemma simulates_connected:
  assumes "rep s I Q"
  shows "simulates s (EvConnected sid capacity)"
proof (cases "agent s = RemoteDisconnected")
  case True
  then have "I = []" using assms by (auto simp: rep_def within_capacity_def)
  then have r: "rep (s\<lparr>agent := RemoteLocked sid capacity, wake_announced := False\<rparr>) I Q"
    using assms by (simp add: rep_def within_capacity_def)
  with True rep_inv [OF r] show ?thesis
    by (simp add: simulates_def abs_rep [OF assms] abs_rep [OF r])
qed (use assms rep_inv [OF assms] in \<open>simp add: simulates_def abs_rep [OF assms]\<close>)

lemma rep_agent:
  assumes "rep s I Q" and "connected_remote (agent s) = Some (sid, capacity)"
    and "connected_remote a = Some (sid, capacity)"
  shows "rep (s\<lparr>agent := a\<rparr>) I Q"
  using assms connected_session [OF assms(2)] connected_session [OF assms(3)]
  by (simp add: rep_def within_capacity_def)

lemma simulates_vault:
  assumes "rep s I Q"
  shows "simulates s (EvReady sid)" and "simulates s (EvLocked sid)"
proof -
  have same: "broker_inv s" using assms by (rule rep_inv)
  have switch: "broker_inv (s\<lparr>agent := a\<rparr>)
      \<and> (abs_state s)\<lparr>sp_agent := a\<rparr> = abs_state (s\<lparr>agent := a\<rparr>)"
    if "connected_remote (agent s) = Some (sid, capacity)" "connected_remote a = Some (sid, capacity)" for a capacity
    using rep_inv [OF rep_agent [OF assms that]] by (simp add: abs_state_def admitted_def)
  have ag: "sp_agent (abs_state s) = agent s" by (simp add: abs_state_def)
  show "simulates s (EvReady sid)"
    using same switch [where a = "RemoteReady sid _"] ag
    by (auto simp: simulates_def split: option.splits)
  show "simulates s (EvLocked sid)"
    using same switch [where a = "RemoteLocked sid _"] ag
    by (cases "agent s") (auto simp: simulates_def)
qed

lemma requeue_frame [simp]: "max_pending_requests (requeue_session s sid) = max_pending_requests s"
  by (simp add: requeue_session_def Let_def)

lemma simulates_disconnected:
  assumes "rep s I Q"
  shows "simulates s (EvDisconnected sid)"
proof (cases "agent_session (agent s) = Some sid")
  case True
  note r = rep_disconnect [OF assms True, of False]
  have "spec_entry (unfly e) = (fst e, (spec_request_of (snd e))\<lparr>sr_state := Queued\<rparr>)" for e
    by (simp add: unfly_def spec_request_of_def)
  then show ?thesis
    using True rep_inv [OF r]
    by (simp add: simulates_def abs_rep [OF assms] abs_rep [OF r] comp_def)
qed (use assms rep_inv [OF assms] in \<open>simp add: simulates_def abs_rep [OF assms]\<close>)

lemma simulates_response:
  assumes "rep s I Q"
  shows "simulates s (EvResponse sid i attempt packet)"
proof (cases "\<exists>p. hm_get (pending s) i = Some p \<and> pr_state p = InFlight sid attempt")
  case True
  then obtain p where p: "hm_get (pending s) i = Some p" "pr_state p = InFlight sid attempt" by blast
  have r: "rep (s\<lparr>pending := hm_remove i (pending s)\<rparr>) (filter (\<lambda>e. fst e \<noteq> i) I) (filter (\<lambda>e. fst e \<noteq> i) Q)"
    using assms p by (intro rep_complete) auto
  then show ?thesis
    using p rep_inv [OF r] abs_remove [OF assms r]
    by (simp add: simulates_def remote_response_event_def abs_lookup [OF assms])
qed (use rep_inv [OF assms] in \<open>auto simp: simulates_def remote_response_event_def abs_lookup [OF assms] split: option.splits\<close>)

lemma simulates_cancelled:
  assumes "rep s I Q"
  shows "simulates s (EvCancelled i)"
  using rep_inv [OF assms] rep_inv [OF rep_cancel [OF assms, of i]] abs_remove [OF assms rep_cancel [OF assms, of i]]
  by (simp add: simulates_def cancel_request_def abs_lookup [OF assms] split: option.splits)

lemma handle_event_sim:
  assumes "rep s I Q" and "admissible s e"
  shows "simulates s e"
proof (cases e)
  case EvTick
  then show ?thesis using rep_inv [OF assms(1)] by (simp add: simulates_def)
qed (use assms in \<open>simp_all only: simulates_submit [OF assms(1)] simulates_connected simulates_vault
       simulates_disconnected simulates_response simulates_cancelled\<close>)

lemma expire_sim:
  assumes "broker_inv s"
  obtains s1 I Q where "expire s now = Some (s1, snd (spec_expire (abs_state s) now))"
    and "rep s1 I Q" and "fst (spec_expire (abs_state s) now) = abs_state s1"
    and "hm_keys (pending s1) \<subseteq> hm_keys (pending s)" and "next_sequence s1 = next_sequence s"
proof -
  from assms obtain I Q where r: "rep s I Q" by (rule inv_repE)
  let ?P = "alive now"
  let ?s1 = "s\<lparr>queue := map fst (filter ?P Q), pending := filter ?P (pending s)\<rparr>"
  have due: "spec_due now (spec_entry e) = due now e" for e
    by (simp add: spec_due_def due_def spec_request_of_def)
  have r1: "rep ?s1 (filter ?P I) (filter ?P Q)" using r by (rule rep_filter)
  have "spec_cancel (fst e) (spec_request_of (snd e)) @ [Complete (fst e) (Err TimedOut)] = timeout_effects e" for e
    by (simp add: timeout_effects_def)
  then have "spec_expire (abs_state s) now =
      (abs_state ?s1, concat (map timeout_effects (filter (due now) (I @ Q))))"
    using abs_rep [OF r1] by (simp add: spec_expire_def abs_rep [OF r] filter_map comp_def due alive_due)
  with expire_rep [OF r] r1 show ?thesis
    by (intro that [of ?s1 "filter ?P I" "filter ?P Q"]) auto
qed

theorem apply_refines:
  assumes "broker_inv s" and "admissible s e"
  shows "\<exists>s' r. apply_event s e now = Some (s', r) \<and> broker_inv s' \<and> spec_apply (abs_state s) e now = (abs_state s', r)"
proof -
  from assms(1) obtain s1 I Q where x: "expire s now = Some (s1, snd (spec_expire (abs_state s) now))"
    and r1: "rep s1 I Q" and a1: "fst (spec_expire (abs_state s) now) = abs_state s1"
    and k1: "hm_keys (pending s1) \<subseteq> hm_keys (pending s)" "next_sequence s1 = next_sequence s"
    by (rule expire_sim)
  have "admissible s1 e" using assms(2) k1 by (cases e) auto
  then have "simulates s1 e" using r1 by (intro handle_event_sim)
  then obtain s2 r where h: "handle_event s1 e = Some (s2, r)" "broker_inv s2"
      "spec_handle (abs_state s1) e = (abs_state s2, r)"
    unfolding simulates_def by blast
  from h(2) obtain I2 Q2 where r2: "rep s2 I2 Q2" by (rule inv_repE)
  show ?thesis
    using x a1 h reconcile_sim [OF r2]
    by (cases r) (auto simp: apply_event_def spec_apply_def case_prod_beta' Let_def)
qed

end
