(* ===== verification/Broker_Props.thy ===== *)
theory Broker_Props
  imports Broker_Correct
begin

text \<open>
  The properties of the request broker model: what every call of \<open>apply\<close> guarantees about
  the queue, the pending set and the effects it returns.
\<close>

section \<open>Reading effects\<close>

fun completes :: "effect \<Rightarrow> request_id list" where
  "completes (Complete i _) = [i]"
| "completes _ = []"

fun dispatches :: "effect \<Rightarrow> request_id list" where
  "dispatches (Dispatch _ i _ _ _ _ _) = [i]"
| "dispatches _ = []"

fun wakes :: "effect \<Rightarrow> wake_request list" where
  "wakes (WakeRequired w) = [w]"
| "wakes _ = []"

definition completed :: "effect list \<Rightarrow> request_id list" where
  "completed es = concat (map completes es)"

definition dispatched :: "effect list \<Rightarrow> request_id list" where
  "dispatched es = concat (map dispatches es)"

definition woken :: "effect list \<Rightarrow> wake_request list" where
  "woken es = concat (map wakes es)"

lemmas effect_defs = completed_def dispatched_def woken_def

fun submitted :: "event \<Rightarrow> request_id list" where
  "submitted (EvSubmit i _ _ _ _ _) = [i]"
| "submitted _ = []"

lemma effects_append [simp]:
  "completed (xs @ ys) = completed xs @ completed ys"
  "dispatched (xs @ ys) = dispatched xs @ dispatched ys"
  "woken (xs @ ys) = woken xs @ woken ys"
  by (simp_all add: effect_defs)

lemma effects_Cons [simp]:
  "completed (x # ys) = completes x @ completed ys"
  "dispatched (x # ys) = dispatches x @ dispatched ys"
  "woken (x # ys) = wakes x @ woken ys"
  by (simp_all add: effect_defs)

lemma effects_Nil [simp]: "completed [] = []" "dispatched [] = []" "woken [] = []"
  by (simp_all add: effect_defs)

lemma effects_cancel [simp]:
  "completed (cancel_effects i p) = []" "dispatched (cancel_effects i p) = []" "woken (cancel_effects i p) = []"
  by (simp_all add: cancel_effects_def split: pending_state.splits)

lemma effects_timeout [simp]:
  "completed (concat (map timeout_effects es)) = map fst es"
  "dispatched (concat (map timeout_effects es)) = []"
  "woken (concat (map timeout_effects es)) = []"
  by (induction es) (simp_all add: timeout_effects_def)

lemma effects_launch [simp]:
  "completed (map (launch_effect sid) es) = []"
  "dispatched (map (launch_effect sid) es) = map fst es"
  "woken (map (launch_effect sid) es) = []"
  by (induction es) (simp_all add: launch_effect_def dispatch_effect_def)

lemma handle_event_effects:
  assumes "handle_event s e = Some (s', Ok es)"
  shows "dispatched es = []" and "woken es = []"
  using assms
  by (cases e; auto simp: submit_request_def remote_response_event_def cancel_request_def
      split: option.splits if_splits remote_agent_state.splits)+

section \<open>Anatomy of one call\<close>

lemma apply_OkE:
  assumes "broker_inv s" and "admissible s e" and "apply_event s e now = Some (s', Ok es)"
  obtains I Q s1 s2 hs where "rep s I Q"
    and "s1 = s\<lparr>queue := map fst (filter (alive now) Q), pending := filter (alive now) (pending s)\<rparr>"
    and "rep s1 (filter (alive now) I) (filter (alive now) Q)" and "admissible s1 e"
    and "handle_event s1 e = Some (s2, Ok hs)" and "broker_inv s2"
    and "s' = fst (reconcile s2)"
    and "es = concat (map timeout_effects (filter (due now) (I @ Q))) @ hs @ snd (reconcile s2)"
proof -
  from assms(1) obtain I Q where r: "rep s I Q" by (rule inv_repE)
  let ?s1 = "s\<lparr>queue := map fst (filter (alive now) Q), pending := filter (alive now) (pending s)\<rparr>"
  have r1: "rep ?s1 (filter (alive now) I) (filter (alive now) Q)" using r by (rule rep_filter)
  have adm: "admissible ?s1 e" using assms(2) by (cases e) auto
  from handle_event_sim [OF r1 adm] obtain s2 x where h: "handle_event ?s1 e = Some (s2, x)" "broker_inv s2"
    unfolding simulates_def by blast
  moreover obtain hs where "x = Ok hs" using assms(3) h expire_rep [OF r]
    by (cases x) (auto simp: apply_event_def)
  ultimately show ?thesis
    using that [OF r refl r1 adm] assms(3) expire_rep [OF r]
    by (auto simp: apply_event_def Let_def case_prod_beta')
qed

text \<open>The state after a successful call, with the requests that the call dispatched.\<close>

lemma apply_OkE_final:
  assumes "broker_inv s" and "admissible s e" and "apply_event s e now = Some (s', Ok es)"
  obtains pre Q where "rep s' pre Q" and "\<exists>old. map fst pre = old @ dispatched es"
    and "\<forall>sid capacity. connected_remote (agent s') = Some (sid, capacity) \<longrightarrow> Q \<noteq> [] \<longrightarrow> capacity \<le> length pre"
    and "connected_remote (agent s') = None \<longrightarrow> wake_announced s' = (Q \<noteq> [])"
proof -
  from assms obtain I Q s1 s2 hs where h: "handle_event s1 e = Some (s2, Ok hs)"
    and inv2: "broker_inv s2" and s': "s' = fst (reconcile s2)"
    and es: "es = concat (map timeout_effects (filter (due now) (I @ Q))) @ hs @ snd (reconcile s2)"
    by (rule apply_OkE) blast
  have d: "dispatched es = dispatched (snd (reconcile s2))"
    using es handle_event_effects [OF h] by (simp del: filter_append)
  from inv2 obtain I2 Q2 where r2: "rep s2 I2 Q2" by (rule inv_repE)
  have ag: "agent s' = agent s2"
    by (simp add: s' reconcile_def dispatch_work_def announce_wake_def case_prod_beta' Let_def split: option.splits)
  show ?thesis
  proof (cases "connected_remote (agent s2)")
    case None
    note off = reconcile_offline [OF r2 None]
    from off(2) d have "dispatched es = []" by (simp split: if_splits)
    with that [of I2 Q2] off(1,3) ag None s' show ?thesis by auto
  next
    case (Some c)
    then obtain sid capacity where c: "connected_remote (agent s2) = Some (sid, capacity)" by (cases c) auto
    note on = reconcile_connected [OF r2 c]
    let ?k = "capacity - length I2"
    have "dispatched es = map fst (take ?k Q2)" using d on(2) by simp
    then have "map fst (I2 @ map (launch sid) (take ?k Q2)) = map fst I2 @ dispatched es" by simp
    then show ?thesis
      by (intro that [OF on(1) [folded s']]) (use ag c in auto)
  qed
qed

section \<open>Steps and runs\<close>

text \<open>One call of \<open>apply\<close> as a labelled step; runs start from \<open>BrokerState::new\<close>.\<close>

inductive broker_step :: "broker_state \<Rightarrow> event \<times> instant \<Rightarrow> broker_state \<Rightarrow> bool" where
  broker_step: "admissible s e \<Longrightarrow> apply_event s e now = Some (s', r) \<Longrightarrow> broker_step s (e, now) s'"

inductive_cases broker_stepE: "broker_step s l s'"

lemma broker_step_inv: "broker_step s l s' \<Longrightarrow> broker_inv s \<Longrightarrow> broker_inv s'"
  by (elim broker_stepE) (metis apply_refines option.inject prod.inject)

interpretation broker_runs: kept_by_steps broker_step broker_inv
  by unfold_locales (rule broker_step_inv)

lemma broker_new_inv: "broker_inv (broker_new n)"
  using rep_new by (rule rep_inv)

lemma apply_frame:
  assumes "apply_event s e now = Some (s', r)"
  shows "max_pending_requests s' = max_pending_requests s"
proof -
  have x: "expire s now = Some (s1, es) \<Longrightarrow> max_pending_requests s1 = max_pending_requests s" for s1 es
    by (auto simp: expire_def Let_def split: option.splits)
  have h: "handle_event s1 e = Some (s2, x) \<Longrightarrow> max_pending_requests s2 = max_pending_requests s1" for s1 s2 x
    by (cases e) (auto simp: submit_request_def remote_response_event_def cancel_request_def
        split: option.splits if_splits remote_agent_state.splits)
  have "max_pending_requests (fst (reconcile s2)) = max_pending_requests s2" for s2
    by (simp add: reconcile_def dispatch_work_def announce_wake_def case_prod_beta' Let_def split: option.splits)
  with assms x h show ?thesis
    by (auto simp: apply_event_def Let_def case_prod_beta' split: option.splits sum.splits)
qed

lemma runs_frame: "runs broker_step s ls t \<Longrightarrow> max_pending_requests t = max_pending_requests s"
  by (induction rule: runs.induct) (auto elim!: broker_stepE dest: apply_frame)

section \<open>Accounting\<close>

lemma keys_mset_split:
  assumes "rep s I Q"
  shows "mset (map fst (pending s)) =
    mset (map fst (filter (alive now) (pending s))) + mset (map fst (filter (due now) (I @ Q)))"
proof -
  have "mset (filter (due now) (I @ Q)) = mset (filter (due now) (pending s))"
    using assms unfolding rep_def by (simp only: mset_filter)
  moreover have "mset (pending s) = mset (filter (alive now) (pending s)) + mset (filter (due now) (pending s))"
    unfolding alive_due mset_filter by (simp add: multiset_partition [of _ "due now"] add.commute)
  ultimately show ?thesis
    by (simp only: mset_map image_mset_union)
qed

lemma mset_remove_key:
  assumes "hm_ok m" and "hm_get m i = Some p"
  shows "mset (map fst m) = add_mset i (mset (map fst (hm_remove i m)))"
proof -
  have "distinct (map fst m)" "i \<in> set (map fst m)"
    using assms by (auto simp: hm_ok_def hm_get_def image_iff dest!: map_of_SomeD intro: bexI [rotated])
  then have "mset (map fst m) = add_mset i (mset (remove1 i (map fst m)))" by simp
  moreover have "map fst (hm_remove i m) = remove1 i (map fst m)"
    using \<open>distinct (map fst m)\<close> by (simp add: hm_remove_def distinct_remove1_removeAll removeAll_filter_not_eq filter_map comp_def)
       (metis (lifting))
  ultimately show ?thesis by simp
qed

lemma handle_event_accounts:
  assumes "rep s I Q" and "admissible s e" and "handle_event s e = Some (s', Ok es)"
  shows "mset (completed es) + mset (map fst (pending s')) = mset (map fst (pending s)) + mset (submitted e)"
proof -
  note ok = rep_hm_ok [OF assms(1)]
  have "map fst (pending (requeue_session s sid)) = map fst (pending s)" for sid
    by (simp add: requeue_session_def Let_def case_prod_beta' comp_def)
  then have uf: "image_mset fst (mset (pending (requeue_session s sid))) = image_mset fst (mset (pending s))" for sid
    by (metis mset_map)
  show ?thesis
  proof (cases e)
    case (EvSubmit i pk c d ra dt)
    then show ?thesis
      using assms(2,3) by (auto simp: submit_request_def hm_insert_absent hm_get_None_iff split: if_splits)
  next
    case (EvResponse sid i a pk)
    then show ?thesis
      using assms(3) mset_remove_key [OF ok]
      by (auto simp: remote_response_event_def split: option.splits if_splits)
  next
    case (EvCancelled i)
    then show ?thesis
      using assms(3) mset_remove_key [OF ok]
      by (auto simp: cancel_request_def split: option.splits)
  qed (use assms(3) uf in \<open>auto split: option.splits if_splits remote_agent_state.splits\<close>)
qed

lemma reconcile_accounts:
  "completed (snd (reconcile s)) = []" "map fst (pending (fst (reconcile s))) = map fst (pending s)"
proof -
  have "map fst (fst (snd (dispatch_loop sid c n q m))) = map fst m
      \<and> completed (snd (snd (dispatch_loop sid c n q m))) = []" for sid c n q m
    by (induction q arbitrary: n m)
      (auto simp: Let_def case_prod_beta' dispatch_effect_def split: option.splits)
  then show "completed (snd (reconcile s)) = []" "map fst (pending (fst (reconcile s))) = map fst (pending s)"
    by (simp_all add: reconcile_def dispatch_work_def announce_wake_def case_prod_beta' Let_def split: option.splits)
qed

lemma reconcile_keys: "hm_keys (pending (fst (reconcile s))) = hm_keys (pending s)"
  using arg_cong [OF reconcile_accounts(2), of set s] by simp

lemma reconcile_no_complete: "Complete j r \<notin> set (snd (reconcile s))"
  using reconcile_accounts(1) [of s] by (force simp: completed_def)

lemma apply_accounts:
  assumes "broker_inv s" and "admissible s e" and "apply_event s e now = Some (s', Ok es)"
  shows "mset (completed es) + mset (map fst (pending s')) = mset (map fst (pending s)) + mset (submitted e)"
proof -
  from assms obtain I Q s1 s2 hs where r: "rep s I Q"
    and s1: "s1 = s\<lparr>queue := map fst (filter (alive now) Q), pending := filter (alive now) (pending s)\<rparr>"
    and r1: "rep s1 (filter (alive now) I) (filter (alive now) Q)" and adm: "admissible s1 e"
    and h: "handle_event s1 e = Some (s2, Ok hs)" and s': "s' = fst (reconcile s2)"
    and es: "es = concat (map timeout_effects (filter (due now) (I @ Q))) @ hs @ snd (reconcile s2)"
    by (rule apply_OkE)
  have "mset (completed hs) + mset (map fst (pending s2)) = mset (map fst (pending s1)) + mset (submitted e)"
    using r1 adm h by (rule handle_event_accounts)
  moreover have "mset (map fst (pending s)) = mset (map fst (pending s1)) + mset (map fst (filter (due now) (I @ Q)))"
    using keys_mset_split [OF r, of now] by (simp only: s1) simp
  moreover have "completed es = map fst (filter (due now) (I @ Q)) @ completed hs"
    by (simp only: es effects_append effects_timeout reconcile_accounts append_Nil2)
  ultimately show ?thesis
    by (simp only: s' reconcile_accounts mset_append add.assoc) (simp only: ac_simps)
qed

section \<open>Example states\<close>

text \<open>Concrete states at which the properties are applied.\<close>

definition ex_request :: "instant \<Rightarrow> nat \<Rightarrow> pending_state \<Rightarrow> nat \<Rightarrow> pending_request" where
  "ex_request deadline sequence st attempt =
     \<lparr>pr_packet = [0, 0, 0, 1, 13],
      pr_context = Some \<lparr>group_id = 5, reason = [80, 117, 115, 104], command = [[103, 105, 116]]\<rparr>,
      pr_deadline = deadline, pr_requested_at = 1000, pr_deadline_timestamp = 91000,
      pr_sequence = sequence, pr_attempt = attempt, pr_state = st\<rparr>"

text \<open>Session 7 with capacity 1: request 1 in flight, request 2 queued behind it.\<close>

definition ex_busy :: broker_state where
  "ex_busy =
     \<lparr>agent = RemoteReady 7 1,
      pending = [(2, ex_request 50 1 Queued 0), (1, ex_request 100 0 (InFlight 7 1) 1)],
      queue = [2], max_pending_requests = 4, next_sequence = 2, wake_announced = False\<rparr>"

text \<open>No client: two queued requests, already announced.\<close>

definition ex_offline :: broker_state where
  "ex_offline =
     \<lparr>agent = RemoteDisconnected,
      pending = [(1, ex_request 100 0 Queued 1), (2, ex_request 50 1 Queued 0)],
      queue = [1, 2], max_pending_requests = 4, next_sequence = 2, wake_announced = True\<rparr>"

lemmas ex_defs = ex_busy_def ex_offline_def ex_request_def

lemma ex_busy_inv: "broker_inv ex_busy"
  by (simp add: broker_inv_def admitted_def seq_of_def is_queued_def within_capacity_def ex_defs Let_def)

lemma ex_offline_inv: "broker_inv ex_offline"
  by (simp add: broker_inv_def admitted_def seq_of_def is_queued_def within_capacity_def ex_defs Let_def)

lemmas apply_unfold = apply_event_def expire_def reconcile_def dispatch_work_def announce_wake_def
  wake_reasons_def in_flight_for_def hm_get_def hm_remove_def hm_set_def cancel_effects_def
  start_attempt_def dispatch_effect_def List.map_filter_def Let_def

section \<open>Properties\<close>

text \<open>
  C2: the broker with its hash map, queue and sequence numbers refines the ordered request
  list: in a state with the invariant, \<open>apply\<close> never panics, keeps the invariant, and returns
  exactly the result (every effect, in order) and the abstract state of the specification.
\<close>

theorem broker_apply_refines_spec:
  assumes "broker_inv s" and "admissible s e"
  shows "\<exists>s' r. apply_event s e now = Some (s', r) \<and> broker_inv s'
    \<and> spec_apply (abs_state s) e now = (abs_state s', r)"
  using assms by (rule apply_refines)

theorem broker_apply_refines_spec_witness:
  "\<exists>s' r. apply_event ex_busy (EvDisconnected 7) 10 = Some (s', r) \<and> broker_inv s'
    \<and> spec_apply (abs_state ex_busy) (EvDisconnected 7) 10 = (abs_state s', r)"
  by (rule broker_apply_refines_spec [OF ex_busy_inv]) simp

text \<open>
  C13: in every state that a run of the broker reaches from \<open>BrokerState::new\<close>, the next
  event is handled without a panic, the pending set respects the configured limit, the
  requests in flight respect the capacity of the connected session, and the FIFO queue is
  exactly the undispatched part of the admission order.
\<close>

theorem broker_reachable_bounds:
  assumes "runs broker_step (broker_new limit) ls s"
  shows "length (pending s) \<le> limit
    \<and> (\<forall>sid capacity. connected_remote (agent s) = Some (sid, capacity) \<longrightarrow> in_flight_for (pending s) sid \<le> capacity)
    \<and> queue s = map fst (filter is_queued (admitted s))
    \<and> (\<forall>e now. admissible s e \<longrightarrow> apply_event s e now \<noteq> None)"
proof (intro conjI allI impI)
  have inv: "broker_inv s" using broker_runs.runs_keep [OF assms broker_new_inv] .
  then obtain I Q where r: "rep s I Q" by (rule inv_repE)
  have "max_pending_requests s = limit" using runs_frame [OF assms] by (simp add: broker_new_def)
  with r rep_length [OF r] show "length (pending s) \<le> limit" by (simp add: rep_def)
  show "in_flight_for (pending s) sid \<le> capacity"
    if c: "connected_remote (agent s) = Some (sid, capacity)" for sid capacity
    using r c in_flight_for_rep [OF r connected_session [OF c]] by (simp add: rep_def within_capacity_def)
  have "filter is_queued I = []" "filter is_queued Q = Q"
    using r by (auto simp: rep_def filter_empty_conv dest: flying_not_queued)
  then show "queue s = map fst (filter is_queued (admitted s))"
    using r by (simp add: rep_admitted [OF r]) (simp add: rep_def)
  show "apply_event s e now \<noteq> None" if "admissible s e" for e now
    using apply_refines [OF inv that, of now] by auto
qed

theorem broker_reachable_bounds_witness:
  "\<exists>s. runs broker_step (broker_new 4) [(EvConnected 7 1, 0)] s \<and> in_flight_for (pending s) 7 \<le> 1
    \<and> apply_event s EvTick 5 \<noteq> None"
proof -
  let ?s = "(broker_new 4)\<lparr>agent := RemoteLocked 7 1\<rparr>"
  have "apply_event (broker_new 4) (EvConnected 7 1) 0 = Some (?s, Ok [])"
    by (simp add: apply_unfold broker_new_def)
  then have run: "runs broker_step (broker_new 4) [(EvConnected 7 1, 0)] ?s"
    by (intro runs_Cons broker_step runs_Nil) auto
  show ?thesis
    using run broker_reachable_bounds [OF run] by auto
qed

text \<open>
  C16: dispatch is first-in first-out across reconnects: after a successful call, the
  admission order of the pending requests is the requests already in flight, then the
  requests this call dispatched in the order of its effects, then the queue.
\<close>

theorem broker_dispatch_fifo:
  assumes "broker_inv s" and "admissible s e" and "apply_event s e now = Some (s', Ok es)"
  shows "\<exists>old. map fst (admitted s') = old @ dispatched es @ queue s'"
proof -
  from assms obtain pre Q where r: "rep s' pre Q" and "\<exists>old. map fst pre = old @ dispatched es"
    by (rule apply_OkE_final) blast
  moreover from r have "map fst (admitted s') = map fst pre @ queue s'"
    by (simp add: rep_admitted) (simp add: rep_def)
  ultimately show ?thesis by auto
qed

theorem broker_dispatch_fifo_witness:
  "\<exists>s' es old. apply_event ex_busy (EvResponse 7 1 1 [9]) 10 = Some (s', Ok es)
    \<and> dispatched es = [2] \<and> map fst (admitted s') = old @ [2] @ queue s'"
proof -
  obtain s' es where run: "apply_event ex_busy (EvResponse 7 1 1 [9]) 10 = Some (s', Ok es)" "dispatched es = [2]"
    by (simp add: apply_unfold remote_response_event_def ex_defs)
  then show ?thesis
    using broker_dispatch_fifo [OF ex_busy_inv _ run(1)] by auto
qed

text \<open>
  Every request is answered exactly once. Over one successful call, the identifiers the
  call completes and those still pending are, as multisets, those that were pending and the
  one submitted: a request leaves the pending set exactly when its completion is emitted.
\<close>

lemma broker_completes_exactly_once:
  assumes "broker_inv s" and "admissible s e" and "apply_event s e now = Some (s', Ok es)"
  shows "mset (completed es) + mset (map fst (pending s')) = mset (map fst (pending s)) + mset (submitted e)"
  using assms by (rule apply_accounts)

text \<open>
  The exception to exactly-once completion. A \<open>Connected\<close> event while a client is connected is rejected after
  expiry has already run: the requests whose deadline has passed leave the pending set, and
  the error return drops their cancellations and \<open>TimedOut\<close> completions.
\<close>

lemma broker_rejected_connect_drops_timeouts:
  assumes "broker_inv s" and "agent s \<noteq> RemoteDisconnected"
  shows "\<exists>s'. apply_event s (EvConnected sid capacity) now = Some (s', Err RemoteAlreadyConnected)
    \<and> pending s' = filter (\<lambda>(_, p). now < pr_deadline p) (pending s)"
proof -
  from assms(1) obtain I Q where "rep s I Q" by (rule inv_repE)
  note x = expire_rep [OF this, of now]
  have "alive now = (\<lambda>(_, p). now < pr_deadline p)" by (auto simp: alive_def)
  with x assms(2) show ?thesis by (simp add: apply_event_def)
qed

text \<open>
  A response completes a request only when it carries the session and the attempt the
  request is in flight with. A response from an earlier session, an earlier attempt or for
  an unknown request changes nothing: the call behaves as a timer tick.
\<close>

lemma broker_stale_response_ignored:
  assumes "broker_inv s"
    and "\<And>p. hm_get (pending s) i = Some p \<Longrightarrow> pr_state p \<noteq> InFlight sid attempt"
  shows "apply_event s (EvResponse sid i attempt packet) now = apply_event s EvTick now"
proof -
  from assms(1) obtain I Q where r: "rep s I Q" by (rule inv_repE)
  let ?m = "filter (alive now) (pending s)"
  have "hm_ok ?m" using rep_hm_ok [OF r] by simp
  then have "hm_get (pending s) i = Some p" if "hm_get ?m i = Some p" for p
    using that rep_hm_ok [OF r] by (auto simp: hm_get_Some_iff)
  with assms(2) have "remote_response_event (s\<lparr>queue := q, pending := ?m\<rparr>) sid i attempt packet
      = (s\<lparr>queue := q, pending := ?m\<rparr>, [])" for q
    by (auto simp: remote_response_event_def split: option.splits)
  then show ?thesis by (simp add: apply_event_def expire_rep [OF r])
qed

text \<open>
  The matching response, before the deadline, completes its request with the response
  packet unchanged and removes it; nothing else is completed but requests whose own
  deadline has passed.
\<close>

lemma broker_response_completes:
  assumes "broker_inv s" and "hm_get (pending s) i = Some p"
    and "pr_state p = InFlight sid attempt" and "now < pr_deadline p"
  shows "\<exists>s' es. apply_event s (EvResponse sid i attempt packet) now = Some (s', Ok es)
    \<and> Complete i (Ok packet) \<in> set es \<and> hm_get (pending s') i = None
    \<and> (\<forall>j r. Complete j r \<in> set es \<longrightarrow> j = i \<and> r = Ok packet
         \<or> r = Err TimedOut \<and> (\<exists>q. hm_get (pending s) j = Some q \<and> pr_deadline q \<le> now))"
proof -
  from assms(1) obtain I Q where r: "rep s I Q" by (rule inv_repE)
  let ?s1 = "s\<lparr>queue := map fst (filter (alive now) Q), pending := filter (alive now) (pending s)\<rparr>"
  let ?s2 = "?s1\<lparr>pending := hm_remove i (filter (alive now) (pending s))\<rparr>"
  have "hm_get (pending ?s1) i = Some p"
    using assms(2,4) rep_hm_ok [OF r] by (auto simp: hm_get_Some_iff alive_def)
  with assms(3) have h: "handle_event ?s1 (EvResponse sid i attempt packet) = Some (?s2, Ok [Complete i (Ok packet)])"
    by (simp add: remote_response_event_def)
  let ?es = "concat (map timeout_effects (filter (due now) (I @ Q)))"
  have run: "apply_event s (EvResponse sid i attempt packet) now =
      Some (fst (reconcile ?s2), Ok (?es @ [Complete i (Ok packet)] @ snd (reconcile ?s2)))"
    using expire_rep [OF r, of now] h by (simp add: apply_event_def Let_def case_prod_beta')
  have "i \<notin> hm_keys (pending ?s2)" by (auto simp: hm_remove_def)
  then have "hm_get (pending (fst (reconcile ?s2))) i = None"
    by (simp add: hm_get_None_iff reconcile_keys)
  moreover have "r = Err TimedOut \<and> (\<exists>q. hm_get (pending s) j = Some q \<and> pr_deadline q \<le> now)"
    if "Complete j r \<in> set ?es" for j r
  proof -
    from that obtain e where e: "e \<in> set I \<union> set Q" "due now e" "Complete j r \<in> set (timeout_effects e)"
      by auto
    then have "j = fst e" "r = Err TimedOut"
      by (auto simp: timeout_effects_def cancel_effects_def split: pending_state.splits)
    with e rep_get [OF r e(1)] show ?thesis by (auto simp: due_def)
  qed
  moreover have "Complete j r \<notin> set (snd (reconcile ?s2))" for j r
    by (rule reconcile_no_complete)
  ultimately show ?thesis using run by auto
qed

text \<open>
  Reconciliation is work-conserving. After a successful call, a request waits in the
  queue only if the connected session's capacity is used up or nobody is connected, and in
  the latter case the need for a wake-up has been announced.
\<close>

lemma broker_work_conserving:
  assumes "broker_inv s" and "admissible s e" and "apply_event s e now = Some (s', Ok es)"
    and "queue s' \<noteq> []"
  shows "(case connected_remote (agent s') of
      Some (sid, capacity) \<Rightarrow> in_flight_for (pending s') sid = capacity
    | None \<Rightarrow> wake_announced s')"
proof -
  from assms(1-3) obtain pre Q where r: "rep s' pre Q" and "\<exists>old. map fst pre = old @ dispatched es"
    and full: "\<forall>sid capacity. connected_remote (agent s') = Some (sid, capacity) \<longrightarrow> Q \<noteq> [] \<longrightarrow> capacity \<le> length pre"
    and wake: "connected_remote (agent s') = None \<longrightarrow> wake_announced s' = (Q \<noteq> [])"
    by (rule apply_OkE_final)
  have Q: "Q \<noteq> []" using r assms(4) by (auto simp: rep_def)
  show ?thesis
  proof (cases "connected_remote (agent s')")
    case None
    with wake Q show ?thesis by simp
  next
    case (Some c)
    then obtain sid capacity where c: "connected_remote (agent s') = Some (sid, capacity)" by (cases c) auto
    have "length pre \<le> capacity" using r c by (simp add: rep_def within_capacity_def)
    then have "in_flight_for (pending s') sid = capacity"
      using full c Q in_flight_for_rep [OF r connected_session [OF c]] by simp
    with c show ?thesis by simp
  qed
qed

lemma dispatch_loop_deadlines:
  "(i, p) \<in> set (fst (snd (dispatch_loop sid c n q m))) \<Longrightarrow> \<exists>p0. (i, p0) \<in> set m \<and> pr_deadline p0 = pr_deadline p"
proof (induction q arbitrary: n m)
  case (Cons j q)
  show ?case
  proof (cases "n < c \<and> hm_get m j \<noteq> None")
    case True
    then obtain pj where pj: "hm_get m j = Some pj" "(j, pj) \<in> set m"
      by (auto simp: hm_get_def dest: map_of_SomeD)
    with True Cons.prems have "(i, p) \<in> set (fst (snd (dispatch_loop sid c (n + 1) q (hm_set j (start_attempt sid pj) m))))"
      by (simp add: Let_def case_prod_beta')
    from Cons.IH [OF this] pj show ?thesis
      by (fastforce simp: hm_set_def start_attempt_def split: if_splits)
  qed (use Cons in \<open>auto split: if_splits\<close>)
qed auto

lemma reconcile_deadlines:
  "(i, p) \<in> set (pending (fst (reconcile s))) \<Longrightarrow> \<exists>p0. (i, p0) \<in> set (pending s) \<and> pr_deadline p0 = pr_deadline p"
  using dispatch_loop_deadlines
  by (fastforce simp: reconcile_def dispatch_work_def announce_wake_def case_prod_beta' Let_def split: option.splits if_splits)

lemma handle_event_deadlines:
  assumes "handle_event s e = Some (s', Ok es)" and "(i, p) \<in> set (pending s')" and "i \<notin> set (submitted e)"
  shows "\<exists>p0. (i, p0) \<in> set (pending s) \<and> pr_deadline p0 = pr_deadline p"
  using assms
  by (cases e; fastforce simp: submit_request_def remote_response_event_def cancel_request_def hm_insert_def
      hm_remove_def requeue_session_def Let_def split: option.splits if_splits remote_agent_state.splits)

text \<open>
  No request outlives its deadline. After a successful call at time \<open>now\<close>, every pending
  request but the one just submitted has a later deadline, and so has every request the
  call dispatched; a submitted request keeps the deadline it came with.
\<close>

lemma broker_deadlines_respected:
  assumes "broker_inv s" and "admissible s e" and "apply_event s e now = Some (s', Ok es)"
    and "hm_get (pending s') i = Some p" and "i \<notin> set (submitted e)"
  shows "now < pr_deadline p \<and> (\<exists>p0. hm_get (pending s) i = Some p0 \<and> pr_deadline p = pr_deadline p0)"
proof -
  from assms(1-3) obtain I Q s1 s2 hs where r: "rep s I Q"
    and s1: "s1 = s\<lparr>queue := map fst (filter (alive now) Q), pending := filter (alive now) (pending s)\<rparr>"
    and h: "handle_event s1 e = Some (s2, Ok hs)" and s': "s' = fst (reconcile s2)"
    by (rule apply_OkE) blast
  have "(i, p) \<in> set (pending (fst (reconcile s2)))"
    using assms(4) s' by (auto simp: hm_get_def dest: map_of_SomeD)
  then obtain p2 where p2: "(i, p2) \<in> set (pending s2)" "pr_deadline p2 = pr_deadline p"
    using reconcile_deadlines by blast
  then obtain p1 where p1: "(i, p1) \<in> set (pending s1)" "pr_deadline p1 = pr_deadline p2"
    using handle_event_deadlines [OF h _ assms(5)] by blast
  then show ?thesis using p2 rep_hm_ok [OF r] by (auto simp: s1 alive_def hm_get_Some_iff)
qed

text \<open>
  C17: a disconnect returns all unfinished work to the queue in admission order. Every request
  that is not due is queued again, none is lost or reordered, each keeps its packet, context,
  deadline and attempt counter, and if any remain a wake-up is announced at once.
\<close>

theorem broker_disconnect_requeues:
  assumes "broker_inv s" and "agent_session (agent s) = Some sid"
  shows "\<exists>s' es. apply_event s (EvDisconnected sid) now = Some (s', Ok es)
    \<and> agent s' = RemoteDisconnected
    \<and> queue s' = map fst (filter (\<lambda>(_, p). now < pr_deadline p) (admitted s))
    \<and> admitted s' = map (\<lambda>(i, p). (i, p\<lparr>pr_state := Queued\<rparr>)) (filter (\<lambda>(_, p). now < pr_deadline p) (admitted s))
    \<and> length (woken es) = (if queue s' = [] then 0 else 1)"
proof -
  from assms(1) obtain I Q where r: "rep s I Q" by (rule inv_repE)
  have al: "alive now = (\<lambda>(_, p). now < pr_deadline p)" by (auto simp: alive_def)
  let ?A = "filter (alive now) (I @ Q)"
  let ?s1 = "s\<lparr>queue := map fst (filter (alive now) Q), pending := filter (alive now) (pending s)\<rparr>"
  let ?s2 = "(requeue_session ?s1 sid)\<lparr>agent := RemoteDisconnected, wake_announced := False\<rparr>"
  have r1: "rep ?s1 (filter (alive now) I) (filter (alive now) Q)" using r by (rule rep_filter)
  have r2: "rep ?s2 [] (map unfly ?A)"
    using rep_disconnect [OF r1, of sid False] assms(2) by simp
  have off: "connected_remote (agent ?s2) = None" by simp
  note rc = reconcile_offline [OF r2 off]
  let ?es = "concat (map timeout_effects (filter (due now) (I @ Q))) @ snd (reconcile ?s2)"
  have run: "apply_event s (EvDisconnected sid) now = Some (fst (reconcile ?s2), Ok ?es)"
    using expire_rep [OF r, of now] assms(2) by (simp add: apply_event_def Let_def case_prod_beta')
  have "agent (fst (reconcile ?s2)) = RemoteDisconnected"
    by (simp add: reconcile_def dispatch_work_def announce_wake_def)
  moreover have q: "queue (fst (reconcile ?s2)) = map fst ?A"
    using rc(1) by (simp add: rep_def comp_def del: filter_append)
  moreover have "admitted (fst (reconcile ?s2)) = map unfly ?A"
    using rep_admitted [OF rc(1)] by simp
  moreover have "length (woken ?es) = (if map fst ?A = [] then 0 else 1)"
    using rc(2) by (simp del: filter_append)
  moreover have "unfly = (\<lambda>(i, p). (i, p\<lparr>pr_state := Queued\<rparr>))" by (auto simp: unfly_def)
  ultimately show ?thesis
    using run rep_admitted [OF r] unfolding al [symmetric] by (simp del: filter_append)
qed

theorem broker_disconnect_requeues_witness:
  "\<exists>s' es. apply_event ex_busy (EvDisconnected 7) 10 = Some (s', Ok es) \<and> queue s' = [1, 2]
    \<and> length (woken es) = 1"
proof -
  have "agent_session (agent ex_busy) = Some 7" by (simp add: ex_defs)
  from broker_disconnect_requeues [OF ex_busy_inv this, of 10]
  show ?thesis by (auto simp: admitted_def seq_of_def ex_defs)
qed

text \<open>
  C18: the result does not depend on the iteration order of the hash map. Two states that
  differ only in the order in which \<open>pending\<close> iterates give the same effects in the same
  order and the same abstract state.
\<close>

theorem broker_iteration_order_irrelevant:
  assumes "broker_inv s" and "admissible s e" and "mset m = mset (pending s)"
  shows "\<exists>s' t' r. apply_event s e now = Some (s', r) \<and> apply_event (s\<lparr>pending := m\<rparr>) e now = Some (t', r)
    \<and> abs_state s' = abs_state t'"
proof -
  let ?t = "s\<lparr>pending := m\<rparr>"
  from assms(1) obtain I Q where r: "rep s I Q" by (rule inv_repE)
  then have rt: "rep ?t I Q" using assms(3) by (simp add: rep_def)
  have "hm_keys m = hm_keys (pending s)" using mset_eq_setD [OF assms(3)] by simp
  then have "admissible ?t e" using assms(2) by (cases e) auto
  moreover have "abs_state ?t = abs_state s" by (simp add: abs_rep [OF r] abs_rep [OF rt])
  ultimately show ?thesis
    using apply_refines [OF assms(1,2), of now] apply_refines [OF rep_inv [OF rt], of e now] by auto
qed

theorem broker_iteration_order_irrelevant_witness:
  "\<exists>s' t' r. apply_event ex_busy EvTick 200 = Some (s', r)
    \<and> apply_event (ex_busy\<lparr>pending := rev (pending ex_busy)\<rparr>) EvTick 200 = Some (t', r)
    \<and> abs_state s' = abs_state t'"
  by (rule broker_iteration_order_irrelevant [OF ex_busy_inv]) simp_all

lemma min_deadline_None [simp]: "min_deadline ds = None \<longleftrightarrow> ds = []"
  by (cases ds) (simp_all split: option.splits)

lemma min_deadline_Some: "min_deadline ds = Some d \<Longrightarrow> d \<in> set ds \<and> (\<forall>x \<in> set ds. d \<le> x)"
proof (induction ds arbitrary: d)
  case (Cons x ds)
  show ?case
  proof (cases "min_deadline ds")
    case (Some m)
    then have "m \<in> set ds" "\<forall>y \<in> set ds. m \<le> y" using Cons.IH by auto
    then show ?thesis using Cons.prems Some by (auto simp: min_def split: if_splits)
  qed (use Cons.prems in auto)
qed simp

text \<open>
  The deadline timer makes progress. When the clock reaches \<open>next_deadline\<close>, the tick
  completes with \<open>TimedOut\<close> exactly the due requests, in admission order and at least one of
  them, and the next deadline, if there is one, lies in the future.
\<close>

lemma broker_timer_progress:
  assumes "broker_inv s" and "next_deadline s = Some d" and "d \<le> now"
  shows "\<exists>s' es. apply_event s EvTick now = Some (s', Ok es)
    \<and> completed es = map fst (filter (\<lambda>(_, p). pr_deadline p \<le> now) (admitted s)) \<and> completed es \<noteq> []
    \<and> (\<forall>d'. next_deadline s' = Some d' \<longrightarrow> now < d')"
proof -
  from assms(1) obtain I Q where r: "rep s I Q" by (rule inv_repE)
  let ?s1 = "s\<lparr>queue := map fst (filter (alive now) Q), pending := filter (alive now) (pending s)\<rparr>"
  have full: "apply_event s EvTick now = Some (fst (reconcile ?s1),
      Ok (concat (map timeout_effects (filter (due now) (I @ Q))) @ snd (reconcile ?s1)))"
    by (simp add: apply_event_def expire_rep [OF r] Let_def case_prod_beta')
  have due: "due now = (\<lambda>(_, p). pr_deadline p \<le> now)" by (auto simp: due_def)
  obtain i p where ip: "(i, p) \<in> set (pending s)" "pr_deadline p = d"
    using min_deadline_Some [OF assms(2) [unfolded next_deadline_def]] by auto
  then have "(i, p) \<in> set (filter (due now) (I @ Q))"
    using assms(3) rep_set [OF r] by (auto simp: due_def)
  then have nonempty: "filter (due now) (I @ Q) \<noteq> []" by (metis empty_iff empty_set)
  have "now < d'" if nd: "next_deadline (fst (reconcile ?s1)) = Some d'" for d'
  proof -
    obtain j q where "(j, q) \<in> set (pending (fst (reconcile ?s1)))" "pr_deadline q = d'"
      using min_deadline_Some [OF nd [unfolded next_deadline_def]] by auto
    then show ?thesis using reconcile_deadlines [of j q ?s1] by (auto simp: alive_def)
  qed
  with full nonempty show ?thesis
    by (simp add: rep_admitted [OF r] reconcile_accounts due [symmetric] del: filter_append)
qed

end
