(* ===== verification/Broker_Task.thy ===== *)
theory Broker_Task
  imports Broker_Props
begin

text \<open>
  \<open>broker/task.rs\<close> and the interface types of \<open>broker/mod.rs\<close>: the actor that owns the
  broker state. Every operation returns the new actor and the messages it sends, in order;
  \<^term>\<open>None\<close> is a panic inside \<open>apply\<close>. The clocks and the generated identifiers are
  arguments of the operations that read them. Channels are numbered; whether the
  receiving end of a session's channel still accepts a message is the argument \<open>send_ok\<close>.
\<close>

section \<open>Interface types\<close>

record broker_config =
  request_timeout :: duration
  bc_max_pending_requests :: nat

datatype remote_command =
    RcRequest request_id nat nat nat bytes "request_context option"
  | RcCancel request_id nat

datatype broker_error = BrokerUnavailable | BrokerRemoteAlreadyConnected | InvalidRemoteCapacity

datatype broker_command =
    CmdConnect nat nat nat
  | CmdReady session_id
  | CmdLocked session_id
  | CmdDisconnected session_id
  | CmdResponse session_id request_id nat bytes
  | CmdShutdown nat

section \<open>The handle\<close>

text \<open>
  \<open>connect_remote\<close> as its two halves: what it sends (or why it refuses), and how it reads the
  answer; \<^term>\<open>None\<close> is a closed channel.
\<close>

definition connect_remote_command :: "nat \<Rightarrow> nat \<Rightarrow> nat \<Rightarrow> broker_error + broker_command" where
  "connect_remote_command capacity outbound response =
     (if capacity = 0 then Err InvalidRemoteCapacity else Ok (CmdConnect capacity outbound response))"

definition connect_remote_result ::
  "nat \<Rightarrow> (broker_error + session_id) option \<Rightarrow> broker_error + (session_id \<times> nat)" where
  "connect_remote_result commands answer =
     (case answer of None \<Rightarrow> Err BrokerUnavailable
      | Some (Inl e) \<Rightarrow> Err e
      | Some (Inr session_id) \<Rightarrow> Ok (session_id, commands))"

text \<open>The other operations of the handle send one command each.\<close>

definition remote_ready :: "session_id \<Rightarrow> broker_command" where
  [simp]: "remote_ready session_id = CmdReady session_id"

definition remote_locked :: "session_id \<Rightarrow> broker_command" where
  [simp]: "remote_locked session_id = CmdLocked session_id"

definition remote_disconnected :: "session_id \<Rightarrow> broker_command" where
  [simp]: "remote_disconnected session_id = CmdDisconnected session_id"

definition remote_response :: "session_id \<Rightarrow> request_id \<Rightarrow> nat \<Rightarrow> bytes \<Rightarrow> broker_command" where
  [simp]: "remote_response session_id request_id attempt packet = CmdResponse session_id request_id attempt packet"

definition broker_shutdown :: "nat \<Rightarrow> broker_command" where
  [simp]: "broker_shutdown response = CmdShutdown response"

section \<open>The actor\<close>

record waiter =
  w_response :: nat
  w_cancellation :: request_id

record broker_actor =
  a_config :: broker_config
  a_state :: broker_state
  a_waiters :: "(request_id, waiter) hashmap"
  a_remote :: "(session_id \<times> nat) option"

text \<open>What leaves the actor: messages on channels, and aborted cancellation futures.\<close>

datatype actor_output =
    OutRemote nat remote_command
  | OutWake wake_request
  | OutReply nat "request_error + bytes"
  | OutAbort request_id
  | OutConnect nat "broker_error + session_id"
  | OutShutdown nat

type_synonym actor_result = "(broker_actor \<times> actor_output list) option"

definition emit :: "actor_output list \<Rightarrow> actor_result \<Rightarrow> actor_result" where
  "emit out r = map_option (\<lambda>(a, outs). (a, out @ outs)) r"

text \<open>
  Sends on the channel of the active session when it is \<open>session_id\<close>: the channel that took
  the message, if any did.
\<close>

definition try_send ::
  "(nat \<Rightarrow> remote_command \<Rightarrow> bool) \<Rightarrow> broker_actor \<Rightarrow> session_id \<Rightarrow> remote_command \<Rightarrow> nat option" where
  "try_send send_ok a session_id message =
     (case a_remote a of None \<Rightarrow> None
      | Some (active, outbound) \<Rightarrow>
          if active = session_id \<and> send_ok outbound message then Some outbound else None)"

function (sequential) execute ::
  "(nat \<Rightarrow> remote_command \<Rightarrow> bool) \<Rightarrow> broker_actor \<Rightarrow> effect list \<Rightarrow> instant \<Rightarrow> actor_result" where
  "execute send_ok a [] now = Some (a, [])"
| "execute send_ok a (Dispatch session_id request_id attempt requested_at deadline packet context # effects) now =
     (let message = RcRequest request_id attempt requested_at deadline packet context in
      case try_send send_ok a session_id message of
        Some outbound \<Rightarrow> emit [OutRemote outbound message] (execute send_ok a effects now)
      | None \<Rightarrow>
          (case apply_event (a_state a) (EvDisconnected session_id) now of None \<Rightarrow> None
           | Some (st, Inl _) \<Rightarrow> execute send_ok (a\<lparr>a_remote := None, a_state := st\<rparr>) effects now
           | Some (st, Inr reconciled) \<Rightarrow>
               execute send_ok (a\<lparr>a_remote := None, a_state := st\<rparr>) (effects @ reconciled) now))"
| "execute send_ok a (Cancel session_id request_id attempt # effects) now =
     (let message = RcCancel request_id attempt in
      emit (case try_send send_ok a session_id message of None \<Rightarrow> [] | Some outbound \<Rightarrow> [OutRemote outbound message])
        (execute send_ok a effects now))"
| "execute send_ok a (WakeRequired request # effects) now =
     emit [OutWake request] (execute send_ok a effects now)"
| "execute send_ok a (Complete request_id result # effects) now =
     (case hm_get (a_waiters a) request_id of
        Some w \<Rightarrow>
          emit [OutAbort (w_cancellation w), OutReply (w_response w) result]
            (execute send_ok (a\<lparr>a_waiters := hm_remove request_id (a_waiters a)\<rparr>) effects now)
      | None \<Rightarrow> execute send_ok a effects now)"
  by pat_completeness auto

subsection \<open>Termination\<close>

text \<open>
  A failed send feeds a disconnect back into the model, whose effects are appended. Each
  failure either disconnects the agent, after which no dispatch is produced any more, or
  the new dispatches were taken from the queue.
\<close>

lemma expire_frame:
  "expire s now = Some (s1, es) \<Longrightarrow> agent s1 = agent s \<and> length (queue s1) \<le> length (queue s) \<and> dispatched es = []"
proof -
  have "expire_each xs m = Some (m', es) \<Longrightarrow> dispatched es = []" for xs m m' es
    by (induction xs arbitrary: m m' es) (auto split: option.splits)
  then show "expire s now = Some (s1, es) \<Longrightarrow> agent s1 = agent s \<and> length (queue s1) \<le> length (queue s) \<and> dispatched es = []"
    by (auto simp: expire_def Let_def split: option.splits)
qed

lemma dispatch_loop_length:
  "length (fst (dispatch_loop sid c n q m)) + length (dispatched (snd (snd (dispatch_loop sid c n q m)))) \<le> length q"
  by (induction q arbitrary: n m) (auto simp: Let_def case_prod_beta' dispatch_effect_def split: option.splits intro: le_SucI)

lemma announce_wake_frame [simp]:
  "agent (fst (announce_wake s)) = agent s" "queue (fst (announce_wake s)) = queue s"
  "pending (fst (announce_wake s)) = pending s" "dispatched (snd (announce_wake s)) = []"
  by (simp_all add: announce_wake_def)

lemma dispatch_work_frame:
  "agent (fst (dispatch_work s)) = agent s"
  "length (queue (fst (dispatch_work s))) + length (dispatched (snd (dispatch_work s))) \<le> length (queue s)"
  "agent_session (agent s) = None \<Longrightarrow> dispatched (snd (dispatch_work s)) = []"
  using dispatch_loop_length connected_None [of "agent s"]
  by (auto simp: dispatch_work_def case_prod_beta' Let_def split: option.splits)

lemma reconcile_frame:
  shows "agent (fst (reconcile s)) = agent s"
    and "length (queue (fst (reconcile s))) + length (dispatched (snd (reconcile s))) \<le> length (queue s)"
    and "agent_session (agent s) = None \<Longrightarrow> dispatched (snd (reconcile s)) = []"
  using dispatch_work_frame [of s] by (simp_all add: reconcile_def case_prod_beta' Let_def)

lemma apply_disconnected_decreases:
  assumes "apply_event s (EvDisconnected sid) now = Some (st, r)"
  obtains es where "r = Ok es"
    and "agent st = (if agent_session (agent s) = Some sid then RemoteDisconnected else agent s)"
    and "agent_session (agent st) = None \<longrightarrow> dispatched es = []"
    and "agent_session (agent s) \<noteq> Some sid \<longrightarrow> length (dispatched es) + length (queue st) \<le> length (queue s)"
proof -
  from assms obtain s1 xs where x: "expire s now = Some (s1, xs)"
    by (auto simp: apply_event_def split: option.splits)
  let ?s2 = "if agent_session (agent s1) = Some sid
    then (requeue_session s1 sid)\<lparr>agent := RemoteDisconnected, wake_announced := False\<rparr> else s1"
  have "st = fst (reconcile ?s2)" "r = Ok (xs @ snd (reconcile ?s2))"
    using assms x by (auto simp: apply_event_def Let_def case_prod_beta' split: if_splits)
  then show ?thesis
    using expire_frame [OF x] reconcile_frame [of ?s2] by (intro that [of "xs @ snd (reconcile ?s2)"]) auto
qed

definition execute_measure :: "broker_actor \<Rightarrow> effect list \<Rightarrow> nat \<times> nat \<times> nat" where
  "execute_measure a effects =
     (if agent_session (agent (a_state a)) = None then 0 else 1,
      length (dispatched effects) + length (queue (a_state a)), length effects)"

lemma execute_measure_fail:
  assumes "apply_event (a_state a) (EvDisconnected sid) now = Some (st, r)"
  shows "r = Ok es \<Longrightarrow> (execute_measure (a\<lparr>a_remote := None, a_state := st\<rparr>) (effects @ es),
      execute_measure a (Dispatch sid i k ra dl pk c # effects)) \<in> less_than <*lex*> less_than <*lex*> less_than"
    and "r \<noteq> Err e"
  by (rule apply_disconnected_decreases [OF assms]; auto simp: execute_measure_def)+

termination execute
proof (relation "inv_image (less_than <*lex*> less_than <*lex*> less_than)
    (\<lambda>(send_ok, a, effects, now). execute_measure a effects)", goal_cases)
  case 1
  then show ?case by (intro wf_inv_image wf_lex_prod wf_less_than)
qed (auto simp del: in_lex_prod dest: execute_measure_fail(2) intro: execute_measure_fail(1), auto simp: execute_measure_def)

subsection \<open>What execution keeps\<close>

text \<open>
  What a list of effects keeps while it is executed: \<open>inv a effects outs\<close> speaks about the
  actor, the effects still to be executed and the outputs so far.
\<close>

locale execution =
  fixes inv :: "broker_actor \<Rightarrow> effect list \<Rightarrow> actor_output list \<Rightarrow> bool"
    and now :: instant
  assumes sent: "inv a (Dispatch sid i k ra dl packet ctx # effects) outs \<Longrightarrow> a_remote a = Some (sid, ch) \<Longrightarrow>
      inv a effects (outs @ [OutRemote ch (RcRequest i k ra dl packet ctx)])"
    and failed: "inv a (Dispatch sid i k ra dl packet ctx # effects) outs \<Longrightarrow>
      apply_event (a_state a) (EvDisconnected sid) now = Some (st, Ok reconciled) \<Longrightarrow>
      inv (a\<lparr>a_remote := None, a_state := st\<rparr>) (effects @ reconciled) outs"
    and stopped: "inv a (Cancel sid i k # effects) outs \<Longrightarrow> inv a effects (outs @ [OutRemote ch (RcCancel i k)])"
    and not_stopped: "inv a (Cancel sid i k # effects) outs \<Longrightarrow> inv a effects outs"
    and woken: "inv a (WakeRequired request # effects) outs \<Longrightarrow> inv a effects (outs @ [OutWake request])"
    and completed: "inv a (Complete i r # effects) outs \<Longrightarrow> hm_get (a_waiters a) i = Some w \<Longrightarrow>
      inv (a\<lparr>a_waiters := hm_remove i (a_waiters a)\<rparr>) effects
        (outs @ [OutAbort (w_cancellation w), OutReply (w_response w) r])"
    and unknown: "inv a (Complete i r # effects) outs \<Longrightarrow> hm_get (a_waiters a) i = None \<Longrightarrow> inv a effects outs"
begin

lemma execute_keeps:
  "execute send_ok a effects t = Some (a', outs') \<Longrightarrow> t = now \<Longrightarrow> inv a effects outs \<Longrightarrow> inv a' [] (outs @ outs')"
proof (induction send_ok a effects t arbitrary: outs outs' rule: execute.induct)
  case (2 send_ok a sid i k ra dl packet ctx effects t)
  let ?m = "RcRequest i k ra dl packet ctx"
  show ?case
  proof (cases "try_send send_ok a sid ?m")
    case (Some ch)
    then obtain outs2 where run: "execute send_ok a effects t = Some (a', outs2)" and o: "outs' = OutRemote ch ?m # outs2"
      using 2(4) by (auto simp: emit_def)
    from Some have "a_remote a = Some (sid, ch)" by (auto simp: try_send_def split: option.splits if_splits)
    from 2(3) [OF refl Some run 2(5) sent [OF 2(6) this]] show ?thesis by (simp add: o)
  next
    case None
    obtain st r where ap: "apply_event (a_state a) (EvDisconnected sid) t = Some (st, r)"
      using 2(4) None by (auto split: option.splits)
    then obtain es where r: "r = Ok es" using execute_measure_fail(2) [of a sid t st r] by (cases r) auto
    have "execute send_ok (a\<lparr>a_remote := None, a_state := st\<rparr>) (effects @ es) t = Some (a', outs')"
      using 2(4) None ap r by simp
    from 2(2) [OF refl None ap refl r this 2(5) failed [OF 2(6) ap [unfolded r 2(5)]]] show ?thesis .
  qed
next
  case (3 send_ok a sid i k effects t)
  let ?o = "case try_send send_ok a sid (RcCancel i k) of None \<Rightarrow> [] | Some ch \<Rightarrow> [OutRemote ch (RcCancel i k)]"
  obtain outs2 where run: "execute send_ok a effects t = Some (a', outs2)" and o: "outs' = ?o @ outs2"
    using 3(2) by (auto simp: emit_def Let_def)
  have "inv a effects (outs @ ?o)"
    using stopped [OF 3(4)] not_stopped [OF 3(4)] by (simp split: option.split)
  from 3(1) [OF refl run 3(3) this] show ?case by (simp add: o)
next
  case (4 send_ok a w effects t)
  then obtain outs2 where run: "execute send_ok a effects t = Some (a', outs2)" and o: "outs' = OutWake w # outs2"
    by (auto simp: emit_def)
  from 4(1) [OF run 4(3) woken [OF 4(4)]] show ?case by (simp add: o)
next
  case (5 send_ok a i r effects t)
  show ?case
  proof (cases "hm_get (a_waiters a) i")
    case None
    with 5(3) have "execute send_ok a effects t = Some (a', outs')" by simp
    from 5(1) [OF None this 5(4) unknown [OF 5(5) None]] show ?thesis .
  next
    case (Some w)
    let ?b = "a\<lparr>a_waiters := hm_remove i (a_waiters a)\<rparr>"
    from 5(3) Some obtain outs2 where run: "execute send_ok ?b effects t = Some (a', outs2)"
      and o: "outs' = OutAbort (w_cancellation w) # OutReply (w_response w) r # outs2" by (auto simp: emit_def)
    from 5(2) [OF Some run 5(4) completed [OF 5(5) Some]] show ?thesis by (simp add: o)
  qed
qed simp

lemma execute_from:
  "execute send_ok a effects now = Some (a', outs) \<Longrightarrow> inv a effects [] \<Longrightarrow> inv a' [] outs"
  using execute_keeps [OF _ refl, of send_ok a effects a' outs "[]"] by simp

end

subsection \<open>Operations\<close>

definition apply_actor ::
  "(nat \<Rightarrow> remote_command \<Rightarrow> bool) \<Rightarrow> broker_actor \<Rightarrow> event \<Rightarrow> instant \<Rightarrow> actor_result" where
  "apply_actor send_ok a e now =
     (case apply_event (a_state a) e now of None \<Rightarrow> None
      | Some (st, Inl _) \<Rightarrow> Some (a\<lparr>a_state := st\<rparr>, [])
      | Some (st, Inr effects) \<Rightarrow> execute send_ok (a\<lparr>a_state := st\<rparr>) effects now)"

text \<open>A wall-clock time is a signed number of nanoseconds from the Unix epoch.\<close>

type_synonym system_time = int

definition unix_milliseconds :: "system_time \<Rightarrow> nat" where
  "unix_milliseconds time =
     (let elapsed = (if time < 0 then 0 else nat time); millis = elapsed div 1000000
      in if millis < 2 ^ 64 then millis else 2 ^ 64 - 1)"

text \<open>
  Adding a duration to an \<open>Instant\<close> or a \<open>SystemTime\<close>: both count seconds in an \<open>i64\<close>, and the
  addition panics if the sum does not fit.
\<close>

definition instant_add :: "instant \<Rightarrow> duration \<Rightarrow> instant option" where
  "instant_add t d = (if (t + d) div 1000000000 < 2 ^ 63 then Some (t + d) else None)"

definition system_time_add :: "system_time \<Rightarrow> duration \<Rightarrow> system_time option" where
  "system_time_add t d = (if (t + int d) div 1000000000 < 2 ^ 63 then Some (t + int d) else None)"

text \<open>
  \<open>handle_local\<close> also returns the future that yields the request id when the caller's token
  is cancelled.
\<close>

definition handle_local ::
  "(nat \<Rightarrow> remote_command \<Rightarrow> bool) \<Rightarrow> broker_actor \<Rightarrow> packet_request \<Rightarrow> request_id \<Rightarrow> instant \<Rightarrow> system_time \<Rightarrow>
     (broker_actor \<times> actor_output list \<times> (request_id \<times> nat)) option" where
  "handle_local send_ok a request request_id now requested_at =
     (let timeout = request_timeout (a_config a);
          w = \<lparr>w_response = pq_response request, w_cancellation = request_id\<rparr>;
          a1 = a\<lparr>a_waiters := hm_insert request_id w (a_waiters a)\<rparr>
      in case instant_add now timeout of None \<Rightarrow> None
         | Some deadline \<Rightarrow>
        (case system_time_add requested_at timeout of None \<Rightarrow> None
         | Some deadline_time \<Rightarrow>
             map_option (\<lambda>(a2, outs). (a2, outs, (request_id, pq_cancellation request)))
               (apply_actor send_ok a1
                 (EvSubmit request_id (pq_packet request) (pq_context request) deadline
                   (unix_milliseconds requested_at) (unix_milliseconds deadline_time)) now)))"

definition stop_actor :: "broker_actor \<Rightarrow> broker_actor \<times> actor_output list" where
  "stop_actor a =
     (a\<lparr>a_waiters := []\<rparr>,
      concat (map (\<lambda>(_, w). [OutAbort (w_cancellation w), OutReply (w_response w) (Err Unavailable)]) (a_waiters a)))"

text \<open>\<open>handle\<close> returns whether the actor stops.\<close>

definition continue_with :: "actor_result \<Rightarrow> (bool \<times> broker_actor \<times> actor_output list) option" where
  "continue_with r = map_option (\<lambda>(a, outs). (False, a, outs)) r"

fun handle_command ::
  "(nat \<Rightarrow> remote_command \<Rightarrow> bool) \<Rightarrow> broker_actor \<Rightarrow> broker_command \<Rightarrow> session_id \<Rightarrow> instant \<Rightarrow>
     (bool \<times> broker_actor \<times> actor_output list) option" where
  "handle_command send_ok a (CmdConnect capacity outbound response) session_id now =
     (case apply_event (a_state a) (EvConnected session_id capacity) now of None \<Rightarrow> None
      | Some (st, Inr effects) \<Rightarrow>
          continue_with (emit [OutConnect response (Ok session_id)]
            (execute send_ok (a\<lparr>a_state := st, a_remote := Some (session_id, outbound)\<rparr>) effects now))
      | Some (st, Inl RemoteAlreadyConnected) \<Rightarrow>
          Some (False, a\<lparr>a_state := st\<rparr>, [OutConnect response (Err BrokerRemoteAlreadyConnected)]))"
| "handle_command send_ok a (CmdReady session_id) _ now =
     continue_with (apply_actor send_ok a (EvReady session_id) now)"
| "handle_command send_ok a (CmdLocked session_id) _ now =
     continue_with (apply_actor send_ok a (EvLocked session_id) now)"
| "handle_command send_ok a (CmdDisconnected session_id) _ now =
     (let a1 = (case a_remote a of None \<Rightarrow> a
                | Some (active, _) \<Rightarrow> if active = session_id then a\<lparr>a_remote := None\<rparr> else a)
      in continue_with (apply_actor send_ok a1 (EvDisconnected session_id) now))"
| "handle_command send_ok a (CmdResponse session_id request_id attempt packet) _ now =
     continue_with (apply_actor send_ok a (EvResponse session_id request_id attempt packet) now)"
| "handle_command send_ok a (CmdShutdown response) _ now =
     (let (a1, outs) = stop_actor a in Some (True, a1, outs @ [OutShutdown response]))"

section \<open>The loop\<close>

text \<open>
  \<open>run_broker\<close>: the variables of the loop, and what each \<open>select!\<close> branch does. A
  cancellation future yields its request when the token is cancelled, and nothing once the
  actor has aborted it; \<open>l_aborted\<close> holds the requests whose future was aborted.
\<close>

record broker_loop =
  l_actor :: broker_actor
  l_local_open :: bool
  l_cancellations :: "(request_id \<times> nat) list"
  l_aborted :: "request_id list"
  l_running :: bool

definition run_broker_init :: "broker_config \<Rightarrow> broker_loop" where
  "run_broker_init config =
     \<lparr>l_actor = \<lparr>a_config = config, a_state = broker_new (bc_max_pending_requests config),
                 a_waiters = [], a_remote = None\<rparr>,
      l_local_open = True, l_cancellations = [], l_aborted = [], l_running = True\<rparr>"

datatype select_branch =
    LocalRequest packet_request request_id system_time
  | LocalClosed
  | CancellationFired request_id nat
  | CancellationAborted request_id nat
  | CommandReceived broker_command session_id
  | CommandsClosed
  | DeadlineReached

text \<open>When a branch of the \<open>select!\<close> is enabled, including its \<open>if\<close> guard.\<close>

fun branch_enabled :: "broker_loop \<Rightarrow> select_branch \<Rightarrow> instant \<Rightarrow> bool" where
  "branch_enabled l (LocalRequest _ _ _) now = l_local_open l"
| "branch_enabled l LocalClosed now = l_local_open l"
| "branch_enabled l (CancellationFired request_id token) now =
     ((request_id, token) \<in> set (l_cancellations l) \<and> request_id \<notin> set (l_aborted l))"
| "branch_enabled l (CancellationAborted request_id token) now =
     ((request_id, token) \<in> set (l_cancellations l) \<and> request_id \<in> set (l_aborted l))"
| "branch_enabled l (CommandReceived _ _) now = True"
| "branch_enabled l CommandsClosed now = True"
| "branch_enabled l DeadlineReached now =
     (case next_deadline (a_state (l_actor l)) of None \<Rightarrow> False | Some deadline \<Rightarrow> deadline \<le> now)"

fun select_arm ::
  "(nat \<Rightarrow> remote_command \<Rightarrow> bool) \<Rightarrow> broker_loop \<Rightarrow> select_branch \<Rightarrow> instant \<Rightarrow>
     (broker_loop \<times> actor_output list) option" where
  "select_arm send_ok l (LocalRequest request request_id requested_at) now =
     (case handle_local send_ok (l_actor l) request request_id now requested_at of None \<Rightarrow> None
      | Some (a, outs, future) \<Rightarrow>
          Some (l\<lparr>l_actor := a, l_cancellations := l_cancellations l @ [future]\<rparr>, outs))"
| "select_arm send_ok l LocalClosed now = Some (l\<lparr>l_local_open := False\<rparr>, [])"
| "select_arm send_ok l (CancellationFired request_id token) now =
     (case apply_actor send_ok (l_actor l) (EvCancelled request_id) now of None \<Rightarrow> None
      | Some (a, outs) \<Rightarrow>
          Some (l\<lparr>l_actor := a, l_cancellations := remove1 (request_id, token) (l_cancellations l)\<rparr>, outs))"
| "select_arm send_ok l (CancellationAborted request_id token) now =
     Some (l\<lparr>l_cancellations := remove1 (request_id, token) (l_cancellations l)\<rparr>, [])"
| "select_arm send_ok l (CommandReceived cmd session_id) now =
     (case handle_command send_ok (l_actor l) cmd session_id now of None \<Rightarrow> None
      | Some (stopped, a, outs) \<Rightarrow> Some (l\<lparr>l_actor := a, l_running := \<not> stopped\<rparr>, outs))"
| "select_arm send_ok l CommandsClosed now =
     (let (a, outs) = stop_actor (l_actor l) in Some (l\<lparr>l_actor := a, l_running := False\<rparr>, outs))"
| "select_arm send_ok l DeadlineReached now =
     (case apply_actor send_ok (l_actor l) EvTick now of None \<Rightarrow> None
      | Some (a, outs) \<Rightarrow> Some (l\<lparr>l_actor := a\<rparr>, outs))"

definition aborts :: "actor_output list \<Rightarrow> request_id list" where
  "aborts outs = List.map_filter (\<lambda>out. case out of OutAbort request_id \<Rightarrow> Some request_id | _ \<Rightarrow> None) outs"

definition select_step ::
  "(nat \<Rightarrow> remote_command \<Rightarrow> bool) \<Rightarrow> broker_loop \<Rightarrow> select_branch \<Rightarrow> instant \<Rightarrow>
     (broker_loop \<times> actor_output list) option" where
  "select_step send_ok l branch now =
     map_option (\<lambda>(l', outs). (l'\<lparr>l_aborted := l_aborted l' @ aborts outs\<rparr>, outs)) (select_arm send_ok l branch now)"

end
