(* ===== verification/Protocol.thy ===== *)
theory Protocol
  imports Pairing Broker_Task
begin

text \<open>
  \<open>remote/protocol.rs\<close>: the messages between the server and the paired browser, their
  validation, and the versioned envelope. MessagePack (\<open>rmp_serde\<close>), URIs, base64 and P-256
  keys are third-party; they are the fields of \<open>proto_lib\<close>.
\<close>

section \<open>Messages\<close>

datatype client_message =
    PairRequest rstring
  | Authenticate uuid bytes
  | AgentReady
  | AgentLocked
  | AgentResponse request_id nat bytes
  | SetPushSubscription rstring "nat option" rstring rstring
  | SetIdentities "agent_identity list"
  | Pong

datatype server_message =
    MsgPaired uuid uuid bytes session_id bytes
  | MsgAuthenticated uuid session_id bytes
  | MsgRejected
  | MsgAgentRequest request_id nat nat nat bytes "request_context option"
  | MsgCancelRequest request_id nat
  | MsgPing

datatype protocol_error = UnsupportedProtocolVersion nat | InvalidMessage | DecodeError | EncodeError

text \<open>
  \<open>uri_parse\<close> gives the scheme and whether there is an authority; \<open>rmp_decode\<close> and
  \<open>rmp_encode\<close> read and write an envelope, a version and a message.
\<close>

record proto_lib =
  uri_parse :: "rstring \<Rightarrow> (rstring option \<times> bool) option"
  base64_decode :: "rstring \<Rightarrow> bytes option"
  sec1_point_ok :: "bytes \<Rightarrow> bool"
  rmp_decode :: "bytes \<Rightarrow> (nat \<times> client_message) option"
  rmp_encode :: "nat \<times> server_message \<Rightarrow> bytes option"

section \<open>Limits\<close>

definition VERSION :: nat where "VERSION = 1"
definition MAX_LABEL_LENGTH :: nat where "MAX_LABEL_LENGTH = 128"
definition MAX_CREDENTIAL_LENGTH :: nat where "MAX_CREDENTIAL_LENGTH = 128"
definition MAX_PUSH_ENDPOINT_LENGTH :: nat where "MAX_PUSH_ENDPOINT_LENGTH = 4096"
definition P256DH_LENGTH :: nat where "P256DH_LENGTH = 65"
definition AUTH_SECRET_LENGTH :: nat where "AUTH_SECRET_LENGTH = 16"
definition MAX_IDENTITIES :: nat where "MAX_IDENTITIES = 64"
definition MAX_IDENTITY_KEY_BLOB_LENGTH :: nat where "MAX_IDENTITY_KEY_BLOB_LENGTH = 16 * 1024"
definition MAX_IDENTITY_COMMENT_LENGTH :: nat where "MAX_IDENTITY_COMMENT_LENGTH = 1024"
definition MAX_IDENTITIES_ANSWER_LENGTH :: nat where "MAX_IDENTITIES_ANSWER_LENGTH = 256 * 1024"

lemmas protocol_limits = VERSION_def MAX_LABEL_LENGTH_def MAX_CREDENTIAL_LENGTH_def MAX_PUSH_ENDPOINT_LENGTH_def
  P256DH_LENGTH_def AUTH_SECRET_LENGTH_def MAX_IDENTITIES_def MAX_IDENTITY_KEY_BLOB_LENGTH_def
  MAX_IDENTITY_COMMENT_LENGTH_def MAX_IDENTITIES_ANSWER_LENGTH_def

section \<open>Validation\<close>

definition valid_identities :: "('req, 'cred) ssh_lib \<Rightarrow> agent_identity list \<Rightarrow> bool" where
  "valid_identities lib identities \<longleftrightarrow>
     length identities \<le> MAX_IDENTITIES
     \<and> list_all (\<lambda>i. key_blob i \<noteq> [] \<and> length (key_blob i) \<le> MAX_IDENTITY_KEY_BLOB_LENGTH
          \<and> length (comment i) \<le> MAX_IDENTITY_COMMENT_LENGTH) identities
     \<and> (case identities_answer lib identities of Inl _ \<Rightarrow> False
        | Inr answer \<Rightarrow> length answer \<le> MAX_IDENTITIES_ANSWER_LENGTH)"

text \<open>The bytes of \<open>"https"\<close>.\<close>

definition https :: rstring where "https = [104, 116, 116, 112, 115]"

definition valid_push_endpoint :: "proto_lib \<Rightarrow> rstring \<Rightarrow> bool" where
  "valid_push_endpoint plib e =
     (if e = [] \<or> length e > MAX_PUSH_ENDPOINT_LENGTH then False
      else (case uri_parse plib e of None \<Rightarrow> False
            | Some (scheme, authority) \<Rightarrow> scheme = Some https \<and> authority))"

definition valid_p256dh :: "proto_lib \<Rightarrow> rstring \<Rightarrow> bool" where
  "valid_p256dh plib value =
     (if length value > 128 then False
      else (case base64_decode plib value of None \<Rightarrow> False
            | Some bs \<Rightarrow> length bs = P256DH_LENGTH \<and> sec1_point_ok plib bs))"

definition valid_auth_secret :: "proto_lib \<Rightarrow> rstring \<Rightarrow> bool" where
  "valid_auth_secret plib value \<longleftrightarrow>
     length value \<le> 64
     \<and> (case base64_decode plib value of None \<Rightarrow> False | Some bs \<Rightarrow> length bs = AUTH_SECRET_LENGTH)"

fun validate_message :: "('req, 'cred) ssh_lib \<Rightarrow> proto_lib \<Rightarrow> client_message \<Rightarrow> protocol_error + unit" where
  "validate_message lib plib (PairRequest name) =
     (if name = [] \<or> length name > MAX_LABEL_LENGTH then Err InvalidMessage else Ok ())"
| "validate_message lib plib (Authenticate _ credential) =
     (if credential = [] \<or> length credential > MAX_CREDENTIAL_LENGTH then Err InvalidMessage else Ok ())"
| "validate_message lib plib (SetPushSubscription e _ p a) =
     (if \<not> valid_push_endpoint plib e \<or> \<not> valid_p256dh plib p \<or> \<not> valid_auth_secret plib a
      then Err InvalidMessage else Ok ())"
| "validate_message lib plib (SetIdentities identities) =
     (if \<not> valid_identities lib identities then Err InvalidMessage else Ok ())"
| "validate_message lib plib _ = Ok ()"

section \<open>Envelopes\<close>

text \<open>\<open>ServerMessage::from\<close> a broker command.\<close>

fun server_message_from :: "remote_command \<Rightarrow> server_message" where
  "server_message_from (RcRequest request_id attempt requested_at deadline packet context) =
     MsgAgentRequest request_id attempt requested_at deadline packet context"
| "server_message_from (RcCancel request_id attempt) = MsgCancelRequest request_id attempt"

definition decode_envelope :: "proto_lib \<Rightarrow> bytes \<Rightarrow> protocol_error + client_message" where
  "decode_envelope plib frame =
     (case rmp_decode plib frame of None \<Rightarrow> Err DecodeError
      | Some (v, message) \<Rightarrow>
          if v \<noteq> VERSION then Err (UnsupportedProtocolVersion v) else Ok message)"

definition decode_client ::
  "('req, 'cred) ssh_lib \<Rightarrow> proto_lib \<Rightarrow> bytes \<Rightarrow> protocol_error + client_message" where
  "decode_client lib plib frame =
     (case decode_envelope plib frame of Inl e \<Rightarrow> Err e
      | Inr message \<Rightarrow> (case validate_message lib plib message of Inl e \<Rightarrow> Err e | Inr _ \<Rightarrow> Ok message))"

definition encode_server :: "proto_lib \<Rightarrow> server_message \<Rightarrow> protocol_error + bytes" where
  "encode_server plib message =
     (case rmp_encode plib (VERSION, message) of None \<Rightarrow> Err EncodeError | Some frame \<Rightarrow> Ok frame)"

section \<open>Properties\<close>

text \<open>
  C28: exactly the bounded, well-formed messages get past the decoder. A client message is
  decoded if and only if the frame is an envelope of version 1 that carries it and it respects
  every limit: labels and credentials of 1 to 128 bytes; push endpoints that are \<open>https\<close> URIs
  with an authority, of 1 to 4096 bytes, with a key whose text has at most 128 bytes and
  encodes a point of 65 bytes, and a secret whose text has at most 64 bytes and encodes 16; at
  most 64 identities, each with a key blob of 1 byte to 16 KiB and a comment of at most 1024
  bytes, whose answer is a packet of at most 256 KiB. Other messages have no limits.
\<close>

theorem protocol_decoded_message_valid:
  "decode_client lib plib frame = Ok message \<longleftrightarrow> rmp_decode plib frame = Some (1, message) \<and>
    (case message of
       PairRequest name \<Rightarrow> name \<noteq> [] \<and> length name \<le> 128
     | Authenticate _ credential \<Rightarrow> credential \<noteq> [] \<and> length credential \<le> 128
     | SetPushSubscription e _ p a \<Rightarrow>
         e \<noteq> [] \<and> length e \<le> 4096 \<and> uri_parse plib e = Some (Some https, True)
         \<and> length p \<le> 128 \<and> (\<exists>key. base64_decode plib p = Some key \<and> length key = 65 \<and> sec1_point_ok plib key)
         \<and> length a \<le> 64 \<and> (\<exists>secret. base64_decode plib a = Some secret \<and> length secret = 16)
     | SetIdentities ids \<Rightarrow>
         length ids \<le> 64
         \<and> list_all (\<lambda>identity. key_blob identity \<noteq> [] \<and> length (key_blob identity) \<le> 16 * 1024
               \<and> length (comment identity) \<le> 1024) ids
         \<and> (\<exists>answer. identities_answer lib ids = Ok answer \<and> length answer \<le> 256 * 1024)
     | _ \<Rightarrow> True)"
proof -
  have "decode_client lib plib frame = Ok message \<longleftrightarrow>
      rmp_decode plib frame = Some (1, message) \<and> validate_message lib plib message = Ok ()"
    by (auto simp: decode_client_def decode_envelope_def VERSION_def split: option.splits sum.splits if_splits)
  then show ?thesis
    by (cases message)
      (auto simp: protocol_limits valid_push_endpoint_def valid_p256dh_def valid_auth_secret_def valid_identities_def list_all_iff
        split: if_splits option.splits sum.splits)
qed

text \<open>A codec that knows one frame of each kind.\<close>

definition ex_proto_lib :: proto_lib where
  "ex_proto_lib =
     \<lparr>uri_parse = (\<lambda>_. None), base64_decode = (\<lambda>_. None), sec1_point_ok = (\<lambda>_. False),
      rmp_decode = (\<lambda>bs. if bs = [1] then Some (1, PairRequest [65]) else if bs = [2] then Some (1, AgentReady)
                    else if bs = [3] then Some (1, Pong) else None),
      rmp_encode = (\<lambda>(v, m). Some (case m of MsgPaired _ _ c _ _ \<Rightarrow> 4 # c | MsgPing \<Rightarrow> [5] | MsgRejected \<Rightarrow> [6] | _ \<Rightarrow> [7]))\<rparr>"

end
