(* ===== verification/Session.thy ===== *)
theory Session
  imports Protocol Pairing_Props
begin

text \<open>
  \<open>remote/session.rs\<close>: one WebSocket of the browser, from the handshake to the end of the
  session. The handshake authorizes the first message and binds the connection to the
  broker; the loop then forwards broker commands, client messages and heartbeats until one
  of them ends it. Whether a frame could be sent and whether the broker still runs are
  arguments of the steps.
\<close>

section \<open>Environment\<close>

record ('req, 'cred, 'env, 'st) server_env =
  se_lib :: "('req, 'cred) ssh_lib"
  se_plib :: proto_lib
  se_save :: "'env \<Rightarrow> 'st save_op"
  se_digest :: "bytes \<Rightarrow> bytes"
  se_vapid_public_key :: bytes

datatype ws_message = WsText bytes | WsBinary bytes | WsPing bytes | WsPong bytes | WsClose

text \<open>What \<open>recv\<close> yields: nothing at the end of the stream, a transport error, or a message.\<close>

type_synonym received = "(unit + ws_message) option"

datatype session_output = SendFrame bytes | BrokerCall broker_command

section \<open>The handshake\<close>

definition receive_client :: "('req, 'cred, 'env, 'st) server_env \<Rightarrow> received \<Rightarrow> client_message option" where
  "receive_client se received =
     (case received of
        Some (Inr (WsBinary frame)) \<Rightarrow>
          (case decode_client (se_lib se) (se_plib se) frame of Inl _ \<Rightarrow> None | Inr message \<Rightarrow> Some message)
      | _ \<Rightarrow> None)"

fun handshake_response :: "authorization \<Rightarrow> session_id \<Rightarrow> bytes \<Rightarrow> server_message" where
  "handshake_response (Paired sid cid credential) session_id key = MsgPaired sid cid credential session_id key"
| "handshake_response (Authenticated sid _) session_id key = MsgAuthenticated sid session_id key"

definition send_rejected :: "('req, 'cred, 'env, 'st) server_env \<Rightarrow> session_output list" where
  "send_rejected se = (case encode_server (se_plib se) MsgRejected of Inl _ \<Rightarrow> [] | Inr frame \<Rightarrow> [SendFrame frame])"

text \<open>
  The authorization of the first message; \<^term>\<open>None\<close> for a message that is no handshake. The
  new identifier, the random bytes and the clock are those that a pairing would use.
\<close>

fun authorize ::
  "('req, 'cred, 'env, 'st) server_env \<Rightarrow> 'env \<Rightarrow> 'st pairing_service \<Rightarrow> client_message \<Rightarrow> uuid \<Rightarrow> bytes option \<Rightarrow> nat \<Rightarrow>
     'st pairing_service \<times> (authorization_error + authorization) option" where
  "authorize se env sv (PairRequest name) new_id random now =
     map_prod id Some (pair (se_save se env) (se_digest se) sv name new_id random now)"
| "authorize se env sv (Authenticate cid credential) new_id random now =
     map_prod id Some (authenticate (se_save se env) (se_digest se) sv cid credential now)"
| "authorize se env sv _ new_id random now = (sv, None)"

text \<open>
  \<open>serve\<close> up to the loop: what was sent, and the session with its client if the loop starts.
  \<open>connected\<close> is what \<open>connect_remote\<close> returns, \<open>send_ok\<close> whether the reply could be sent.
\<close>

definition serve_handshake ::
  "('req, 'cred, 'env, 'st) server_env \<Rightarrow> 'env \<Rightarrow> 'st pairing_service \<Rightarrow> received \<Rightarrow> uuid \<Rightarrow> bytes option \<Rightarrow> nat \<Rightarrow>
     broker_error + (session_id \<times> nat) \<Rightarrow> bool \<Rightarrow>
     'st pairing_service \<times> session_output list \<times> (session_id \<times> uuid) option" where
  "serve_handshake se env sv received new_id random now connected send_ok =
     (case receive_client se received of None \<Rightarrow> (sv, [], None)
      | Some message \<Rightarrow>
     (case authorize se env sv message new_id random now of
        (sv, None) \<Rightarrow> (sv, send_rejected se, None)
      | (sv, Some (Inl _)) \<Rightarrow> (sv, send_rejected se, None)
      | (sv, Some (Inr authorization)) \<Rightarrow>
     (case connected of
        Inl BrokerRemoteAlreadyConnected \<Rightarrow> (sv, send_rejected se, None)
      | Inl _ \<Rightarrow> (sv, [], None)
      | Inr (session_id, _) \<Rightarrow>
     (case encode_server (se_plib se) (handshake_response authorization session_id (se_vapid_public_key se)) of
        Inl _ \<Rightarrow> (sv, [BrokerCall (remote_disconnected session_id)], None)
      | Inr response \<Rightarrow>
          if \<not> send_ok then (sv, [BrokerCall (remote_disconnected session_id)], None)
          else (sv, [SendFrame response], Some (session_id, authorization_client_id authorization))))))"

section \<open>The loop\<close>

record session_loop =
  sl_awaiting_pong :: bool
  sl_running :: bool

definition session_init :: session_loop where
  "session_init = \<lparr>sl_awaiting_pong = False, sl_running = True\<rparr>"

datatype session_event =
    BrokerCommand "remote_command option"
  | ClientReceived received
  | HeartbeatTick
  | RevocationChanged
  | ShutdownCancelled

text \<open>Leaving the loop reports the session as disconnected.\<close>

definition end_session :: "session_id \<Rightarrow> session_loop \<Rightarrow> session_loop \<times> session_output list" where
  "end_session session_id l = (l\<lparr>sl_running := False\<rparr>, [BrokerCall (remote_disconnected session_id)])"

text \<open>
  \<open>handle_client_message\<close>: the service, whether a pong is still awaited, the calls to the
  broker (which succeed if it runs), and whether the session goes on.
\<close>

definition handle_client_message ::
  "('req, 'cred, 'env, 'st) server_env \<Rightarrow> 'env \<Rightarrow> bool \<Rightarrow> session_id \<Rightarrow> uuid \<Rightarrow> 'st pairing_service \<Rightarrow> bool \<Rightarrow> ws_message \<Rightarrow>
     'st pairing_service \<times> bool \<times> broker_command list \<times> bool" where
  "handle_client_message se env broker_ok session_id cid sv awaiting message =
     (case message of
        WsPing _ \<Rightarrow> (sv, awaiting, [], True)
      | WsPong _ \<Rightarrow> (sv, awaiting, [], True)
      | WsBinary frame \<Rightarrow>
          (case decode_client (se_lib se) (se_plib se) frame of Inl _ \<Rightarrow> (sv, awaiting, [], False)
           | Inr m \<Rightarrow>
               (let call = (\<lambda>c. (sv, awaiting, if broker_ok then [c] else [], broker_ok)) in
                case m of
                  AgentReady \<Rightarrow> call (remote_ready session_id)
                | AgentLocked \<Rightarrow> call (remote_locked session_id)
                | AgentResponse request_id attempt packet \<Rightarrow> call (remote_response session_id request_id attempt packet)
                | Pong \<Rightarrow> (sv, False, [], True)
                | SetPushSubscription e t p a \<Rightarrow>
                    (case set_push_subscription (se_save se env) sv cid
                        \<lparr>endpoint = e, expiration_time = t, p256dh = p, auth = a\<rparr> of
                       (sv, Inl _) \<Rightarrow> (sv, awaiting, [], False)
                     | (sv, Inr _) \<Rightarrow> (sv, awaiting, [], True))
                | SetIdentities identities \<Rightarrow>
                    (case set_identities (se_lib se) (se_save se env) sv cid identities of
                       (sv, Inl _) \<Rightarrow> (sv, awaiting, [], False)
                     | (sv, Inr _) \<Rightarrow> (sv, awaiting, [], True))
                | PairRequest _ \<Rightarrow> (sv, awaiting, [], False)
                | Authenticate _ _ \<Rightarrow> (sv, awaiting, [], False)))
      | _ \<Rightarrow> (sv, awaiting, [], False))"

fun session_select ::
  "('req, 'cred, 'env, 'st) server_env \<Rightarrow> 'env \<Rightarrow> bool \<Rightarrow> bool \<Rightarrow> session_id \<Rightarrow> uuid \<Rightarrow>
     'st pairing_service \<Rightarrow> session_loop \<Rightarrow> session_event \<Rightarrow>
     'st pairing_service \<times> session_loop \<times> session_output list" where
  "session_select se env broker_ok send_ok session_id cid sv l (BrokerCommand None) = (sv, end_session session_id l)"
| "session_select se env broker_ok send_ok session_id cid sv l (BrokerCommand (Some cmd)) =
     (case encode_server (se_plib se) (server_message_from cmd) of
        Inl _ \<Rightarrow> (sv, end_session session_id l)
      | Inr frame \<Rightarrow> if \<not> send_ok then (sv, end_session session_id l) else (sv, l, [SendFrame frame]))"
| "session_select se env broker_ok send_ok session_id cid sv l (ClientReceived received) =
     (case received of
        Some (Inr message) \<Rightarrow>
          (case handle_client_message se env broker_ok session_id cid sv (sl_awaiting_pong l) message of
             (sv, awaiting, calls, continues) \<Rightarrow>
               if continues then (sv, l\<lparr>sl_awaiting_pong := awaiting\<rparr>, map BrokerCall calls)
               else (sv, fst (end_session session_id (l\<lparr>sl_awaiting_pong := awaiting\<rparr>)),
                     map BrokerCall calls @ snd (end_session session_id l)))
      | _ \<Rightarrow> (sv, end_session session_id l))"
| "session_select se env broker_ok send_ok session_id cid sv l HeartbeatTick =
     (case encode_server (se_plib se) MsgPing of
        Inl _ \<Rightarrow> (sv, end_session session_id l)
      | Inr frame \<Rightarrow>
          if sl_awaiting_pong l \<or> \<not> send_ok then (sv, end_session session_id l)
          else (sv, l\<lparr>sl_awaiting_pong := True\<rparr>, [SendFrame frame]))"
| "session_select se env broker_ok send_ok session_id cid sv l RevocationChanged = (sv, end_session session_id l)"
| "session_select se env broker_ok send_ok session_id cid sv l ShutdownCancelled = (sv, end_session session_id l)"

end
