(* ===== verification/Session_Props.thy ===== *)
theory Session_Props
  imports Session
begin

text \<open>
  The properties of a remote session: who gets one, how it ends, and what a conflict at the
  broker does to a fresh pairing.
\<close>

section \<open>Steps\<close>

text \<open>
  One turn of the loop. The pairing service is shared with other sessions and the control
  socket, so every turn starts from whatever the service is then.
\<close>

record ('env, 'st) session_turn =
  st_event :: session_event
  st_env :: 'env
  st_broker_ok :: bool
  st_send_ok :: bool
  st_before :: "'st pairing_service"
  st_after :: "'st pairing_service"
  st_outputs :: "session_output list"

inductive session_step ::
  "('req, 'cred, 'env, 'st) server_env \<Rightarrow> session_id \<Rightarrow> uuid \<Rightarrow>
     session_loop \<Rightarrow> ('env, 'st) session_turn \<Rightarrow> session_loop \<Rightarrow> bool"
  for se session_id cid where
  session_step: "sl_running l \<Longrightarrow>
    session_select se (st_env t) (st_broker_ok t) (st_send_ok t) session_id cid (st_before t) l (st_event t)
      = (st_after t, l', st_outputs t) \<Longrightarrow> session_step se session_id cid l t l'"

inductive_cases session_stepE: "session_step se session_id cid l t l'"

fun broker_calls :: "session_output list \<Rightarrow> broker_command list" where
  "broker_calls [] = []"
| "broker_calls (BrokerCall c # outs) = c # broker_calls outs"
| "broker_calls (SendFrame _ # outs) = broker_calls outs"

lemma broker_calls_append [simp]: "broker_calls (xs @ ys) = broker_calls xs @ broker_calls ys"
  by (induction xs rule: broker_calls.induct) auto

lemma broker_calls_map [simp]: "broker_calls (map BrokerCall cs) = cs"
  by (induction cs) auto

definition run_calls :: "('env, 'st) session_turn list \<Rightarrow> broker_command list" where
  "run_calls ts = concat (map (\<lambda>t. broker_calls (st_outputs t)) ts)"

text \<open>The calls that a session may make while it goes on: reports about itself.\<close>

definition own_report :: "session_id \<Rightarrow> broker_command \<Rightarrow> bool" where
  "own_report session_id c \<longleftrightarrow>
     c = CmdReady session_id \<or> c = CmdLocked session_id \<or> (\<exists>i k p. c = CmdResponse session_id i k p)"

lemma handle_client_calls:
  assumes "handle_client_message se env broker_ok session_id cid sv awaiting message = (sv', awaiting', calls, continues)"
  shows "list_all (own_report session_id) calls"
  using assms
  by (auto simp: handle_client_message_def own_report_def Let_def
      split: ws_message.splits sum.splits client_message.splits prod.splits if_splits)

lemma session_select_calls:
  assumes "session_select se env broker_ok send_ok session_id cid sv l e = (sv', l', outs)" and "sl_running l"
  shows "\<exists>calls. list_all (own_report session_id) calls
    \<and> broker_calls outs = calls @ (if sl_running l' then [] else [CmdDisconnected session_id])"
proof (cases e)
  case (BrokerCommand c)
  then show ?thesis
    using assms by (cases c) (auto simp: end_session_def split: sum.splits if_splits intro!: exI [of _ "[]"])
next
  case (ClientReceived received)
  show ?thesis
  proof (cases "\<exists>message. received = Some (Inr message)")
    case True
    then obtain message where m: "received = Some (Inr message)" ..
    obtain sv1 awaiting calls continues where
      h: "handle_client_message se env broker_ok session_id cid sv (sl_awaiting_pong l) message = (sv1, awaiting, calls, continues)"
      by (metis prod_cases4)
    show ?thesis
      using assms handle_client_calls [OF h]
      by (intro exI [of _ calls]) (auto simp: ClientReceived m h end_session_def split: if_splits)
  next
    case False
    then show ?thesis
      using assms by (intro exI [of _ "[]"]) (auto simp: ClientReceived end_session_def split: option.splits sum.splits)
  qed
next
  case HeartbeatTick
  then show ?thesis
    using assms by (intro exI [of _ "[]"]) (auto simp: end_session_def split: sum.splits if_splits)
qed (use assms in \<open>auto simp: end_session_def intro!: exI [of _ "[]"]\<close>)

section \<open>Properties\<close>

text \<open>
  C29: a session reports its end exactly once, and nothing about other sessions. Along any
  run of the loop, whatever the client, the broker and the network do, every call to the
  broker before the end is a report about this very session; when the loop ends, the last
  call is its disconnect, and there is no other one.
\<close>

theorem session_reports_end_once:
  assumes "runs (session_step se session_id cid) session_init ts l"
  shows "\<exists>reports. list_all (own_report session_id) reports
    \<and> run_calls ts = reports @ (if sl_running l then [] else [CmdDisconnected session_id])"
proof -
  have "\<exists>reports. list_all (own_report session_id) reports
      \<and> run_calls ts = reports @ (if sl_running l' then [] else [CmdDisconnected session_id])"
    if "runs (session_step se session_id cid) l ts l'" "sl_running l" for l l'
    using that
  proof (induction rule: runs.induct)
    case (runs_Nil l)
    then show ?case by (intro exI [of _ "[]"]) (simp add: run_calls_def)
  next
    case (runs_Cons l t m ts u)
    have "session_select se (st_env t) (st_broker_ok t) (st_send_ok t) session_id cid (st_before t) l (st_event t)
        = (st_after t, m, st_outputs t)" using runs_Cons.hyps(1) by (auto elim: session_stepE)
    from session_select_calls [OF this runs_Cons.prems] obtain calls where
      c: "list_all (own_report session_id) calls"
        "broker_calls (st_outputs t) = calls @ (if sl_running m then [] else [CmdDisconnected session_id])" by blast
    show ?case
    proof (cases "sl_running m")
      case True
      from runs_Cons.IH [OF this] obtain reports where "list_all (own_report session_id) reports"
        "run_calls ts = reports @ (if sl_running u then [] else [CmdDisconnected session_id])" by blast
      with c True show ?thesis by (intro exI [of _ "calls @ reports"]) (auto simp: run_calls_def)
    next
      case False
      with runs_Cons.hyps(2) have "ts = []" "u = m" by (auto elim: runs.cases session_stepE)
      with c False show ?thesis by (intro exI [of _ calls]) (simp add: run_calls_def)
    qed
  qed
  from this [OF assms] show ?thesis by (simp add: session_init_def)
qed

definition ex_server_env :: "(u8, bytes, unit, pairing_state option) server_env" where
  "ex_server_env = \<lparr>se_lib = ex_ssh_lib, se_plib = ex_proto_lib, se_save = (\<lambda>_. memory_save), se_digest = rev,
     se_vapid_public_key = [4]\<rparr>"

definition ex_turn :: "session_event \<Rightarrow> session_output list \<Rightarrow> (unit, pairing_state option) session_turn" where
  "ex_turn e outs = \<lparr>st_event = e, st_env = (), st_broker_ok = True, st_send_ok = True, st_before = ex_paired,
     st_after = ex_paired, st_outputs = outs\<rparr>"

lemmas session_unfold = session_init_def ex_turn_def ex_server_env_def end_session_def handle_client_message_def
  decode_client_def decode_envelope_def encode_server_def ex_proto_lib_def VERSION_def

lemma ex_turn_ready: "session_step ex_server_env 7 2 session_init
    (ex_turn (ClientReceived (Some (Inr (WsBinary [2])))) [BrokerCall (CmdReady 7)]) session_init"
  by (rule session_step) (simp_all add: session_unfold)

lemma ex_turn_revoked: "session_step ex_server_env 7 2 session_init
    (ex_turn RevocationChanged [BrokerCall (CmdDisconnected 7)]) (session_init\<lparr>sl_running := False\<rparr>)"
  by (rule session_step) (simp_all add: session_unfold)

theorem session_reports_end_once_witness:
  "\<exists>reports. run_calls [ex_turn (ClientReceived (Some (Inr (WsBinary [2])))) [BrokerCall (CmdReady 7)],
      ex_turn RevocationChanged [BrokerCall (CmdDisconnected 7)]] = reports @ [CmdDisconnected 7]"
proof -
  have "runs (session_step ex_server_env 7 2) session_init
      [ex_turn (ClientReceived (Some (Inr (WsBinary [2])))) [BrokerCall (CmdReady 7)],
       ex_turn RevocationChanged [BrokerCall (CmdDisconnected 7)]] (session_init\<lparr>sl_running := False\<rparr>)"
    by (rule runs_Cons, rule ex_turn_ready, rule runs_Cons, rule ex_turn_revoked, rule runs_Nil)
  from session_reports_end_once [OF this] show ?thesis by auto
qed

definition is_pong :: "('req, 'cred, 'env, 'st) server_env \<Rightarrow> session_event \<Rightarrow> bool" where
  "is_pong se e \<longleftrightarrow>
     (\<exists>frame. e = ClientReceived (Some (Inr (WsBinary frame))) \<and> decode_client (se_lib se) (se_plib se) frame = Ok Pong)"

lemma handle_client_awaiting:
  assumes "handle_client_message se env broker_ok session_id cid sv True message = (sv', awaiting, calls, continues)"
    and "\<not> is_pong se (ClientReceived (Some (Inr message)))"
  shows "awaiting"
  using assms
  by (auto simp: handle_client_message_def is_pong_def Let_def
      split: ws_message.splits sum.splits client_message.splits prod.splits if_splits)

lemma session_select_awaiting:
  assumes "session_select se env broker_ok send_ok session_id cid sv l e = (sv', l', outs)"
    and "sl_awaiting_pong l" and "\<not> is_pong se e"
  shows "sl_awaiting_pong l' \<and> (e = HeartbeatTick \<longrightarrow> \<not> sl_running l')"
proof (cases e)
  case (BrokerCommand c)
  then show ?thesis using assms by (cases c) (auto simp: end_session_def split: sum.splits if_splits)
next
  case (ClientReceived received)
  show ?thesis
  proof (cases "\<exists>message. received = Some (Inr message)")
    case True
    then obtain message where m: "received = Some (Inr message)" ..
    obtain sv1 awaiting calls continues where
      h: "handle_client_message se env broker_ok session_id cid sv True message = (sv1, awaiting, calls, continues)"
      by (metis prod_cases4)
    have "awaiting" using handle_client_awaiting [OF h] assms(3) by (simp add: ClientReceived m)
    then show ?thesis
      using assms(1,2) h by (auto simp: ClientReceived m end_session_def split: if_splits)
  next
    case False
    then show ?thesis using assms by (auto simp: ClientReceived end_session_def split: option.splits sum.splits)
  qed
qed (use assms in \<open>auto simp: end_session_def split: sum.splits if_splits\<close>)

text \<open>
  A client that stops answering is dropped at the next heartbeat. If no pong is received
  between two ticks of the heartbeat, the session has ended after the second one, whatever
  else was exchanged in between.
\<close>

lemma session_heartbeat_detects_silence:
  assumes "runs (session_step se session_id cid) l (first # ts @ [second]) l'"
    and "st_event first = HeartbeatTick" and "st_event second = HeartbeatTick"
    and "\<forall>t \<in> set ts. \<not> is_pong se (st_event t)"
  shows "\<not> sl_running l'"
proof -
  have step: "session_select se (st_env t) (st_broker_ok t) (st_send_ok t) session_id cid (st_before t) a (st_event t)
      = (st_after t, b, st_outputs t)" "sl_running a" if "session_step se session_id cid a t b" for a t b
    using that by (auto elim: session_stepE)
  have waits: "sl_awaiting_pong b"
    if "runs (session_step se session_id cid) a ts b" "sl_awaiting_pong a" "\<forall>t \<in> set ts. \<not> is_pong se (st_event t)" for a b
    using that
  proof (induction rule: runs.induct)
    case (runs_Cons a t m ts b)
    from session_select_awaiting [OF step(1) [OF runs_Cons.hyps(1)] runs_Cons.prems(1)] runs_Cons show ?case by simp
  qed simp
  from assms(1) obtain a b where s: "session_step se session_id cid l first a" "runs (session_step se session_id cid) a ts b"
    "session_step se session_id cid b second l'"
    by (auto simp: runs_append runs_Cons_iff)
  have no_pong: "\<not> is_pong se HeartbeatTick" by (simp add: is_pong_def)
  show ?thesis
  proof (cases "sl_awaiting_pong a")
    case True
    from waits [OF s(2) True assms(4)] session_select_awaiting [OF step(1) [OF s(3)]] assms(3) no_pong show ?thesis by simp
  next
    case False
    then have "\<not> sl_running a"
      using step(1) [OF s(1)] assms(2) by (auto simp: end_session_def split: sum.splits if_splits)
    with s(2) have "ts = []" "b = a" by (auto elim: runs.cases session_stepE)
    with s(3) \<open>\<not> sl_running a\<close> show ?thesis by (auto elim: session_stepE)
  qed
qed

lemma authorize_credential:
  assumes "authorize se env sv message new_id random now = (sv', Some (Ok a))"
  shows "(\<exists>name credential. message = PairRequest name \<and> random = Some credential \<and> pairing_key sv = None
        \<and> a = Paired (server_id (sv_state sv)) new_id credential \<and> pairing_key sv' = Some (new_id, se_digest se credential))
    \<or> (\<exists>credential. message = Authenticate (authorization_client_id a) credential
        \<and> pairing_key sv = Some (authorization_client_id a, se_digest se credential) \<and> pairing_key sv' = pairing_key sv)"
proof (cases message)
  case (PairRequest name)
  with assms have "pair (se_save se env) (se_digest se) sv name new_id random now = (sv', Ok a)"
    by (auto simp: map_prod_def split: prod.splits)
  from pair_key [OF this] PairRequest show ?thesis by auto
next
  case (Authenticate c credential)
  with assms have p: "authenticate (se_save se env) (se_digest se) sv c credential now = (sv', Ok a)"
    by (auto simp: map_prod_def split: prod.splits)
  then have "authorization_client_id a = c" "pairing_key sv = Some (c, se_digest se credential)"
    by (auto simp: authenticate_def pairing_key_def split: option.splits if_splits prod.splits sum.splits)
  with authenticate_key [OF p] Authenticate show ?thesis by auto
qed (use assms in auto)

text \<open>
  C6: a session needs the credential. If the handshake starts a session for a client, then
  either the server was unpaired and that client has just claimed it with the credential
  that the reply carries, or the first message presented the identifier of the paired client
  and a credential with the stored hash; and the reply is the only thing sent.
\<close>

theorem session_requires_credential:
  assumes "serve_handshake se env sv received new_id random now connected send_ok = (sv', outs, Some (session_id, cid))"
  shows "\<exists>response. outs = [SendFrame response] \<and>
    (pairing_key sv = None \<and> cid = new_id
        \<and> (\<exists>name credential. receive_client se received = Some (PairRequest name) \<and> random = Some credential
             \<and> pairing_key sv' = Some (cid, se_digest se credential)
             \<and> encode_server (se_plib se) (MsgPaired (server_id (sv_state sv)) cid credential session_id (se_vapid_public_key se)) = Ok response)
     \<or> (\<exists>credential. receive_client se received = Some (Authenticate cid credential)
             \<and> pairing_key sv = Some (cid, se_digest se credential) \<and> pairing_key sv' = pairing_key sv))"
proof -
  from assms obtain message sv1 authorization port response where m: "receive_client se received = Some message"
    and a: "authorize se env sv message new_id random now = (sv1, Some (Ok authorization))"
    and e: "encode_server (se_plib se) (handshake_response authorization session_id (se_vapid_public_key se)) = Ok response"
    and r: "sv' = sv1" "outs = [SendFrame response]" "cid = authorization_client_id authorization"
    by (auto simp: serve_handshake_def split: option.splits prod.splits sum.splits broker_error.splits if_splits)
  from authorize_credential [OF a] m e r show ?thesis by auto
qed

lemma ex_receive: "receive_client ex_server_env (Some (Inr (WsBinary [1]))) = Some (PairRequest [65])"
  by (simp add: receive_client_def session_unfold protocol_limits)

lemma ex_authorize: "authorize ex_server_env () ex_fresh (PairRequest [65]) 2 (Some [7, 8]) 10
    = (ex_paired, Some (Ok (Paired 1 2 [7, 8])))"
  using ex_pair_step by (auto elim!: service_stepE simp: ex_server_env_def map_prod_def split: prod.splits)

theorem session_requires_credential_witness:
  "\<exists>response. serve_handshake ex_server_env () ex_fresh (Some (Inr (WsBinary [1]))) 2 (Some [7, 8]) 10 (Ok (7, 60)) True
      = (ex_paired, [SendFrame response], Some (7, 2)) \<and> pairing_key ex_paired = Some (2, rev [7, 8])"
proof -
  obtain response where run: "serve_handshake ex_server_env () ex_fresh (Some (Inr (WsBinary [1]))) 2 (Some [7, 8]) 10 (Ok (7, 60)) True
      = (ex_paired, [SendFrame response], Some (7, 2))"
    by (simp add: serve_handshake_def ex_receive ex_authorize encode_server_def del: authorize.simps)
       (simp add: session_unfold)
  from session_requires_credential [OF run] ex_receive run show ?thesis by (auto simp: ex_server_env_def)
qed

text \<open>
  C30: a conflict at the broker strands a fresh pairing. The handshake pairs before it binds the
  session: if another session is still registered when an unpaired server receives a pairing
  request, the client is told it was rejected while the server is now paired to it, and the
  credential, the only proof of that pairing, is sent to nobody.
\<close>

theorem session_conflict_strands_pairing:
  assumes "receive_client se received = Some (PairRequest name)" and "client (sv_state sv) = None"
    and "\<forall>s. \<exists>store. se_save se env (sv_store sv) s = (store, Ok ())"
  shows "\<exists>sv'. serve_handshake se env sv received new_id (Some credential) now (Err BrokerRemoteAlreadyConnected) send_ok
      = (sv', send_rejected se, None)
    \<and> pairing_key sv' = Some (new_id, se_digest se credential)"
proof -
  let ?n = "\<lparr>server_id = server_id (sv_state sv), client = Some \<lparr>client_id = new_id,
     credential_hash = se_digest se credential, label = name, created_at = now, last_seen_at = None,
     client_push_subscription = None, client_identities = None\<rparr>\<rparr>"
  obtain store where "se_save se env (sv_store sv) ?n = (store, Ok ())" using assms(3) by blast
  then have "authorize se env sv (PairRequest name) new_id (Some credential) now
      = (sv\<lparr>sv_store := store, sv_state := ?n\<rparr>, Some (Ok (Paired (server_id (sv_state sv)) new_id credential)))"
    using assms(2) by (simp add: pair_def commit_def Let_def)
  then show ?thesis using assms(1) by (simp add: serve_handshake_def pairing_key_def)
qed

theorem session_conflict_strands_pairing_witness:
  "\<exists>sv'. serve_handshake ex_server_env () ex_fresh (Some (Inr (WsBinary [1]))) 2 (Some [7, 8]) 10 (Err BrokerRemoteAlreadyConnected) True
      = (sv', [SendFrame [6]], None) \<and> pairing_key sv' = Some (2, [8, 7])"
proof -
  have "client (sv_state ex_fresh) = None" by (simp add: ex_fresh_def unpaired_def)
  moreover have "\<forall>s. \<exists>store. se_save ex_server_env () (sv_store ex_fresh) s = (store, Ok ())"
    by (simp add: ex_server_env_def memory_save_def)
  moreover have "send_rejected ex_server_env = [SendFrame [6]]" by (simp add: send_rejected_def session_unfold)
  moreover have "se_digest ex_server_env = rev" by (simp add: ex_server_env_def)
  ultimately show ?thesis
    using session_conflict_strands_pairing [OF ex_receive, of ex_fresh "()" 2 "[7, 8]" 10 True] by simp
qed

end
