(* ===== verification/Listener.thy ===== *)
theory Listener
  imports Router "HOL-Library.Sublist"
begin

text \<open>
  \<open>agent_socket/listener.rs\<close>: one connection of the SSH-agent socket and the loop that
  accepts connections. The frames of a connection come from the length-delimited codec of
  \<open>tokio_util\<close>, a parameter whose documented behaviour is \<open>length_delimited\<close>; the pending
  responses form the FIFO queue \<open>FuturesOrdered\<close>, whose head is written when it is ready.
\<close>

section \<open>Frames\<close>

text \<open>
  A decoder of buffered bytes with the settings \<open>max_frame_length\<close>, \<open>length_adjustment\<close>
  and \<open>num_skip\<close>: nothing while bytes are missing, an error, or a frame and the rest.
\<close>

type_synonym frame_codec = "nat \<Rightarrow> nat \<Rightarrow> nat \<Rightarrow> bytes \<Rightarrow> (unit + bytes \<times> bytes) option"

text \<open>
  The documented behaviour of the codec with a big-endian \<open>u32\<close> length field: the field is
  checked against \<open>max_frame_length\<close> before the adjustment is applied; the frame starts after
  the skipped bytes and has the adjusted length.
\<close>

definition length_delimited :: "frame_codec \<Rightarrow> bool" where
  "length_delimited codec \<longleftrightarrow>
     (\<forall>max_len adjustment skip buf.
        codec max_len adjustment skip buf =
          (if length buf < 4 then None
           else let n = from_be_bytes (take 4 buf) in
             if max_len < n then Some (Err ())
             else if length buf < skip + (n + adjustment) then None
             else Some (Ok (take (n + adjustment) (drop skip buf), drop (skip + (n + adjustment)) buf))))"

text \<open>The codec as \<open>handle_connection\<close> configures it.\<close>

definition agent_frames :: "frame_codec \<Rightarrow> nat \<Rightarrow> bytes \<Rightarrow> (unit + bytes \<times> bytes) option" where
  "agent_frames codec max_packet_size = codec (max_packet_size + 4) 4 0"

section \<open>One connection\<close>

definition MAX_PIPELINED_REQUESTS :: nat where "MAX_PIPELINED_REQUESTS = 8"

text \<open>
  The variables of \<open>handle_connection\<close>. When it returns, the guard cancels the tokens of all
  requests of the connection.
\<close>

record connection =
  cn_router :: connection_router
  cn_responses :: "routed_response list"
  cn_open :: bool

definition connection_new :: "connection_router \<Rightarrow> connection" where
  "connection_new r = \<lparr>cn_router = r, cn_responses = [], cn_open = True\<rparr>"

abbreviation close :: "connection \<Rightarrow> connection" where
  "close c \<equiv> c\<lparr>cn_open := False\<rparr>"

text \<open>\<open>write_all\<close>: everything is written, or it fails after some of the bytes.\<close>

definition write_all :: "nat option \<Rightarrow> bytes \<Rightarrow> bytes \<times> bool" where
  "write_all failure bs = (case failure of None \<Rightarrow> (bs, True) | Some n \<Rightarrow> (take n bs, False))"

text \<open>The refusal of a frame: a failure is written only if no earlier response is pending.\<close>

definition refuse_frame :: "nat option \<Rightarrow> connection \<Rightarrow> connection \<times> bytes" where
  "refuse_frame failure c =
     (close c, if cn_responses c = [] then fst (write_all failure AGENT_FAILURE_FRAME) else [])"

text \<open>What is written for the result of a response future.\<close>

definition answer_frame :: "request_error + bytes \<Rightarrow> bytes" where
  "answer_frame outcome = (case outcome of Inl _ \<Rightarrow> AGENT_FAILURE_FRAME | Inr bs \<Rightarrow> bs)"

text \<open>
  The two branches of the loop: what the frame stream yielded (\<^term>\<open>None\<close> at its end), with the
  child token that the request would get; and the result of the head of the queue.
\<close>

datatype connection_event =
    FrameArrived "(unit + bytes) option" nat
  | ResponseReady "request_error + bytes"

fun connection_select ::
  "('req, 'cred) ssh_lib \<Rightarrow> (rstring \<Rightarrow> uuid option) \<Rightarrow> identity_watch \<Rightarrow> nat option \<Rightarrow> connection \<Rightarrow> connection_event \<Rightarrow>
     connection \<times> bytes" where
  "connection_select lib parse_str w failure c (FrameArrived frame token) =
     (case frame of
        None \<Rightarrow> (close c, [])
      | Some (Inl _) \<Rightarrow> refuse_frame failure c
      | Some (Inr packet) \<Rightarrow>
          if MAX_PIPELINED_REQUESTS \<le> length (cn_responses c) then (close c, [])
          else (case route lib parse_str w (cn_router c) packet token of
                  (r, Inl _) \<Rightarrow> refuse_frame failure (c\<lparr>cn_router := r\<rparr>)
                | (r, Inr response) \<Rightarrow> (c\<lparr>cn_router := r, cn_responses := cn_responses c @ [response]\<rparr>, [])))"
| "connection_select lib parse_str w failure c (ResponseReady outcome) =
     (let (written, ok) = write_all failure (answer_frame outcome);
          c = c\<lparr>cn_responses := tl (cn_responses c)\<rparr>
      in (if ok then c else close c, written))"

text \<open>
  The branch of the responses is taken only if the queue is not empty, with a result of its
  head: a ready response yields its frame, a submitted one what \<open>submit\<close> returns.
\<close>

fun resolves :: "routed_response \<Rightarrow> request_error + bytes \<Rightarrow> bool" where
  "resolves (ReadyResponse bs) outcome = (outcome = Ok bs)"
| "resolves (SubmitRequest _ _ _) outcome = True"

fun connection_enabled :: "connection \<Rightarrow> connection_event \<Rightarrow> bool" where
  "connection_enabled c (FrameArrived _ _) = cn_open c"
| "connection_enabled c (ResponseReady outcome) =
     (cn_open c \<and> (case cn_responses c of [] \<Rightarrow> False | response # _ \<Rightarrow> resolves response outcome))"

text \<open>
  The steps of a connection, beside the identities that pairing publishes meanwhile. A label
  shows the event, the failure of its write, the bytes written and the response queued.
\<close>

datatype connection_label =
    Published "agent_identity list option"
  | Selected connection_event "nat option" bytes "routed_response list"

fun queued_by :: "connection_event \<Rightarrow> connection \<Rightarrow> connection \<Rightarrow> routed_response list" where
  "queued_by (FrameArrived _ _) c c' = drop (length (cn_responses c)) (cn_responses c')"
| "queued_by (ResponseReady _) c c' = []"

inductive connection_step ::
  "('req, 'cred) ssh_lib \<Rightarrow> (rstring \<Rightarrow> uuid option) \<Rightarrow>
     identity_watch \<times> connection \<Rightarrow> connection_label \<Rightarrow> identity_watch \<times> connection \<Rightarrow> bool"
  for lib parse_str where
  conn_published: "connection_step lib parse_str (w, c) (Published v) (watch_send v w, c)"
| conn_selected: "connection_enabled c e \<Longrightarrow> connection_select lib parse_str w failure c e = (c', written) \<Longrightarrow>
    connection_step lib parse_str (w, c) (Selected e failure written (queued_by e c c')) (w, c')"

section \<open>The accept loop\<close>

text \<open>
  \<open>serve\<close>: the tasks of the open connections (a \<open>JoinSet\<close>), and the result once the loop has
  been left. An accept error leaves it at once; dropping the set aborts its tasks, as the
  orderly end does.
\<close>

record listener =
  ln_tasks :: "(nat \<times> connection_router) list"
  ln_result :: "(unit + unit) option"

datatype listener_event =
    ShutdownCancelled
  | Accepted nat
  | AcceptFailed
  | TaskEnded nat

definition listener_select ::
  "('req, 'cred) ssh_lib \<Rightarrow> identity_watch \<Rightarrow> nat \<Rightarrow> listener \<Rightarrow> listener_event \<Rightarrow> listener" where
  "listener_select lib w seen l e =
     (case e of
        ShutdownCancelled \<Rightarrow> \<lparr>ln_tasks = [], ln_result = Some (Ok ())\<rparr>
      | AcceptFailed \<Rightarrow> \<lparr>ln_tasks = [], ln_result = Some (Err ())\<rparr>
      | Accepted task \<Rightarrow>
          (case connection_router_new lib w seen of Inl _ \<Rightarrow> l
           | Inr r \<Rightarrow> l\<lparr>ln_tasks := ln_tasks l @ [(task, r)]\<rparr>)
      | TaskEnded task \<Rightarrow> l\<lparr>ln_tasks := filter (\<lambda>t. fst t \<noteq> task) (ln_tasks l)\<rparr>)"

section \<open>Frames: exactly the complete packets\<close>

lemma be_field: "4 \<le> length buf \<Longrightarrow> from_be_bytes (take 4 buf) < 2 ^ 32"
  by (rule from_be_bytes_bound) simp

lemma agent_frames_unfold:
  assumes "length_delimited codec"
  shows "agent_frames codec max_packet_size buf =
    (if length buf < 4 then None
     else let n = from_be_bytes (take 4 buf) in
       if max_packet_size + 4 < n then Some (Err ())
       else if length buf < n + 4 then None
       else Some (Ok (take (n + 4) buf, drop (n + 4) buf)))"
  unfolding agent_frames_def using assms [unfolded length_delimited_def, rule_format, of "max_packet_size + 4" 4 0 buf]
  by (simp only: add_0 drop_0)

lemma complete_prefix_iff:
  "4 \<le> length buf \<and> from_be_bytes (take 4 buf) + 4 \<le> length buf
     \<and> frame = take (from_be_bytes (take 4 buf) + 4) buf \<and> rest = drop (from_be_bytes (take 4 buf) + 4) buf
   \<longleftrightarrow> buf = frame @ rest \<and> (\<exists>payload. packet_payload frame = Some payload \<and> length payload = from_be_bytes (take 4 buf))"
  (is "?L \<longleftrightarrow> ?R")
proof
  assume L: ?L
  let ?n = "from_be_bytes (take 4 buf)"
  have "take 4 buf = to_be_bytes ?n" using L by (simp add: to_from_be_bytes)
  moreover have "frame = take 4 buf @ take ?n (drop 4 buf)" using L by (simp add: take_add add.commute)
  moreover have len: "length (take ?n (drop 4 buf)) = ?n" using L by auto
  ultimately have "packet_payload frame = Some (take ?n (drop 4 buf))"
    unfolding packet_payload_iff using be_field [of buf] L by (simp only: len)
  with L len show ?R by auto
next
  assume ?R
  then obtain payload where r: "buf = frame @ rest" "packet_payload frame = Some payload"
    and n: "length payload = from_be_bytes (take 4 buf)" by blast
  from r(2) have f: "frame = to_be_bytes (length payload) @ payload" by (simp add: packet_payload_iff)
  then have "take (length payload + 4) buf = frame" "drop (length payload + 4) buf = rest" "length payload + 4 \<le> length buf"
    by (simp_all add: r(1))
  then show ?L unfolding n [symmetric] by auto
qed

section \<open>What a run of a connection shows\<close>

fun run_queued :: "connection_label list \<Rightarrow> routed_response list" where
  "run_queued [] = []"
| "run_queued (Published _ # ls) = run_queued ls"
| "run_queued (Selected _ _ _ queued # ls) = queued @ run_queued ls"

fun run_outcomes :: "connection_label list \<Rightarrow> (request_error + bytes) list" where
  "run_outcomes [] = []"
| "run_outcomes (Selected (ResponseReady outcome) _ _ _ # ls) = outcome # run_outcomes ls"
| "run_outcomes (_ # ls) = run_outcomes ls"

fun run_written :: "connection_label list \<Rightarrow> bytes" where
  "run_written [] = []"
| "run_written (Published _ # ls) = run_written ls"
| "run_written (Selected _ _ written _ # ls) = written @ run_written ls"

text \<open>The frames that were routed: those for which a response was queued.\<close>

fun run_packets :: "connection_label list \<Rightarrow> bytes list" where
  "run_packets [] = []"
| "run_packets (Selected (FrameArrived (Some (Inr packet)) _) _ _ (_ # _) # ls) = packet # run_packets ls"
| "run_packets (_ # ls) = run_packets ls"

lemma run_append [simp]:
  "run_queued (xs @ ys) = run_queued xs @ run_queued ys"
  "run_outcomes (xs @ ys) = run_outcomes xs @ run_outcomes ys"
  "run_written (xs @ ys) = run_written xs @ run_written ys"
  "run_packets (xs @ ys) = run_packets xs @ run_packets ys"
proof -
  show "run_queued (xs @ ys) = run_queued xs @ run_queued ys" by (induction xs rule: run_queued.induct) auto
  show "run_outcomes (xs @ ys) = run_outcomes xs @ run_outcomes ys" by (induction xs rule: run_outcomes.induct) auto
  show "run_written (xs @ ys) = run_written xs @ run_written ys" by (induction xs rule: run_written.induct) auto
  show "run_packets (xs @ ys) = run_packets xs @ run_packets ys" by (induction xs rule: run_packets.induct) auto
qed

text \<open>What one step does, by cases.\<close>

lemma connection_stepE:
  assumes "connection_step lib parse_str (w, c) l (w', c')"
  obtains (publish) v where "l = Published v" and "w' = watch_send v w" and "c' = c"
  | (accept) packet token failure r response where "l = Selected (FrameArrived (Some (Ok packet)) token) failure [] [response]"
      and "w' = w" and "cn_open c" and "length (cn_responses c) < MAX_PIPELINED_REQUESTS"
      and "route lib parse_str w (cn_router c) packet token = (r, Ok response)"
      and "c' = c\<lparr>cn_router := r, cn_responses := cn_responses c @ [response]\<rparr>"
  | (leave) frame token failure written where "l = Selected (FrameArrived frame token) failure written []"
      and "w' = w" and "cn_open c" and "\<not> cn_open c'" and "cn_responses c' = cn_responses c"
      and "prefix written (if cn_responses c = [] then AGENT_FAILURE_FRAME else [])"
  | (answer) response rest outcome failure written where "l = Selected (ResponseReady outcome) failure written []"
      and "w' = w" and "cn_open c" and "cn_responses c = response # rest" and "resolves response outcome"
      and "cn_responses c' = rest" and "cn_router c' = cn_router c"
      and "if cn_open c' then written = answer_frame outcome else prefix written (answer_frame outcome)"
proof -
  have pre: "prefix (fst (write_all failure bs)) bs" for failure and bs :: bytes
    by (auto simp: write_all_def take_is_prefix split: option.split)
  have refuse: "refuse_frame failure d = (c', written) \<Longrightarrow> cn_responses d = cn_responses c \<Longrightarrow>
      \<not> cn_open c' \<and> cn_responses c' = cn_responses c
      \<and> prefix written (if cn_responses c = [] then AGENT_FAILURE_FRAME else [])" for failure d written
    by (auto simp: refuse_frame_def pre)
  from assms show thesis
  proof (cases rule: connection_step.cases)
    case (conn_published v)
    then show thesis by (intro publish) simp_all
  next
    case (conn_selected e failure written)
    show thesis
    proof (cases e)
      case (FrameArrived frame token)
      show thesis
      proof (cases "\<exists>packet response. frame = Some (Ok packet) \<and> length (cn_responses c) < MAX_PIPELINED_REQUESTS
          \<and> snd (route lib parse_str w (cn_router c) packet token) = Ok response")
        case True
        then obtain packet response r where "frame = Some (Ok packet)" "length (cn_responses c) < MAX_PIPELINED_REQUESTS"
          "route lib parse_str w (cn_router c) packet token = (r, Ok response)" by (metis prod.collapse)
        with conn_selected show thesis by (intro accept [of packet token failure response r]) (auto simp: FrameArrived)
      next
        case False
        with conn_selected have "\<not> cn_open c' \<and> cn_responses c' = cn_responses c
            \<and> prefix written (if cn_responses c = [] then AGENT_FAILURE_FRAME else [])"
          by (auto simp: FrameArrived not_le split: option.splits sum.splits if_splits prod.splits dest: refuse)
        with conn_selected show thesis by (intro leave [of frame token failure written]) (auto simp: FrameArrived)
      qed
    next
      case (ResponseReady outcome)
      with conn_selected obtain response rest where "cn_responses c = response # rest" "resolves response outcome" "cn_open c"
        by (auto split: list.splits)
      with conn_selected show thesis
        by (intro answer [of outcome failure written response rest])
          (auto simp: ResponseReady Let_def write_all_def take_is_prefix split: option.splits)
    qed
  qed
qed

text \<open>A connection that is closed does nothing any more.\<close>

lemma closed_silent:
  assumes "runs (connection_step lib parse_str) s ls t" and "\<not> cn_open (snd s)"
  shows "snd t = snd s \<and> run_queued ls = [] \<and> run_outcomes ls = [] \<and> run_written ls = [] \<and> run_packets ls = []"
  using assms
proof (induction rule: runs.induct)
  case (runs_Cons s l t ls u)
  obtain w c w' c' where s: "s = (w, c)" "t = (w', c')" by (cases s, cases t)
  from runs_Cons.hyps(1) [unfolded s] show ?case
    by (cases rule: connection_stepE) (use runs_Cons.IH runs_Cons.prems in \<open>auto simp: s\<close>)
qed simp

lemma run_in_order:
  assumes "runs (connection_step lib parse_str) (w, c) ls (w', c')" and "cn_open c"
  shows "\<exists>answered. cn_responses c @ run_queued ls = answered @ cn_responses c' \<and> list_all2 resolves answered (run_outcomes ls)
    \<and> (cn_open c' \<longrightarrow> run_written ls = concat (map answer_frame (run_outcomes ls)))
    \<and> prefix (run_written ls) (concat (map answer_frame (run_outcomes ls)) @ (if cn_responses c' = [] then AGENT_FAILURE_FRAME else []))"
  using assms
proof (induction ls arbitrary: w c)
  case Nil
  then show ?case by (intro exI [of _ "[]"]) auto
next
  case (Cons l ls)
  then obtain w1 c1 where step: "connection_step lib parse_str (w, c) l (w1, c1)"
    and rest: "runs (connection_step lib parse_str) (w1, c1) ls (w', c')" by (auto simp: runs_Cons_iff)
  from step show ?case
  proof (cases rule: connection_stepE)
    case (publish v)
    with Cons.IH [OF rest] Cons.prems(2) show ?thesis by simp
  next
    case (accept packet token failure r response)
    with Cons.IH [OF rest] show ?thesis by simp
  next
    case (leave frame token failure written)
    with closed_silent [OF rest] show ?thesis by (intro exI [of _ "[]"]) auto
  next
    case (answer response more outcome failure written)
    show ?thesis
    proof (cases "cn_open c1")
      case True
      from Cons.IH [OF rest True] obtain answered where "cn_responses c1 @ run_queued ls = answered @ cn_responses c'"
        and "list_all2 resolves answered (run_outcomes ls)"
        and "cn_open c' \<longrightarrow> run_written ls = concat (map answer_frame (run_outcomes ls))"
        and "prefix (run_written ls) (concat (map answer_frame (run_outcomes ls)) @ (if cn_responses c' = [] then AGENT_FAILURE_FRAME else []))"
        by blast
      with answer True show ?thesis by (intro exI [of _ "response # answered"]) auto
    next
      case False
      with closed_silent [OF rest] answer show ?thesis by (intro exI [of _ "[response]"]) (auto intro: prefix_order.trans)
    qed
  qed
qed

text \<open>
  A connection is a client of the router: the packets it routes are a run of the router, with
  the responses that it queued.
\<close>

fun routed_responses :: "router_event list \<Rightarrow> routed_response list" where
  "routed_responses [] = []"
| "routed_responses (PacketRouted _ _ response # ls) = response # routed_responses ls"
| "routed_responses (IdentitiesPublished _ # ls) = routed_responses ls"

lemma routed_responses_in:
  "response \<in> set (routed_responses ls) \<Longrightarrow> \<exists>packet token. PacketRouted packet token response \<in> set ls \<and> packet \<in> set (routed_packets ls)"
  by (induction ls rule: routed_responses.induct) auto

lemma connection_routes:
  assumes "runs (connection_step lib parse_str) (w, c) ls t" and "cn_open c \<longrightarrow> r = cn_router c"
  shows "\<exists>rls w' r'. runs (router_step lib parse_str) (w, r) rls (w', r') \<and> routed_packets rls = run_packets ls
    \<and> routed_responses rls = run_queued ls"
  using assms
proof (induction ls arbitrary: w c r)
  case Nil
  show ?case by (intro exI [of _ "[]"] exI [of _ w] exI [of _ r]) (simp add: runs_Nil)
next
  case (Cons l ls)
  then obtain w1 c1 where step: "connection_step lib parse_str (w, c) l (w1, c1)"
    and rest: "runs (connection_step lib parse_str) (w1, c1) ls t" by (auto simp: runs_Cons_iff)
  from step show ?case
  proof (cases rule: connection_stepE)
    case (publish v)
    from Cons.IH [OF rest, of r] Cons.prems(2) publish obtain rls w' r'
      where ih: "runs (router_step lib parse_str) (w1, r) rls (w', r')" "routed_packets rls = run_packets ls"
        "routed_responses rls = run_queued ls" by blast
    have "router_step lib parse_str (w, r) (IdentitiesPublished v) (w1, r)"
      unfolding publish(2) by (rule router_step.published)
    with ih publish show ?thesis
      by (intro exI [of _ "IdentitiesPublished v # rls"] exI [of _ w'] exI [of _ r']) (auto intro: runs_Cons)
  next
    case (accept packet token failure r1 response)
    from Cons.IH [OF rest, of r1] accept obtain rls w' r'
      where ih: "runs (router_step lib parse_str) (w, r1) rls (w', r')" "routed_packets rls = run_packets ls"
        "routed_responses rls = run_queued ls" by auto
    have "router_step lib parse_str (w, r) (PacketRouted packet token response) (w, r1)"
      using accept Cons.prems(2) by (simp add: router_step.routed)
    with ih accept show ?thesis
      by (intro exI [of _ "PacketRouted packet token response # rls"] exI [of _ w'] exI [of _ r']) (auto intro: runs_Cons)
  next
    case (leave frame token failure written)
    have "run_packets (l # ls) = run_packets ls" unfolding leave(1) by simp
    with Cons.IH [OF rest, of r] leave show ?thesis by simp
  next
    case (answer response more outcome failure written)
    with Cons.IH [OF rest, of r] Cons.prems(2) show ?thesis by simp
  qed
qed

text \<open>The queued responses belong to the routed packets, one by one.\<close>

lemma queued_matches_packets:
  assumes "runs (connection_step lib parse_str) s ls t"
  shows "list_all2 (\<lambda>packet response. \<forall>q ctx token. response = SubmitRequest q ctx token \<longrightarrow> q = packet) (run_packets ls) (run_queued ls)"
  using assms
proof (induction rule: runs.induct)
  case (runs_Cons s l t ls u)
  obtain w c w' c' where s: "s = (w, c)" "t = (w', c')" by (cases s, cases t)
  from runs_Cons.hyps(1) [unfolded s] show ?case
  proof (cases rule: connection_stepE)
    case (accept packet token failure r response)
    with runs_Cons.IH route_context(4) [OF accept(5)] show ?thesis by simp blast
  qed (use runs_Cons.IH in simp_all)
qed simp

text \<open>
  Every request carries its packet and the context of its connection. A request that a
  connection submits to the broker is one of the packets it received, unmodified and no
  session binding; its context is exactly what the first packet of the connection announced,
  or none if that was not a context extension.
\<close>

lemma queued_requests_carry_context:
  assumes "connection_router_new lib w0 seen = Ok r0"
    and "runs (connection_step lib parse_str) (w0, connection_new r0) ls t"
    and "SubmitRequest packet ctx token \<in> set (run_queued ls)"
  shows "packet \<in> set (run_packets ls) \<and> \<not> is_openssh_session_bind_request packet
    \<and> ctx = (case run_packets ls of [] \<Rightarrow> None
        | first # _ \<Rightarrow> (case decode parse_str first of Inr (Some announced) \<Rightarrow> Some announced | _ \<Rightarrow> None))"
proof -
  obtain rls s where rls: "runs (router_step lib parse_str) (w0, r0) rls s" "routed_packets rls = run_packets ls"
    "routed_responses rls = run_queued ls"
    using connection_routes [OF assms(2), of r0] by (auto simp: connection_new_def)
  with assms(3) obtain q c where q: "PacketRouted q c (SubmitRequest packet ctx token) \<in> set rls" "q \<in> set (routed_packets rls)"
    using routed_responses_in by metis
  from submitted_context [OF assms(1) rls(1) q(1)] q(2) show ?thesis
    unfolding connection_context_def rls(2) by (elim conjE) (simp only: simp_thms)
qed

definition pipeline_inv :: "identity_watch \<times> connection \<Rightarrow> bool" where
  "pipeline_inv s \<longleftrightarrow> length (cn_responses (snd s)) \<le> MAX_PIPELINED_REQUESTS"

interpretation connection_runs: kept_by_steps "connection_step lib parse_str" pipeline_inv for lib parse_str
proof unfold_locales
  fix s l t
  assume step: "connection_step lib parse_str s l t" and inv: "pipeline_inv s"
  obtain w c w' c' where s: "s = (w, c)" "t = (w', c')" by (cases s, cases t)
  from step [unfolded s] inv show "pipeline_inv t"
    by (cases rule: connection_stepE) (auto simp: s pipeline_inv_def)
qed

section \<open>Properties\<close>

text \<open>
  C11: responses are written in the order of the packets, and the pipeline is bounded. Along
  any run of a connection, the results that were written belong, one by one, to the first
  packets that were routed, the responses still queued to the following ones, and there are
  at most eight of these. The bytes on the socket are exactly the frames of the results while
  the connection is open; after it has closed they are a prefix of them, followed by a
  failure frame only if no response was pending.
\<close>

theorem listener_answers_in_order:
  assumes "runs (connection_step lib parse_str) (w0, connection_new r0) ls (w, c)"
  shows "\<exists>answered. run_queued ls = answered @ cn_responses c \<and> list_all2 resolves answered (run_outcomes ls)
    \<and> length (cn_responses c) \<le> 8
    \<and> (cn_open c \<longrightarrow> run_written ls = concat (map answer_frame (run_outcomes ls)))
    \<and> prefix (run_written ls) (concat (map answer_frame (run_outcomes ls)) @ (if cn_responses c = [] then AGENT_FAILURE_FRAME else []))"
proof -
  have new: "cn_open (connection_new r0)" "cn_responses (connection_new r0) = []" by (simp_all add: connection_new_def)
  have "pipeline_inv (w0, connection_new r0)" by (simp add: pipeline_inv_def new)
  with assms have "pipeline_inv (w, c)" by (rule connection_runs.runs_keep)
  then have "length (cn_responses c) \<le> 8" by (simp add: pipeline_inv_def MAX_PIPELINED_REQUESTS_def)
  with run_in_order [OF assms new(1)] show ?thesis by (simp add: new(2))
qed

text \<open>A connection that announces a context and asks for a signature, then reads both answers.\<close>

abbreviation ex_pipeline :: "connection_label list" where
  "ex_pipeline \<equiv>
     [Selected (FrameArrived (Some (Ok ex_context_packet)) 8) None [] [ReadyResponse AGENT_SUCCESS_FRAME],
      Selected (FrameArrived (Some (Ok [0, 0, 0, 1, 13])) 9) None [] [SubmitRequest [0, 0, 0, 1, 13] (Some ex_context) 9],
      Selected (ResponseReady (Ok AGENT_SUCCESS_FRAME)) None AGENT_SUCCESS_FRAME [],
      Selected (ResponseReady (Ok [0, 0, 0, 1, 14])) None [0, 0, 0, 1, 14] []]"

abbreviation ex_conn :: "connection_router \<Rightarrow> routed_response list \<Rightarrow> identity_watch \<times> connection" where
  "ex_conn r responses \<equiv> (ex_watch, \<lparr>cn_router = r, cn_responses = responses, cn_open = True\<rparr>)"

lemma conn_selectedI:
  "connection_enabled c e \<Longrightarrow> connection_select lib parse_str w failure c e = (c', written) \<Longrightarrow> queued = queued_by e c c' \<Longrightarrow>
     connection_step lib parse_str (w, c) (Selected e failure written queued) (w, c')"
  by (simp add: connection_step.conn_selected)

lemma ex_pipeline_runs:
  "runs (connection_step ex_ssh_lib (\<lambda>_. Some 5)) (ex_watch, connection_new ex_router) ex_pipeline (ex_conn ex_named [])"
proof -
  let ?sign = "SubmitRequest [0, 0, 0, 1, 13] (Some ex_context) 9" and ?ok = "ReadyResponse AGENT_SUCCESS_FRAME"
  let ?step = "connection_step ex_ssh_lib (\<lambda>_. Some 5)"
  have 1: "?step (ex_watch, connection_new ex_router) (Selected (FrameArrived (Some (Ok ex_context_packet)) 8) None [] [?ok])
      (ex_conn ex_named [?ok])"
    by (rule conn_selectedI) (simp_all add: connection_new_def ex_route_context MAX_PIPELINED_REQUESTS_def)
  have 2: "?step (ex_conn ex_named [?ok]) (Selected (FrameArrived (Some (Ok [0, 0, 0, 1, 13])) 9) None [] [?sign])
      (ex_conn ex_named [?ok, ?sign])"
    by (rule conn_selectedI) (simp_all add: ex_route_sign MAX_PIPELINED_REQUESTS_def)
  have 3: "?step (ex_conn ex_named [?ok, ?sign]) (Selected (ResponseReady (Ok AGENT_SUCCESS_FRAME)) None AGENT_SUCCESS_FRAME [])
      (ex_conn ex_named [?sign])"
    by (rule conn_selectedI) (simp_all add: write_all_def answer_frame_def)
  have 4: "?step (ex_conn ex_named [?sign]) (Selected (ResponseReady (Ok [0, 0, 0, 1, 14])) None [0, 0, 0, 1, 14] []) (ex_conn ex_named [])"
    by (rule conn_selectedI) (simp_all add: write_all_def answer_frame_def)
  show ?thesis by (rule runs_Cons, rule 1, rule runs_Cons, rule 2, rule runs_Cons, rule 3, rule runs_Cons, rule 4, rule runs_Nil)
qed

theorem listener_answers_in_order_witness:
  "runs (connection_step ex_ssh_lib (\<lambda>_. Some 5)) (ex_watch, connection_new ex_router) ex_pipeline (ex_conn ex_named [])
    \<and> run_written ex_pipeline = [0, 0, 0, 1, 6, 0, 0, 0, 1, 14]"
  using ex_pipeline_runs listener_answers_in_order [OF ex_pipeline_runs]
  by (simp add: answer_frame_def AGENT_SUCCESS_FRAME_def)

lemma agent_frames_iff:
  assumes "length_delimited codec"
  shows "agent_frames codec max_packet_size buf = Some (Ok (frame, rest)) \<longleftrightarrow>
    buf = frame @ rest \<and> (\<exists>payload. packet_payload frame = Some payload \<and> length payload \<le> max_packet_size + 4)"
proof -
  let ?n = "from_be_bytes (take 4 buf)"
  have "agent_frames codec max_packet_size buf = Some (Ok (frame, rest)) \<longleftrightarrow>
      ?n \<le> max_packet_size + 4 \<and> (4 \<le> length buf \<and> ?n + 4 \<le> length buf \<and> frame = take (?n + 4) buf \<and> rest = drop (?n + 4) buf)"
    unfolding agent_frames_unfold [OF assms] Let_def by auto
  also have "\<dots> \<longleftrightarrow> ?n \<le> max_packet_size + 4
      \<and> (buf = frame @ rest \<and> (\<exists>payload. packet_payload frame = Some payload \<and> length payload = ?n))"
    by (simp only: complete_prefix_iff)
  also have "\<dots> \<longleftrightarrow> buf = frame @ rest \<and> (\<exists>payload. packet_payload frame = Some payload \<and> length payload \<le> max_packet_size + 4)"
    by (auto simp: packet_payload_iff from_to_be_bytes)
  finally show ?thesis .
qed

text \<open>
  C23: the router sees exactly the complete packets of the byte stream. With the codec as
  documented, a frame is handed out if and only if the stream starts with it, it is one
  complete packet, and its payload has at most \<open>max_packet_size + 4\<close> bytes. So the configured
  limit on payloads is exceeded by up to four bytes: the codec compares the length field
  before it adds the adjustment that the limit was enlarged for.
\<close>

theorem listener_frames_exact:
  assumes "length_delimited codec"
  shows "agent_frames codec max_packet_size buf = Some (Ok (frame, rest)) \<longleftrightarrow>
    buf = frame @ rest \<and> (\<exists>payload. packet_payload frame = Some payload \<and> length payload \<le> max_packet_size + 4)"
  using assms by (rule agent_frames_iff)

definition ex_codec :: frame_codec where
  "ex_codec max_len adjustment skip buf =
     (if length buf < 4 then None
      else let n = from_be_bytes (take 4 buf) in
        if max_len < n then Some (Err ())
        else if length buf < skip + (n + adjustment) then None
        else Some (Ok (take (n + adjustment) (drop skip buf), drop (skip + (n + adjustment)) buf)))"

theorem listener_frames_exact_witness:
  "agent_frames ex_codec 1 [0, 0, 0, 5, 1, 2, 3, 4, 5, 0] = Some (Ok ([0, 0, 0, 5, 1, 2, 3, 4, 5], [0]))"
proof -
  have "length_delimited ex_codec" by (simp add: length_delimited_def ex_codec_def)
  moreover have "packet_payload [0, 0, 0, 5, 1, 2, 3, 4, 5] = Some [1, 2, 3, 4, 5]"
    by (simp add: packet_payload_iff to_be_bytes_def)
  ultimately show ?thesis by (simp add: listener_frames_exact)
qed

end
