(* ===== verification/Broker_Actor.thy ===== *)
theory Broker_Actor
  imports Broker_Task
begin

text \<open>
  Correctness of the broker actor and of its loop: the actor never panics and always returns,
  its outbound channel always belongs to the session that the model believes connected, and
  every caller is answered exactly once. \<open>lost\<close> collects the callers that the model has
  forgotten; only a rejected connect adds to it.
\<close>

section \<open>Sessions of dispatch effects\<close>

fun dispatch_sessions :: "effect list \<Rightarrow> session_id list" where
  "dispatch_sessions [] = []"
| "dispatch_sessions (Dispatch session_id _ _ _ _ _ _ # es) = session_id # dispatch_sessions es"
| "dispatch_sessions (_ # es) = dispatch_sessions es"

lemma dispatch_sessions_append [simp]:
  "dispatch_sessions (xs @ ys) = dispatch_sessions xs @ dispatch_sessions ys"
  by (induction xs rule: dispatch_sessions.induct) auto

lemma no_dispatch_sessions: "dispatched es = [] \<longleftrightarrow> dispatch_sessions es = []"
  by (induction es rule: dispatch_sessions.induct) auto

lemma reconcile_sessions: "sid \<in> set (dispatch_sessions (snd (reconcile s))) \<Longrightarrow> agent_session (agent s) = Some sid"
proof -
  have "set (dispatch_sessions (snd (snd (dispatch_loop x c n q m)))) \<subseteq> {x}" for x c n q m
    by (induction q arbitrary: n m) (auto simp: Let_def case_prod_beta' dispatch_effect_def split: option.splits)
  moreover have "dispatch_sessions (snd (announce_wake s)) = []" for s
    using announce_wake_frame(4) no_dispatch_sessions by blast
  ultimately show "sid \<in> set (dispatch_sessions (snd (reconcile s))) \<Longrightarrow> agent_session (agent s) = Some sid"
    by (fastforce simp: reconcile_def dispatch_work_def case_prod_beta' Let_def dest: connected_session split: option.splits)
qed

lemma apply_sessions:
  assumes "apply_event s e now = Some (s', Ok es)" and "sid \<in> set (dispatch_sessions es)"
  shows "agent_session (agent s') = Some sid"
proof -
  from assms(1) obtain s1 xs s2 hs where x: "expire s now = Some (s1, xs)"
    and h: "handle_event s1 e = Some (s2, Ok hs)" and s': "s' = fst (reconcile s2)"
    and es: "es = xs @ hs @ snd (reconcile s2)"
    by (auto simp: apply_event_def Let_def case_prod_beta' split: option.splits sum.splits)
  from assms(2) have "sid \<in> set (dispatch_sessions (snd (reconcile s2)))"
    using expire_frame [OF x] handle_event_effects(1) [OF h] by (simp add: es no_dispatch_sessions)
  then show ?thesis using reconcile_sessions by (simp add: s' reconcile_frame(1))
qed

text \<open>The session that is connected after an accepted event.\<close>

fun session_after :: "session_id option \<Rightarrow> event \<Rightarrow> session_id option" where
  "session_after active (EvConnected session_id _) = Some session_id"
| "session_after active (EvDisconnected session_id) = (if active = Some session_id then None else active)"
| "session_after active _ = active"

lemma apply_session_after:
  assumes "apply_event s e now = Some (s', r)"
  shows "case r of Inl _ \<Rightarrow> agent s' = agent s \<and> (\<exists>sid c. e = EvConnected sid c)
    | Inr _ \<Rightarrow> agent_session (agent s') = session_after (agent_session (agent s)) e"
proof -
  have h: "case x of Inl _ \<Rightarrow> agent s2 = agent s1 \<and> (\<exists>sid c. e = EvConnected sid c)
      | Inr _ \<Rightarrow> agent_session (agent s2) = session_after (agent_session (agent s1)) e"
    if "handle_event s1 e = Some (s2, x)" for s1 s2 x
    using that by (cases e) (auto simp: submit_request_def remote_response_event_def cancel_request_def
        connected_session split: option.splits if_splits remote_agent_state.splits dest: connected_session)
  from assms obtain s1 xs s2 x where e: "expire s now = Some (s1, xs)" and x: "handle_event s1 e = Some (s2, x)"
    and r: "case x of Inl err \<Rightarrow> s' = s2 \<and> r = Err err
      | Inr hs \<Rightarrow> s' = fst (reconcile s2) \<and> r = Ok (xs @ hs @ snd (reconcile s2))"
    by (auto simp: apply_event_def Let_def case_prod_beta' split: option.splits sum.splits)
  show ?thesis
    using h [OF x] expire_frame [OF e] r by (cases x) (simp_all add: reconcile_frame(1))
qed

section \<open>The invariant of the actor\<close>

text \<open>
  While effects remain to be executed, the callers that still wait are those of the pending
  requests, those that the remaining effects complete, and the lost ones.
\<close>

definition exec_inv :: "request_id multiset \<Rightarrow> broker_actor \<Rightarrow> effect list \<Rightarrow> bool" where
  "exec_inv lost a effects \<longleftrightarrow>
     broker_inv (a_state a) \<and> hm_ok (a_waiters a)
     \<and> map_option fst (a_remote a) = agent_session (agent (a_state a))
     \<and> (\<forall>sid \<in> set (dispatch_sessions effects). agent_session (agent (a_state a)) \<in> {None, Some sid})
     \<and> mset (map fst (a_waiters a)) = mset (completed effects) + mset (map fst (pending (a_state a))) + lost"

abbreviation actor_inv :: "request_id multiset \<Rightarrow> broker_actor \<Rightarrow> bool" where
  "actor_inv lost a \<equiv> exec_inv lost a []"

fun replies :: "actor_output list \<Rightarrow> (nat \<times> (request_error + bytes)) list" where
  "replies [] = []"
| "replies (OutReply channel result # outs) = (channel, result) # replies outs"
| "replies (_ # outs) = replies outs"

lemma replies_append [simp]: "replies (xs @ ys) = replies xs @ replies ys"
  by (induction xs rule: replies.induct) auto

abbreviation waiting :: "broker_actor \<Rightarrow> nat multiset" where
  "waiting a \<equiv> mset (map (\<lambda>e. w_response (snd e)) (a_waiters a))"

abbreviation answered :: "actor_output list \<Rightarrow> nat multiset" where
  "answered outs \<equiv> mset (map fst (replies outs))"

lemma hm_remove_waiting:
  assumes "hm_ok m" and "hm_get m i = Some w"
  shows "mset (map (\<lambda>e. f (snd e)) m) = add_mset (f w) (mset (map (\<lambda>e. f (snd e)) (hm_remove i m)))"
proof -
  have "(i, w) \<in> set m" using assms by (simp add: hm_get_Some_iff)
  moreover have "hm_remove i m = remove1 (i, w) m"
    using assms(1) \<open>(i, w) \<in> set m\<close>
  proof (induction m)
    case (Cons e m)
    show ?case
    proof (cases "e = (i, w)")
      case True
      with Cons.prems(1) have "hm_get m i = None" by (auto simp: hm_ok_def hm_get_None_iff)
      then have "hm_remove i m = m" by (rule hm_remove_absent)
      with True show ?thesis by (simp add: hm_remove_def)
    next
      case False
      with Cons.prems have "(i, w) \<in> set m" "fst e \<noteq> i" by (auto simp: hm_ok_def image_iff)
      with False Cons show ?thesis by (simp add: hm_remove_def hm_ok_def)
    qed
  qed simp
  ultimately have "mset m = add_mset (i, w) (mset (hm_remove i m))" by simp
  then show ?thesis by simp
qed

section \<open>Executing effects\<close>

definition exec_post :: "request_id multiset \<Rightarrow> broker_actor \<Rightarrow> effect list \<Rightarrow> actor_result \<Rightarrow> bool" where
  "exec_post lost a effects res \<longleftrightarrow>
     (\<exists>a' outs. res = Some (a', outs) \<and> actor_inv lost a' \<and> a_config a' = a_config a
       \<and> waiting a = answered outs + waiting a'
       \<and> (\<forall>i w r. hm_get (a_waiters a) i = Some w \<longrightarrow> Complete i r \<in> set effects \<longrightarrow> (w_response w, r) \<in> set (replies outs)))"

lemma exec_post_skip:
  assumes "exec_post lost a effects res" and "replies out = []" and "\<forall>i r. e \<noteq> Complete i r"
  shows "exec_post lost a (e # effects) (emit out res)"
  using assms by (fastforce simp: exec_post_def emit_def)

lemma exec_inv_skip: "exec_inv lost a (e # effects) \<Longrightarrow> \<forall>i r. e \<noteq> Complete i r \<Longrightarrow> exec_inv lost a effects"
  by (cases e) (auto simp: exec_inv_def)

lemma exec_inv_fail:
  assumes "exec_inv lost a (Dispatch sid i k ra dl pk c # effects)"
  obtains st es where "apply_event (a_state a) (EvDisconnected sid) now = Some (st, Ok es)"
    and "exec_inv lost (a\<lparr>a_remote := None, a_state := st\<rparr>) (effects @ es)"
proof -
  from assms have inv: "broker_inv (a_state a)" and ag: "agent_session (agent (a_state a)) \<in> {None, Some sid}"
    by (auto simp: exec_inv_def)
  from apply_refines [OF inv, of "EvDisconnected sid" now] obtain st r where
    run: "apply_event (a_state a) (EvDisconnected sid) now = Some (st, r)" and inv': "broker_inv st"
    by auto
  obtain es where r: "r = Ok es"
    and off: "agent st = (if agent_session (agent (a_state a)) = Some sid then RemoteDisconnected else agent (a_state a))"
    and none: "agent_session (agent st) = None \<longrightarrow> dispatched es = []"
    and "agent_session (agent (a_state a)) \<noteq> Some sid \<longrightarrow> length (dispatched es) + length (queue st) \<le> length (queue (a_state a))"
    by (rule apply_disconnected_decreases [OF run])
  have ag': "agent_session (agent st) = None" using ag off by auto
  then have "dispatch_sessions es = []" using none no_dispatch_sessions by blast
  moreover have "mset (completed es) + mset (map fst (pending st)) = mset (map fst (pending (a_state a)))"
    using apply_accounts [OF inv _ run [unfolded r]] by simp
  ultimately have "exec_inv lost (a\<lparr>a_remote := None, a_state := st\<rparr>) (effects @ es)"
    using assms inv' ag' by (simp add: exec_inv_def ac_simps)
  with that run r show ?thesis by blast
qed

lemma exec_inv_complete:
  assumes "exec_inv lost a (Complete i r # effects)"
  obtains w where "hm_get (a_waiters a) i = Some w" and "i \<notin> set (completed effects)"
    and "exec_inv lost (a\<lparr>a_waiters := hm_remove i (a_waiters a)\<rparr>) effects"
proof -
  from assms have ok: "hm_ok (a_waiters a)"
    and ms: "mset (map fst (a_waiters a)) = add_mset i (mset (completed effects) + mset (map fst (pending (a_state a))) + lost)"
    by (simp_all add: exec_inv_def)
  have "i \<in># mset (map fst (a_waiters a))" by (simp only: ms) simp
  then obtain w where w: "hm_get (a_waiters a) i = Some w"
    by (cases "hm_get (a_waiters a) i") (auto simp: hm_get_None_iff)
  have rm: "mset (map fst (hm_remove i (a_waiters a)))
      = mset (completed effects) + mset (map fst (pending (a_state a))) + lost"
    using mset_remove_key [OF ok w] ms by simp
  have "i \<notin># mset (map fst (hm_remove i (a_waiters a)))" by (auto simp: hm_remove_def)
  then have "i \<notin> set (completed effects)" by (simp only: rm) simp
  with that w rm assms ok show ?thesis by (simp add: exec_inv_def)
qed

lemma exec_post_complete:
  assumes "exec_inv lost a (Complete i r # effects)"
    and w: "hm_get (a_waiters a) i = Some w" and once: "i \<notin> set (completed effects)"
    and res: "exec_post lost (a\<lparr>a_waiters := hm_remove i (a_waiters a)\<rparr>) effects res"
  shows "exec_post lost a (Complete i r # effects) (emit [OutAbort (w_cancellation w), OutReply (w_response w) r] res)"
proof -
  let ?a = "a\<lparr>a_waiters := hm_remove i (a_waiters a)\<rparr>"
  from res obtain a' outs where post: "res = Some (a', outs)" "actor_inv lost a'"
    "a_config a' = a_config a" "waiting ?a = answered outs + waiting a'"
    and rep: "\<forall>j v r. hm_get (a_waiters ?a) j = Some v \<longrightarrow> Complete j r \<in> set effects \<longrightarrow> (w_response v, r) \<in> set (replies outs)"
    unfolding exec_post_def by auto
  have "hm_ok (a_waiters a)" using assms(1) by (simp add: exec_inv_def)
  from hm_remove_waiting [OF this w, of w_response] post(4)
  have "waiting a = add_mset (w_response w) (answered outs) + waiting a'" by simp
  moreover have "Complete i r' \<notin> set effects" for r'
    using once by (force simp: completed_def)
  then have "(w_response v, r') \<in> set (replies outs)"
    if "hm_get (a_waiters a) j = Some v" "Complete j r' \<in> set effects" for j v r'
    using that rep hm_get_remove [of i "a_waiters a" j] by (cases "j = i") simp_all
  ultimately show ?thesis using post w by (auto simp: exec_post_def emit_def)
qed

lemma execute_ok: "exec_inv lost a effects \<Longrightarrow> exec_post lost a effects (execute send_ok a effects now)"
proof (induction send_ok a effects now rule: execute.induct)
  case (1 send_ok a now)
  then show ?case by (simp add: exec_post_def)
next
  case (2 send_ok a sid i k ra dl pk c effects now)
  let ?m = "RcRequest i k ra dl pk c"
  show ?case
  proof (cases "try_send send_ok a sid ?m")
    case (Some ch)
    have "exec_post lost a effects (execute send_ok a effects now)"
      using 2(3) [OF refl Some exec_inv_skip [OF 2(4)]] by simp
    then show ?thesis using Some by (simp add: exec_post_skip)
  next
    case None
    from exec_inv_fail [OF 2(4), of now] obtain st es where
      run: "apply_event (a_state a) (EvDisconnected sid) now = Some (st, Ok es)"
      and inv: "exec_inv lost (a\<lparr>a_remote := None, a_state := st\<rparr>) (effects @ es)" by blast
    have "exec_post lost (a\<lparr>a_remote := None, a_state := st\<rparr>) (effects @ es)
        (execute send_ok (a\<lparr>a_remote := None, a_state := st\<rparr>) (effects @ es) now)"
      using 2(2) [OF refl None run refl refl inv] .
    then show ?thesis using None run by (fastforce simp: exec_post_def)
  qed
next
  case (3 send_ok a sid i k effects now)
  have "exec_post lost a effects (execute send_ok a effects now)"
    using 3(1) [OF refl exec_inv_skip [OF 3(2)]] by simp
  then show ?case by (auto simp: Let_def intro!: exec_post_skip split: option.splits)
next
  case (4 send_ok a w effects now)
  have "exec_post lost a effects (execute send_ok a effects now)"
    using 4(1) [OF exec_inv_skip [OF 4(2)]] by simp
  then show ?case by (simp add: exec_post_skip)
next
  case (5 send_ok a i r effects now)
  from exec_inv_complete [OF 5(3)] obtain w where w: "hm_get (a_waiters a) i = Some w"
    and once: "i \<notin> set (completed effects)"
    and inv: "exec_inv lost (a\<lparr>a_waiters := hm_remove i (a_waiters a)\<rparr>) effects" by blast
  from exec_post_complete [OF 5(3) w once 5(2) [OF w inv]] w show ?case by simp
qed

section \<open>The operations of the actor\<close>

lemma apply_exec_inv:
  assumes "broker_inv (a_state a)" and "hm_ok (a_waiters a)" and "admissible (a_state a) e"
    and "\<forall>sid c. e \<noteq> EvConnected sid c"
    and "map_option fst (a_remote a) = session_after (agent_session (agent (a_state a))) e"
    and "mset (map fst (a_waiters a)) = mset (submitted e) + mset (map fst (pending (a_state a))) + lost"
  obtains st es where "apply_event (a_state a) e now = Some (st, Ok es)" and "exec_inv lost (a\<lparr>a_state := st\<rparr>) es"
proof -
  from apply_refines [OF assms(1,3), of now] obtain st r where
    run: "apply_event (a_state a) e now = Some (st, r)" and inv: "broker_inv st" by auto
  note after = apply_session_after [OF run]
  from after assms(4) obtain es where r: "r = Ok es" by (cases r) auto
  have "exec_inv lost (a\<lparr>a_state := st\<rparr>) es"
    using assms inv after apply_sessions [OF run [unfolded r]] apply_accounts [OF assms(1,3) run [unfolded r]]
    by (auto simp: exec_inv_def r ac_simps)
  with that run r show ?thesis by blast
qed

lemma apply_actor_ok:
  assumes "broker_inv (a_state a)" and "hm_ok (a_waiters a)" and "admissible (a_state a) e"
    and "\<forall>sid c. e \<noteq> EvConnected sid c"
    and "map_option fst (a_remote a) = session_after (agent_session (agent (a_state a))) e"
    and "mset (map fst (a_waiters a)) = mset (submitted e) + mset (map fst (pending (a_state a))) + lost"
  obtains st es where "apply_event (a_state a) e now = Some (st, Ok es)"
    and "exec_post lost a es (apply_actor send_ok a e now)"
proof -
  obtain st es where run: "apply_event (a_state a) e now = Some (st, Ok es)"
    and inv: "exec_inv lost (a\<lparr>a_state := st\<rparr>) es"
    by (rule apply_exec_inv [OF assms])
  from execute_ok [OF inv, of send_ok now] that [of st es] run show ?thesis
    by (simp add: apply_actor_def exec_post_def)
qed

text \<open>Events that the actor applies in a state with the invariant, as they are.\<close>

lemma apply_actor_inv:
  assumes "actor_inv lost a" and "\<forall>sid c. e \<noteq> EvConnected sid c" and "\<forall>sid. e \<noteq> EvDisconnected sid"
    and "submitted e = []"
  obtains st es where "apply_event (a_state a) e now = Some (st, Ok es)"
    and "exec_post lost a es (apply_actor send_ok a e now)"
proof -
  have "session_after x e = x" for x using assms(2,3) by (cases e) auto
  then have after: "map_option fst (a_remote a) = session_after (agent_session (agent (a_state a))) e"
    using assms(1) by (simp add: exec_inv_def)
  have adm: "admissible (a_state a) e" using assms(4) by (cases e) auto
  have ok: "broker_inv (a_state a)" "hm_ok (a_waiters a)"
    and ms: "mset (map fst (a_waiters a)) = mset (submitted e) + mset (map fst (pending (a_state a))) + lost"
    using assms(1,4) by (simp_all add: exec_inv_def)
  show ?thesis by (rule apply_actor_ok [OF ok adm assms(2) after ms]) (rule that)
qed

lemma actor_pending_waits: "actor_inv lost a \<Longrightarrow> hm_keys (pending (a_state a)) \<subseteq> hm_keys (a_waiters a)"
proof -
  assume "actor_inv lost a"
  then have "set_mset (mset (map fst (pending (a_state a)))) \<subseteq> set_mset (mset (map fst (a_waiters a)))"
    by (auto simp: exec_inv_def)
  then show ?thesis by (simp only: set_mset_mset) simp
qed

text \<open>The deadlines of a request that arrives now are times that the clocks can represent.\<close>

definition times_fit :: "broker_config \<Rightarrow> instant \<Rightarrow> system_time \<Rightarrow> bool" where
  "times_fit config now t \<longleftrightarrow>
     instant_add now (request_timeout config) \<noteq> None \<and> system_time_add t (request_timeout config) \<noteq> None"

lemma times_fitD:
  assumes "times_fit config now t"
  shows "instant_add now (request_timeout config) = Some (now + request_timeout config)"
    and "system_time_add t (request_timeout config) = Some (t + int (request_timeout config))"
  using assms by (auto simp: times_fit_def instant_add_def system_time_add_def split: if_splits)

lemma handle_local_ok:
  assumes "actor_inv lost a" and "request_id \<notin> hm_keys (a_waiters a)" and "next_sequence (a_state a) + 1 < 2 ^ 64"
    and "times_fit (a_config a) now t"
  shows "\<exists>a' outs. handle_local send_ok a request request_id now t = Some (a', outs, (request_id, pq_cancellation request))
    \<and> actor_inv lost a' \<and> a_config a' = a_config a
    \<and> add_mset (pq_response request) (waiting a) = answered outs + waiting a'"
proof -
  let ?w = "\<lparr>w_response = pq_response request, w_cancellation = request_id\<rparr>"
  let ?a = "a\<lparr>a_waiters := (request_id, ?w) # a_waiters a\<rparr>"
  let ?e = "EvSubmit request_id (pq_packet request) (pq_context request) (now + request_timeout (a_config a))
    (unix_milliseconds t) (unix_milliseconds (t + int (request_timeout (a_config a))))"
  have "request_id \<notin> hm_keys (pending (a_state a))" using assms(2) actor_pending_waits [OF assms(1)] by auto
  then obtain es where "exec_post lost ?a es (apply_actor send_ok ?a ?e now)"
    using assms by - (rule apply_actor_ok [of ?a ?e lost now send_ok]; (auto simp: exec_inv_def hm_ok_def)?)
  moreover have "hm_insert request_id ?w (a_waiters a) = (request_id, ?w) # a_waiters a"
    using assms(2) by (simp add: hm_insert_absent hm_get_None_iff)
  ultimately show ?thesis
    by (auto simp: exec_post_def handle_local_def Let_def times_fitD [OF assms(4)])
qed

lemma stop_actor_replies: "replies (snd (stop_actor a)) = map (\<lambda>e. (w_response (snd e), Err Unavailable)) (a_waiters a)"
proof -
  have "replies (concat (map (\<lambda>(_, w). [OutAbort (w_cancellation w), OutReply (w_response w) (Err Unavailable)]) ws))
      = map (\<lambda>e. (w_response (snd e), Err Unavailable)) ws" for ws :: "(request_id, waiter) hashmap"
    by (induction ws) auto
  then show ?thesis by (simp add: stop_actor_def)
qed

lemma stop_actor_waiting:
  "waiting a = answered (snd (stop_actor a)) + waiting (fst (stop_actor a))" "a_waiters (fst (stop_actor a)) = []"
  by (simp_all add: stop_actor_replies comp_def) (simp_all add: stop_actor_def image_mset.compositionality comp_def)

subsection \<open>Commands\<close>

text \<open>What a command does to the set of lost callers.\<close>

definition overdue :: "broker_actor \<Rightarrow> instant \<Rightarrow> request_id multiset" where
  "overdue a now = mset (map fst (filter (\<lambda>(_, p). pr_deadline p \<le> now) (pending (a_state a))))"

fun newly_lost :: "broker_actor \<Rightarrow> broker_command \<Rightarrow> instant \<Rightarrow> request_id multiset" where
  "newly_lost a (CmdConnect _ _ _) now =
     (if agent_session (agent (a_state a)) = None then {#} else overdue a now)"
| "newly_lost a _ now = {#}"

definition cmd_post ::
  "request_id multiset \<Rightarrow> broker_actor \<Rightarrow> (bool \<times> broker_actor \<times> actor_output list) option \<Rightarrow> bool" where
  "cmd_post lost a res \<longleftrightarrow>
     (\<exists>stopped a' outs. res = Some (stopped, a', outs) \<and> waiting a = answered outs + waiting a'
       \<and> (if stopped then a_waiters a' = [] else actor_inv lost a'))"

lemma cmd_postI:
  "res = Some (stopped, a', outs) \<Longrightarrow> waiting a = answered outs + waiting a' \<Longrightarrow>
     (stopped \<Longrightarrow> a_waiters a' = []) \<Longrightarrow> (\<not> stopped \<Longrightarrow> actor_inv lost a') \<Longrightarrow> cmd_post lost a res"
  unfolding cmd_post_def by auto

lemma cmd_post_continue: "exec_post lost a es res \<Longrightarrow> cmd_post lost a (continue_with res)"
  by (auto simp: cmd_post_def exec_post_def continue_with_def)

lemma rejected_connect:
  assumes "actor_inv lost a" and "agent_session (agent (a_state a)) \<noteq> None"
  obtains st where "apply_event (a_state a) (EvConnected sid capacity) now = Some (st, Err RemoteAlreadyConnected)"
    and "actor_inv (lost + overdue a now) (a\<lparr>a_state := st\<rparr>)"
    and "pending st = filter (\<lambda>(_, p). now < pr_deadline p) (pending (a_state a))"
proof -
  let ?s = "a_state a"
  have inv: "broker_inv ?s" using assms(1) by (simp add: exec_inv_def)
  then obtain I Q where r: "rep ?s I Q" by (rule inv_repE)
  note x = expire_rep [OF r, of now]
  have ag: "agent ?s \<noteq> RemoteDisconnected" using assms(2) by (cases "agent ?s") auto
  from x ag obtain st where run: "apply_event ?s (EvConnected sid capacity) now = Some (st, Err RemoteAlreadyConnected)"
    and p: "pending st = filter (alive now) (pending ?s)" by (simp add: apply_event_def)
  have inv': "broker_inv st" using apply_refines [OF inv, of "EvConnected sid capacity" now] run by auto
  have "(\<lambda>e. \<not> alive now e) = (\<lambda>(_, q). pr_deadline q \<le> now)" by (auto simp: alive_def)
  then have "mset (pending ?s) = mset (pending st) + mset (filter (\<lambda>(_, q). pr_deadline q \<le> now) (pending ?s))"
    using multiset_partition [of "mset (pending ?s)" "alive now"] by (simp only: p mset_filter)
  from arg_cong [OF this, of "image_mset fst"]
  have "mset (map fst (pending ?s)) = mset (map fst (pending st)) + overdue a now"
    by (simp only: overdue_def mset_map image_mset_union)
  moreover have "agent st = agent ?s" using apply_session_after [OF run] by simp
  ultimately have "actor_inv (lost + overdue a now) (a\<lparr>a_state := st\<rparr>)"
    using assms(1) inv' by (simp add: exec_inv_def ac_simps)
  moreover have "alive now = (\<lambda>(_, q). now < pr_deadline q)" by (auto simp: alive_def)
  ultimately show ?thesis using that run p by simp
qed

lemma accepted_connect:
  assumes "actor_inv lost a" and "agent_session (agent (a_state a)) = None"
  obtains st es where "apply_event (a_state a) (EvConnected sid capacity) now = Some (st, Ok es)"
    and "exec_inv lost (a\<lparr>a_state := st, a_remote := Some (sid, outbound)\<rparr>) es"
proof -
  have inv: "broker_inv (a_state a)" using assms(1) by (simp add: exec_inv_def)
  from apply_refines [OF inv, of "EvConnected sid capacity" now] obtain st r where
    run: "apply_event (a_state a) (EvConnected sid capacity) now = Some (st, r)" and inv': "broker_inv st" by auto
  have ag: "agent (a_state a) = RemoteDisconnected" using assms(2) by (cases "agent (a_state a)") auto
  obtain es where r: "r = Ok es"
    using run ag by (auto simp: apply_event_def Let_def case_prod_beta' split: option.splits sum.splits if_splits dest: expire_frame)
  have "agent_session (agent st) = Some sid" using apply_session_after [OF run] r by simp
  then have "exec_inv lost (a\<lparr>a_state := st, a_remote := Some (sid, outbound)\<rparr>) es"
    using assms(1) inv' apply_sessions [OF run [unfolded r]] apply_accounts [OF inv _ run [unfolded r]]
    by (auto simp: exec_inv_def)
  with that run r show ?thesis by simp
qed

lemma handle_disconnected_ok:
  assumes "actor_inv lost a"
  shows "cmd_post lost a (handle_command send_ok a (CmdDisconnected sid) fresh now)"
proof -
  let ?a = "case a_remote a of None \<Rightarrow> a | Some (active, _) \<Rightarrow> if active = sid then a\<lparr>a_remote := None\<rparr> else a"
  have same: "a_state ?a = a_state a" "a_waiters ?a = a_waiters a" "a_config ?a = a_config a"
    by (auto split: option.splits)
  have ok: "broker_inv (a_state ?a)" "hm_ok (a_waiters ?a)"
    and ms: "mset (map fst (a_waiters ?a)) = mset (submitted (EvDisconnected sid)) + mset (map fst (pending (a_state ?a))) + lost"
    using assms unfolding same by (simp_all add: exec_inv_def)
  have after: "map_option fst (a_remote ?a) = session_after (agent_session (agent (a_state ?a))) (EvDisconnected sid)"
    using assms by (auto simp: exec_inv_def split: option.splits)
  obtain st es where "exec_post lost ?a es (apply_actor send_ok ?a (EvDisconnected sid) now)"
    by (rule apply_actor_ok [OF ok _ _ after ms, of now send_ok]) simp_all
  then have "exec_post lost a es (apply_actor send_ok ?a (EvDisconnected sid) now)"
    unfolding exec_post_def same .
  then show ?thesis by (simp add: cmd_post_continue Let_def)
qed

lemma handle_command_ok:
  assumes "actor_inv lost a"
  shows "cmd_post (lost + newly_lost a cmd now) a (handle_command send_ok a cmd fresh now)"
proof -
  have passed: "cmd_post lost a (continue_with (apply_actor send_ok a e now))"
    if "\<forall>sid c. e \<noteq> EvConnected sid c" "\<forall>sid. e \<noteq> EvDisconnected sid" "submitted e = []" for e
    by (rule apply_actor_inv [OF assms that, of now send_ok]) (rule cmd_post_continue)
  show ?thesis
  proof (cases cmd)
    case (CmdConnect capacity outbound response)
    show ?thesis
    proof (cases "agent_session (agent (a_state a))")
      case None
      let ?a = "\<lambda>st. a\<lparr>a_state := st, a_remote := Some (fresh, outbound)\<rparr>"
      obtain st es where run: "apply_event (a_state a) (EvConnected fresh capacity) now = Some (st, Ok es)"
        and inv: "exec_inv lost (?a st) es"
        by (rule accepted_connect [OF assms None])
      from execute_ok [OF inv, of send_ok now] show ?thesis
        using run None by (auto simp: CmdConnect exec_post_def cmd_post_def emit_def continue_with_def)
    next
      case (Some active)
      then have some: "agent_session (agent (a_state a)) \<noteq> None" by simp
      obtain st where run: "apply_event (a_state a) (EvConnected fresh capacity) now = Some (st, Err RemoteAlreadyConnected)"
        and inv: "actor_inv (lost + overdue a now) (a\<lparr>a_state := st\<rparr>)"
        by (rule rejected_connect [OF assms some])
      have lost: "newly_lost a cmd now = overdue a now" using Some by (simp add: CmdConnect)
      have handled: "handle_command send_ok a cmd fresh now =
          Some (False, a\<lparr>a_state := st\<rparr>, [OutConnect response (Err BrokerRemoteAlreadyConnected)])"
        using run by (simp add: CmdConnect)
      show ?thesis unfolding lost by (rule cmd_postI [OF handled]) (use inv in simp_all)
    qed
  next
    case (CmdShutdown response)
    show ?thesis
      unfolding CmdShutdown
      by (rule cmd_postI [of _ True "fst (stop_actor a)" "snd (stop_actor a) @ [OutShutdown response]"])
        (use stop_actor_waiting [of a] in \<open>simp_all add: case_prod_beta' Let_def\<close>)
  qed (use passed handle_disconnected_ok [OF assms] in \<open>auto\<close>)
qed

section \<open>Steps of the loop\<close>

text \<open>
  What a step relies on: generated request identifiers are new, fewer than \<open>2^64\<close> requests
  have been admitted, and deadlines do not exceed the range of the clocks.
\<close>

fun branch_admissible :: "broker_loop \<Rightarrow> select_branch \<Rightarrow> instant \<Rightarrow> bool" where
  "branch_admissible l (LocalRequest _ request_id t) now =
     (request_id \<notin> hm_keys (a_waiters (l_actor l)) \<and> next_sequence (a_state (l_actor l)) + 1 < 2 ^ 64
      \<and> times_fit (a_config (l_actor l)) now t)"
| "branch_admissible l _ now = True"

fun branch_request :: "select_branch \<Rightarrow> nat multiset" where
  "branch_request (LocalRequest request _ _) = {#pq_response request#}"
| "branch_request _ = {#}"

fun branch_lost :: "broker_loop \<Rightarrow> select_branch \<Rightarrow> instant \<Rightarrow> request_id multiset" where
  "branch_lost l (CommandReceived cmd _) now = newly_lost (l_actor l) cmd now"
| "branch_lost l _ now = {#}"

definition loop_inv :: "request_id multiset \<Rightarrow> broker_loop \<Rightarrow> bool" where
  "loop_inv lost l \<longleftrightarrow> (if l_running l then actor_inv lost (l_actor l) else a_waiters (l_actor l) = [])"

definition loop_post :: "request_id multiset \<Rightarrow> nat multiset \<Rightarrow> broker_loop \<Rightarrow> (broker_loop \<times> actor_output list) option \<Rightarrow> bool" where
  "loop_post lost new l res \<longleftrightarrow>
     (\<exists>l' outs. res = Some (l', outs) \<and> loop_inv lost l'
       \<and> new + waiting (l_actor l) = answered outs + waiting (l_actor l'))"

lemma loop_postI:
  "res = Some (l', outs) \<Longrightarrow> (l_running l' \<Longrightarrow> actor_inv lost (l_actor l')) \<Longrightarrow>
     (\<not> l_running l' \<Longrightarrow> a_waiters (l_actor l') = []) \<Longrightarrow>
     new + waiting (l_actor l) = answered outs + waiting (l_actor l') \<Longrightarrow> loop_post lost new l res"
  unfolding loop_post_def loop_inv_def by auto

lemma select_arm_ok:
  assumes "l_running l" and inv: "actor_inv lost (l_actor l)" and "branch_admissible l b now"
  shows "loop_post (lost + branch_lost l b now) (branch_request b) l (select_arm send_ok l b now)"
proof -
  have passed: "\<exists>a outs. apply_actor send_ok (l_actor l) e now = Some (a, outs) \<and> actor_inv lost a
      \<and> waiting (l_actor l) = answered outs + waiting a"
    if e: "e = EvTick \<or> (\<exists>i. e = EvCancelled i)" for e
  proof -
    obtain st es where "exec_post lost (l_actor l) es (apply_actor send_ok (l_actor l) e now)"
      by (rule apply_actor_inv [OF inv, of e now send_ok]) (use e in auto)
    then show ?thesis by (auto simp: exec_post_def)
  qed
  show ?thesis
  proof (cases b)
    case (LocalRequest request i t)
    then obtain a outs where
      "handle_local send_ok (l_actor l) request i now t = Some (a, outs, (i, pq_cancellation request))"
      "actor_inv lost a" "add_mset (pq_response request) (waiting (l_actor l)) = answered outs + waiting a"
      using handle_local_ok [OF inv, of i now t send_ok request] assms(3) by auto
    then show ?thesis using LocalRequest assms(1) by (intro loop_postI) auto
  next
    case (CommandReceived cmd fresh)
    from handle_command_ok [OF inv, of cmd now send_ok fresh] obtain stopped a outs where
      "handle_command send_ok (l_actor l) cmd fresh now = Some (stopped, a, outs)"
      "waiting (l_actor l) = answered outs + waiting a"
      "if stopped then a_waiters a = [] else actor_inv (lost + newly_lost (l_actor l) cmd now) a"
      unfolding cmd_post_def by blast
    then show ?thesis using CommandReceived by (intro loop_postI) auto
  next
    case CommandsClosed
    then show ?thesis
      using stop_actor_waiting [of "l_actor l"] by (intro loop_postI) (auto simp: case_prod_beta' Let_def)
  next
    case (CancellationFired i token)
    with passed [of "EvCancelled i"] assms(1) show ?thesis by (auto intro!: loop_postI)
  next
    case DeadlineReached
    with passed [of EvTick] assms(1) show ?thesis by (auto intro!: loop_postI)
  next
    case LocalClosed
    then show ?thesis
      using assms(1) inv by (intro loop_postI [of _ "l\<lparr>l_local_open := False\<rparr>" "[]"]) simp_all
  next
    case (CancellationAborted i token)
    then show ?thesis
      using assms(1) inv
      by (intro loop_postI [of _ "l\<lparr>l_cancellations := remove1 (i, token) (l_cancellations l)\<rparr>" "[]"]) simp_all
  qed
qed

lemma select_step_ok:
  assumes "l_running l" and "loop_inv lost l" and "branch_admissible l b now"
  shows "loop_post (lost + branch_lost l b now) (branch_request b) l (select_step send_ok l b now)"
proof -
  have "actor_inv lost (l_actor l)" using assms by (simp add: loop_inv_def)
  from select_arm_ok [OF assms(1) this assms(3), of send_ok] obtain l' outs where
    "select_arm send_ok l b now = Some (l', outs)" "loop_inv (lost + branch_lost l b now) l'"
    "branch_request b + waiting (l_actor l) = answered outs + waiting (l_actor l')"
    unfolding loop_post_def by blast
  then show ?thesis
    unfolding loop_post_def select_step_def
    by (intro exI [of _ "l'\<lparr>l_aborted := l_aborted l' @ aborts outs\<rparr>"] exI [of _ outs]) (simp add: loop_inv_def)
qed

text \<open>
  One turn of the loop. The label carries the branch taken, the clock reading, what the
  channels accepted during the turn and the messages sent.
\<close>

inductive loop_step ::
  "broker_loop \<Rightarrow> select_branch \<times> instant \<times> (nat \<Rightarrow> remote_command \<Rightarrow> bool) \<times> actor_output list \<Rightarrow> broker_loop \<Rightarrow> bool" where
  loop_step: "l_running l \<Longrightarrow> branch_enabled l b now \<Longrightarrow> branch_admissible l b now \<Longrightarrow>
    select_step send_ok l b now = Some (l', outs) \<Longrightarrow> loop_step l (b, now, send_ok, outs) l'"

inductive_cases loop_stepE: "loop_step l (b, now, send_ok, outs) l'"

text \<open>A turn is a request, a command, an event for the model, the end, or nothing for the actor.\<close>

lemma loop_step_cases:
  assumes "loop_step l (b, now, send_ok, outs) l'"
  obtains (request) rq i t f where "b = LocalRequest rq i t"
      and "handle_local send_ok (l_actor l) rq i now t = Some (l_actor l', outs, f)"
  | (command) cmd fresh stopped where "b = CommandReceived cmd fresh"
      and "handle_command send_ok (l_actor l) cmd fresh now = Some (stopped, l_actor l', outs)"
  | (applied) e where "e = EvTick \<and> b = DeadlineReached \<or> (\<exists>i token. e = EvCancelled i \<and> b = CancellationFired i token)"
      and "apply_actor send_ok (l_actor l) e now = Some (l_actor l', outs)"
  | (ended) "b = CommandsClosed" and "l_actor l' = fst (stop_actor (l_actor l))" and "outs = snd (stop_actor (l_actor l))"
  | (idle) "b = LocalClosed \<or> (\<exists>i token. b = CancellationAborted i token)" and "l_actor l' = l_actor l" and "outs = []"
proof -
  have "select_step send_ok l b now = Some (l', outs)" using assms by (rule loop_stepE)
  then obtain l1 where arm: "select_arm send_ok l b now = Some (l1, outs)" and l': "l_actor l' = l_actor l1"
    by (auto simp: select_step_def)
  show thesis
  proof (cases b)
    case (LocalRequest rq i t)
    with arm show thesis
      by (cases "handle_local send_ok (l_actor l) rq i now t") (auto simp: l' intro: request)
  next
    case (CommandReceived cmd fresh)
    with arm show thesis
      by (cases "handle_command send_ok (l_actor l) cmd fresh now") (auto simp: l' intro: command)
  next
    case (CancellationFired i token)
    with arm show thesis
      by (cases "apply_actor send_ok (l_actor l) (EvCancelled i) now") (auto simp: l' intro: applied [of "EvCancelled i"])
  next
    case DeadlineReached
    with arm show thesis
      by (cases "apply_actor send_ok (l_actor l) EvTick now") (auto simp: l' intro: applied [of EvTick])
  next
    case CommandsClosed
    with arm show thesis by (cases "stop_actor (l_actor l)") (auto simp: l' intro: ended)
  qed (use arm in \<open>auto simp: l' intro: idle\<close>)
qed

lemma handle_localE:
  assumes "handle_local send_ok a rq i now t = Some (a', outs, f)"
  obtains a1 e where "apply_actor send_ok a1 e now = Some (a', outs)" and "a_state a1 = a_state a" and "a_remote a1 = a_remote a"
  using assms by (auto simp: handle_local_def Let_def split: option.splits)

abbreviation some_loop_inv :: "broker_loop \<Rightarrow> bool" where
  "some_loop_inv l \<equiv> \<exists>lost. loop_inv lost l"

lemma loop_step_accounts:
  assumes "loop_step l (b, now, send_ok, outs) l'" and "loop_inv lost l"
  shows "loop_inv (lost + branch_lost l b now) l'
    \<and> branch_request b + waiting (l_actor l) = answered outs + waiting (l_actor l')"
proof -
  from assms(1) have "l_running l" "branch_admissible l b now" "select_step send_ok l b now = Some (l', outs)"
    by (auto elim: loop_stepE)
  with select_step_ok [OF _ assms(2), of b now send_ok] show ?thesis by (simp add: loop_post_def)
qed

interpretation loop_runs: kept_by_steps loop_step some_loop_inv
proof
  fix l x l' assume step: "loop_step l x l'" and "some_loop_inv l"
  then obtain lost where inv: "loop_inv lost l" by blast
  obtain b now send_ok outs where "x = (b, now, send_ok, outs)" by (cases x) auto
  with loop_step_accounts [OF _ inv] step show "some_loop_inv l'" by blast
qed

lemma run_broker_init_inv: "loop_inv {#} (run_broker_init config)"
  using broker_new_inv by (simp add: loop_inv_def exec_inv_def run_broker_init_def) (simp add: broker_new_def)

section \<open>Runs\<close>

type_synonym loop_label = "select_branch \<times> instant \<times> (nat \<Rightarrow> remote_command \<Rightarrow> bool) \<times> actor_output list"

fun run_requests :: "loop_label list \<Rightarrow> nat multiset" where
  "run_requests [] = {#}"
| "run_requests ((b, _) # ls) = branch_request b + run_requests ls"

definition run_outputs :: "loop_label list \<Rightarrow> actor_output list" where
  "run_outputs ls = concat (map (\<lambda>(_, _, _, outs). outs) ls)"

lemma run_outputs_simps [simp]:
  "run_outputs [] = []" "run_outputs ((b, now, send_ok, outs) # ls) = outs @ run_outputs ls"
  by (simp_all add: run_outputs_def)

lemma run_outputs_append [simp]: "run_outputs (xs @ ys) = run_outputs xs @ run_outputs ys"
  by (simp add: run_outputs_def)

lemma add_exchange: "b + w = p + t \<Longrightarrow> r + t = q + u \<Longrightarrow> b + (r + w) = p + (q + (u :: 'a :: comm_monoid_add))"
  by (metis add.assoc add.commute)

lemma run_accounts:
  assumes "runs loop_step l ls l'" and "loop_inv lost l"
  shows "run_requests ls + waiting (l_actor l) = answered (run_outputs ls) + waiting (l_actor l')
    \<and> (\<exists>more. loop_inv (lost + more) l')"
  using assms
proof (induction arbitrary: lost rule: runs.induct)
  case (runs_Nil l)
  have "loop_inv (lost + {#}) l" using runs_Nil by simp
  then have "\<exists>more. loop_inv (lost + more) l" by (rule exI)
  then show ?case by simp
next
  case (runs_Cons l x t ls u)
  obtain b now send_ok outs where x: "x = (b, now, send_ok, outs)" by (cases x) auto
  note step = loop_step_accounts [OF runs_Cons.hyps(1) [unfolded x] runs_Cons.prems]
  from runs_Cons.IH [OF conjunct1 [OF step]] obtain more where
    "run_requests ls + waiting (l_actor t) = answered (run_outputs ls) + waiting (l_actor u)"
    "loop_inv (lost + branch_lost l b now + more) u" by blast
  then show ?case using step add_exchange [of "branch_request b"] unfolding x by (auto simp: add.assoc)
qed

text \<open>A caller is lost only together with a connect that is answered with an error.\<close>

definition connect_refused :: "actor_output list \<Rightarrow> bool" where
  "connect_refused outs \<longleftrightarrow> (\<exists>response. OutConnect response (Err BrokerRemoteAlreadyConnected) \<in> set outs)"

lemma connect_refused_append [simp]: "connect_refused (xs @ ys) \<longleftrightarrow> connect_refused xs \<or> connect_refused ys"
  by (auto simp: connect_refused_def)

lemma branch_lost_refused:
  assumes "loop_step l (b, now, send_ok, outs) l'" and "loop_inv lost l" and "\<not> connect_refused outs"
  shows "branch_lost l b now = {#}"
proof (rule ccontr)
  assume "branch_lost l b now \<noteq> {#}"
  then obtain capacity outbound response fresh where b: "b = CommandReceived (CmdConnect capacity outbound response) fresh"
    and some: "agent_session (agent (a_state (l_actor l))) \<noteq> None"
  proof (cases b)
    case (CommandReceived cmd fresh)
    with \<open>branch_lost l b now \<noteq> {#}\<close> that show ?thesis by (cases cmd) (auto split: if_splits)
  qed simp_all
  from assms(1) have run: "l_running l" and step: "select_step send_ok l b now = Some (l', outs)"
    by (auto elim: loop_stepE)
  have inv: "actor_inv lost (l_actor l)" using assms(2) run by (simp add: loop_inv_def)
  obtain st where "apply_event (a_state (l_actor l)) (EvConnected fresh capacity) now = Some (st, Err RemoteAlreadyConnected)"
    by (rule rejected_connect [OF inv some])
  with step have "outs = [OutConnect response (Err BrokerRemoteAlreadyConnected)]"
    by (auto simp: b select_step_def)
  with assms(3) show False by (simp add: connect_refused_def)
qed

lemma run_not_lost:
  assumes "runs loop_step l ls l'" and "loop_inv {#} l" and "\<not> connect_refused (run_outputs ls)"
  shows "loop_inv {#} l'"
  using assms
proof (induction rule: runs.induct)
  case (runs_Cons l x t ls u)
  obtain b now send_ok outs where x: "x = (b, now, send_ok, outs)" by (cases x) auto
  have "branch_lost l b now = {#}"
    using branch_lost_refused [OF runs_Cons.hyps(1) [unfolded x]] runs_Cons.prems by (auto simp: x)
  with runs_Cons.IH loop_step_accounts [OF runs_Cons.hyps(1) [unfolded x]] runs_Cons.prems show ?case
    by (auto simp: x)
qed

section \<open>An example run\<close>

text \<open>
  A request with identifier 1 and reply channel 40 is admitted at time 5 with a timeout of
  100, then session 7 connects on channel 60 and receives it.
\<close>

definition ex_config :: broker_config where
  "ex_config = \<lparr>request_timeout = 100, bc_max_pending_requests = 4\<rparr>"

definition ex_packet_request :: packet_request where
  "ex_packet_request = \<lparr>pq_packet = [0, 0, 0, 1, 13], pq_context = None, pq_response = 40, pq_cancellation = 50\<rparr>"

definition ex_pending :: "pending_state \<Rightarrow> nat \<Rightarrow> pending_request" where
  "ex_pending st attempt =
     \<lparr>pr_packet = [0, 0, 0, 1, 13], pr_context = None, pr_deadline = 105, pr_requested_at = 3,
      pr_deadline_timestamp = 3, pr_sequence = 0, pr_attempt = attempt, pr_state = st\<rparr>"

definition ex_loop :: "remote_agent_state \<Rightarrow> (session_id \<times> nat) option \<Rightarrow> pending_request \<Rightarrow> request_id list \<Rightarrow> bool \<Rightarrow> broker_loop" where
  "ex_loop ag remote p q announced =
     \<lparr>l_actor =
        \<lparr>a_config = ex_config,
         a_state = \<lparr>agent = ag, pending = [(1, p)], queue = q, max_pending_requests = 4,
                    next_sequence = 1, wake_announced = announced\<rparr>,
         a_waiters = [(1, \<lparr>w_response = 40, w_cancellation = 1\<rparr>)], a_remote = remote\<rparr>,
      l_local_open = True, l_cancellations = [(1, 50)], l_aborted = [], l_running = True\<rparr>"

abbreviation ex_waiting :: broker_loop where
  "ex_waiting \<equiv> ex_loop RemoteDisconnected None (ex_pending Queued 0) [1] True"

abbreviation ex_serving :: broker_loop where
  "ex_serving \<equiv> ex_loop (RemoteLocked 7 2) (Some (7, 60)) (ex_pending (InFlight 7 1) 1) [] False"

definition ex_labels :: "loop_label list" where
  "ex_labels =
     [(LocalRequest ex_packet_request 1 3000000, 5, (\<lambda>_ _. True), [OutWake \<lparr>reasons = []\<rparr>]),
      (CommandReceived (CmdConnect 2 60 70) 7, 6, (\<lambda>_ _. True),
        [OutConnect 70 (Ok 7), OutRemote 60 (RcRequest 1 1 3 3 [0, 0, 0, 1, 13] None)])]"

lemmas ex_loop_defs = ex_loop_def ex_config_def ex_packet_request_def ex_pending_def ex_labels_def

lemmas loop_unfold_with = apply_unfold run_broker_init_def broker_new_def select_step_def handle_local_def apply_actor_def
  submit_request_def hm_insert_def unix_milliseconds_def emit_def try_send_def continue_with_def aborts_def
  wrap_u64_def wrap_u32_def

lemmas loop_unfold = loop_unfold_with instant_add_def system_time_add_def times_fit_def

lemma ex_step_request:
  "select_step (\<lambda>_ _. True) (run_broker_init ex_config) (LocalRequest ex_packet_request 1 3000000) 5
     = Some (ex_waiting, [OutWake \<lparr>reasons = []\<rparr>])"
  by (simp add: loop_unfold ex_loop_defs)

lemma ex_step_connect:
  "select_step (\<lambda>_ _. True) ex_waiting (CommandReceived (CmdConnect 2 60 70) 7) 6
     = Some (ex_serving, [OutConnect 70 (Ok 7), OutRemote 60 (RcRequest 1 1 3 3 [0, 0, 0, 1, 13] None)])"
  by (simp add: loop_unfold ex_loop_defs)

lemma ex_run: "runs loop_step (run_broker_init ex_config) ex_labels ex_serving"
  unfolding ex_labels_def
  by (intro runs_Cons runs_Nil loop_step; (rule ex_step_request ex_step_connect)?)
    (simp_all add: ex_loop_defs run_broker_init_def broker_new_def times_fit_def instant_add_def system_time_add_def)

end
