(* ===== verification/Broker_Actor_Props.thy ===== *)
theory Broker_Actor_Props
  imports Broker_Actor
begin

text \<open>
  The properties of the broker actor: what holds in every state that \<open>run_broker\<close> reaches,
  and what its callers and the connected client observe.
\<close>

lemma reachable_actor_inv:
  assumes "runs loop_step (run_broker_init config) ls l" and "l_running l"
  obtains lost where "actor_inv lost (l_actor l)"
  using run_accounts [OF assms(1) run_broker_init_inv] assms(2) that by (auto simp: loop_inv_def)

lemma actor_waiter:
  assumes "actor_inv lost a" and "hm_get (pending (a_state a)) i = Some p"
  obtains w where "hm_get (a_waiters a) i = Some w"
proof -
  have "i \<in> hm_keys (pending (a_state a))" using assms(2) by (metis hm_get_None_iff option.distinct(1))
  then have "i \<in> hm_keys (a_waiters a)" using actor_pending_waits [OF assms(1)] by blast
  then show ?thesis using that by (cases "hm_get (a_waiters a) i") (auto simp: hm_get_None_iff)
qed

text \<open>The configuration stays the one the broker was started with.\<close>

interpretation config_kept: execution "\<lambda>a _ _. a_config a = config" now for config now
  by unfold_locales simp_all

lemma execute_config: "execute send_ok a effects now = Some (a', outs) \<Longrightarrow> a_config a' = a_config a"
  by (rule config_kept.execute_from) simp_all

lemma apply_actor_config: "apply_actor send_ok a e now = Some (a', outs) \<Longrightarrow> a_config a' = a_config a"
  by (auto simp: apply_actor_def split: option.splits sum.splits dest!: execute_config)

lemma handle_local_config: "handle_local send_ok a rq i now t = Some (a', outs, f) \<Longrightarrow> a_config a' = a_config a"
  by (auto simp: handle_local_def Let_def split: option.splits dest!: apply_actor_config)

lemma handle_command_config: "handle_command send_ok a cmd fresh now = Some (stopped, a', outs) \<Longrightarrow> a_config a' = a_config a"
  by (cases cmd)
    (auto simp: continue_with_def emit_def stop_actor_def Let_def split: option.splits sum.splits model_error.splits prod.splits if_splits
      dest!: apply_actor_config execute_config)

interpretation broker_config_kept: kept_by_steps loop_step "\<lambda>l. a_config (l_actor l) = config" for config
proof
  fix l x l'
  assume kept: "a_config (l_actor l) = config" and step: "loop_step l x l'"
  obtain b now send_ok outs where x: "x = (b, now, send_ok, outs)" by (cases x)
  from step [unfolded x] show "a_config (l_actor l') = config"
    by (cases rule: loop_step_cases)
      (use kept in \<open>auto simp: stop_actor_def dest!: handle_local_config handle_command_config apply_actor_config\<close>)
qed

text \<open>Which turns panic: those that receive a request whose deadline a clock cannot represent.\<close>

fun branch_fresh :: "broker_loop \<Rightarrow> select_branch \<Rightarrow> bool" where
  "branch_fresh l (LocalRequest _ i _) = (i \<notin> hm_keys (a_waiters (l_actor l)) \<and> next_sequence (a_state (l_actor l)) + 1 < 2 ^ 64)"
| "branch_fresh l _ = True"

fun deadline_overflows :: "broker_config \<Rightarrow> select_branch \<Rightarrow> instant \<Rightarrow> bool" where
  "deadline_overflows config (LocalRequest _ _ t) now =
     (instant_add now (request_timeout config) = None \<or> system_time_add t (request_timeout config) = None)"
| "deadline_overflows config _ now = False"

lemma select_step_panics:
  assumes "l_running l" and "actor_inv lost (l_actor l)" and "branch_fresh l b"
  shows "select_step send_ok l b now = None \<longleftrightarrow> deadline_overflows (a_config (l_actor l)) b now"
proof (cases "deadline_overflows (a_config (l_actor l)) b now")
  case True
  then obtain rq i t where "b = LocalRequest rq i t" by (cases b) auto
  with True show ?thesis by (auto simp: select_step_def handle_local_def Let_def split: option.splits)
next
  case False
  with assms(3) have "branch_admissible l b now" by (cases b) (auto simp: times_fit_def)
  from select_step_ok [OF assms(1) _ this, of lost send_ok] assms(1,2) False show ?thesis
    by (auto simp: loop_post_def loop_inv_def)
qed

text \<open>
  C9: a turn of the broker loop panics only on a deadline. In each state that a run reaches
  while the actor is running, whichever branch \<open>select!\<close> takes, whatever the clocks show and
  whichever sends fail: if identifiers of requests are fresh and fewer than \<open>2^64\<close> requests have
  been admitted, the turn panics if and only if it receives a request and the time of arrival
  plus the configured timeout is beyond the range of one of the clocks. Moreover the outbound
  channel belongs to exactly the session that the model believes connected; and every pending
  request has a waiting caller, exactly the pending requests as long as no connect was refused.
\<close>

theorem broker_loop_safe:
  assumes "runs loop_step (run_broker_init config) ls l" and "l_running l"
  shows "(\<forall>b now send_ok. branch_fresh l b \<longrightarrow>
        (select_step send_ok l b now = None \<longleftrightarrow> deadline_overflows config b now))
    \<and> map_option fst (a_remote (l_actor l)) = agent_session (agent (a_state (l_actor l)))
    \<and> hm_keys (pending (a_state (l_actor l))) \<subseteq> hm_keys (a_waiters (l_actor l))
    \<and> (\<not> connect_refused (run_outputs ls) \<longrightarrow>
         mset (map fst (a_waiters (l_actor l))) = mset (map fst (pending (a_state (l_actor l)))))"
proof -
  obtain lost where inv: "actor_inv lost (l_actor l)" using reachable_actor_inv [OF assms] .
  have "mset (map fst (a_waiters (l_actor l))) = mset (map fst (pending (a_state (l_actor l))))"
    if "\<not> connect_refused (run_outputs ls)"
    using run_not_lost [OF assms(1) run_broker_init_inv that] assms(2) by (simp add: loop_inv_def exec_inv_def)
  moreover have "map_option fst (a_remote (l_actor l)) = agent_session (agent (a_state (l_actor l)))"
    using inv by (simp add: exec_inv_def)
  moreover have "a_config (l_actor l) = config"
    by (rule broker_config_kept.runs_keep [OF assms(1)]) (simp add: run_broker_init_def)
  ultimately show ?thesis using actor_pending_waits [OF inv] select_step_panics [OF assms(2) inv] by blast
qed

text \<open>A turn that survives although every send fails, and one that does not survive its deadline.\<close>

theorem broker_loop_safe_witness:
  "runs loop_step (run_broker_init ex_config) ex_labels ex_serving
    \<and> select_step (\<lambda>_ _. False) ex_serving (CommandReceived (CmdReady 7) 9) 8 \<noteq> None
    \<and> select_step (\<lambda>_ _. True) ex_serving (LocalRequest ex_packet_request 2 0) 8 \<noteq> None
    \<and> select_step (\<lambda>_ _. True) ex_serving (LocalRequest ex_packet_request 2 0) (2 ^ 63 * 1000000000) = None"
proof -
  have "l_running ex_serving" by (simp add: ex_loop_def)
  note safe = conjunct1 [OF broker_loop_safe [OF ex_run this], rule_format]
  have fresh: "branch_fresh ex_serving (LocalRequest ex_packet_request 2 0)" "branch_fresh ex_serving (CommandReceived (CmdReady 7) 9)"
    by (simp_all add: ex_loop_defs)
  have fits: "\<not> deadline_overflows ex_config (LocalRequest ex_packet_request 2 0) 8"
    and over: "deadline_overflows ex_config (LocalRequest ex_packet_request 2 0) (2 ^ 63 * 1000000000)"
    by (simp_all add: ex_loop_defs instant_add_def system_time_add_def)
  from safe [OF fresh(1)] safe [OF fresh(2)] fits over ex_run show ?thesis by auto
qed

text \<open>
  C3: every caller is answered exactly once. Along a run from the start, the reply channels
  of the requests received are, as a multiset, the channels that were answered and those of
  the callers still waiting; once the actor has stopped nobody is left waiting.
\<close>

theorem broker_callers_answered_once:
  assumes "runs loop_step (run_broker_init config) ls l"
  shows "run_requests ls = answered (run_outputs ls) + waiting (l_actor l)
    \<and> (\<not> l_running l \<longrightarrow> run_requests ls = answered (run_outputs ls))"
proof -
  have "waiting (l_actor (run_broker_init config)) = {#}" by (simp add: run_broker_init_def)
  then show ?thesis
    using run_accounts [OF assms run_broker_init_inv] by (auto simp: loop_inv_def)
qed

theorem broker_callers_answered_once_witness:
  "runs loop_step (run_broker_init ex_config) ex_labels ex_serving \<and> run_requests ex_labels = {#40#}
    \<and> {#40#} = answered (run_outputs ex_labels) + waiting (l_actor ex_serving)"
proof -
  have "run_requests ex_labels = {#40#}" by (simp add: ex_loop_defs)
  with broker_callers_answered_once [OF ex_run] ex_run show ?thesis by simp
qed

lemma deadline_answers:
  assumes inv: "actor_inv lost (l_actor l)"
    and "hm_get (pending (a_state (l_actor l))) i = Some p" and "pr_deadline p \<le> now"
  shows "\<exists>w l' outs. hm_get (a_waiters (l_actor l)) i = Some w \<and> branch_enabled l DeadlineReached now
    \<and> select_step send_ok l DeadlineReached now = Some (l', outs)
    \<and> (w_response w, Err TimedOut) \<in> set (replies outs)"
proof -
  let ?a = "l_actor l" and ?s = "a_state (l_actor l)"
  obtain w where w: "hm_get (a_waiters ?a) i = Some w" using actor_waiter [OF inv assms(2)] .
  have binv: "broker_inv ?s" using inv by (simp add: exec_inv_def)
  then obtain I Q where r: "rep ?s I Q" by (rule inv_repE)
  have ip: "(i, p) \<in> set (pending ?s)" using assms(2) hm_get_Some_iff [OF rep_hm_ok [OF r]] by blast
  obtain st es where run: "apply_event ?s EvTick now = Some (st, Ok es)"
    and post: "exec_post lost ?a es (apply_actor send_ok ?a EvTick now)"
    by (rule apply_actor_inv [OF inv, of EvTick now send_ok]) simp_all
  have "Complete i (Err TimedOut) \<in> set es"
  proof (rule apply_OkE [OF binv _ run])
    fix I Q s1 s2 hs assume r: "rep ?s I Q"
      and es: "es = concat (map timeout_effects (filter (due now) (I @ Q))) @ hs @ snd (reconcile s2)"
    have "(i, p) \<in> set (filter (due now) (I @ Q))" using ip assms(3) rep_set [OF r] by (auto simp: due_def)
    moreover have "Complete i (Err TimedOut) \<in> set (timeout_effects (i, p))" by (simp add: timeout_effects_def)
    ultimately show ?thesis unfolding es set_append set_concat set_map by blast
  qed simp
  moreover have "branch_enabled l DeadlineReached now"
  proof (cases "next_deadline ?s")
    case None
    then show ?thesis using ip by (simp add: next_deadline_def)
  next
    case (Some d)
    then have "d \<le> pr_deadline p" using min_deadline_Some [of _ d] ip by (force simp: next_deadline_def)
    then show ?thesis using Some assms(3) by simp
  qed
  ultimately show ?thesis using post w by (fastforce simp: exec_post_def select_step_def)
qed

text \<open>
  C20: no caller waits past its deadline once the timer fires. If a pending request is due,
  the timer branch is enabled, and taking it sends \<open>TimedOut\<close> on that caller's channel.
\<close>

theorem broker_deadline_answers_caller:
  assumes "runs loop_step (run_broker_init config) ls l" and "l_running l"
    and "hm_get (pending (a_state (l_actor l))) i = Some p" and "pr_deadline p \<le> now"
  shows "\<exists>w l' outs. hm_get (a_waiters (l_actor l)) i = Some w \<and> branch_enabled l DeadlineReached now
    \<and> select_step send_ok l DeadlineReached now = Some (l', outs)
    \<and> (w_response w, Err TimedOut) \<in> set (replies outs)"
proof -
  obtain lost where "actor_inv lost (l_actor l)" using reachable_actor_inv [OF assms(1,2)] .
  from deadline_answers [OF this assms(3,4)] show ?thesis .
qed

theorem broker_deadline_answers_caller_witness:
  "\<exists>l' outs. select_step (\<lambda>_ _. True) ex_serving DeadlineReached 105 = Some (l', outs)
    \<and> (40, Err TimedOut) \<in> set (replies outs)"
proof -
  have "l_running ex_serving" and "hm_get (pending (a_state (l_actor ex_serving))) 1 = Some (ex_pending (InFlight 7 1) 1)"
    and "pr_deadline (ex_pending (InFlight 7 1) 1) \<le> 105"
    by (simp_all add: ex_loop_defs hm_get_def)
  from broker_deadline_answers_caller [OF ex_run this, of "\<lambda>_ _. True"] show ?thesis
    by (auto simp: ex_loop_defs hm_get_def)
qed

text \<open>
  C21: the answer of the remote client reaches the caller. When the client answers the
  current attempt of a request that is not yet due, the caller's channel receives exactly
  the packet of the answer.
\<close>

theorem broker_response_reaches_caller:
  assumes "runs loop_step (run_broker_init config) ls l" and "l_running l"
    and "hm_get (pending (a_state (l_actor l))) i = Some p" and "pr_state p = InFlight sid k" and "now < pr_deadline p"
  shows "\<exists>w l' outs. hm_get (a_waiters (l_actor l)) i = Some w
    \<and> select_step send_ok l (CommandReceived (CmdResponse sid i k packet) fresh) now = Some (l', outs)
    \<and> (w_response w, Ok packet) \<in> set (replies outs)"
proof -
  let ?a = "l_actor l" and ?s = "a_state (l_actor l)" and ?e = "EvResponse sid i k packet"
  obtain lost where inv: "actor_inv lost ?a" using reachable_actor_inv [OF assms(1,2)] .
  obtain w where w: "hm_get (a_waiters ?a) i = Some w" using actor_waiter [OF inv assms(3)] .
  have binv: "broker_inv ?s" using inv by (simp add: exec_inv_def)
  obtain st es where run: "apply_event ?s ?e now = Some (st, Ok es)"
    and post: "exec_post lost ?a es (apply_actor send_ok ?a ?e now)"
    by (rule apply_actor_inv [OF inv, of ?e now send_ok]) simp_all
  have "Complete i (Ok packet) \<in> set es"
  proof (rule apply_OkE [OF binv _ run])
    fix I Q s1 s2 hs assume r: "rep ?s I Q"
      and s1: "s1 = ?s\<lparr>queue := map fst (filter (alive now) Q), pending := filter (alive now) (pending ?s)\<rparr>"
      and h: "handle_event s1 ?e = Some (s2, Ok hs)"
      and es: "es = concat (map timeout_effects (filter (due now) (I @ Q))) @ hs @ snd (reconcile s2)"
    have "(i, p) \<in> set (pending ?s)" using assms(3) hm_get_Some_iff [OF rep_hm_ok [OF r]] by blast
    then have "hm_get (pending s1) i = Some p"
      using assms(5) rep_hm_ok [OF r] by (simp add: s1 hm_get_Some_iff alive_def)
    with h assms(4) show ?thesis by (auto simp: es remote_response_event_def)
  qed simp
  then show ?thesis using post w by (fastforce simp: exec_post_def select_step_def continue_with_def)
qed

theorem broker_response_reaches_caller_witness:
  "\<exists>l' outs. select_step (\<lambda>_ _. True) ex_serving (CommandReceived (CmdResponse 7 1 1 [9]) 8) 20 = Some (l', outs)
    \<and> (40, Ok [9]) \<in> set (replies outs)"
proof -
  have "l_running ex_serving" and "hm_get (pending (a_state (l_actor ex_serving))) 1 = Some (ex_pending (InFlight 7 1) 1)"
    and "pr_state (ex_pending (InFlight 7 1) 1) = InFlight 7 1" and "20 < pr_deadline (ex_pending (InFlight 7 1) 1)"
    by (simp_all add: ex_loop_defs hm_get_def)
  from broker_response_reaches_caller [OF ex_run this, of "\<lambda>_ _. True" "[9]" 8] show ?thesis
    by (auto simp: ex_loop_defs hm_get_def)
qed

text \<open>
  C22: a refused connect can strand a caller. If a second client connects while the deadline
  of a pending request has passed but its timer has not run, the model forgets the request
  while its caller keeps waiting, and no later turn of the loop, short of shutdown, answers
  it or forgets it: not the timer, not a response, not the caller's own cancellation.
\<close>

theorem broker_refused_connect_strands_caller:
  assumes "runs loop_step (run_broker_init config) ls l" and "l_running l"
    and "a_remote (l_actor l) \<noteq> None"
    and "hm_get (pending (a_state (l_actor l))) i = Some p" and "pr_deadline p \<le> now"
  shows "\<exists>l1. select_step send_ok l (CommandReceived (CmdConnect capacity outbound response) fresh) now
        = Some (l1, [OutConnect response (Err BrokerRemoteAlreadyConnected)])
    \<and> l_running l1 \<and> i \<notin> hm_keys (pending (a_state (l_actor l1)))
    \<and> (\<forall>more l2. runs loop_step l1 more l2 \<and> l_running l2 \<longrightarrow> i \<in> hm_keys (a_waiters (l_actor l2)))"
proof -
  let ?a = "l_actor l" and ?s = "a_state (l_actor l)"
  obtain lost where inv: "actor_inv lost ?a" using reachable_actor_inv [OF assms(1,2)] .
  then have "agent_session (agent ?s) = map_option fst (a_remote ?a)" by (simp add: exec_inv_def)
  then have some: "agent_session (agent ?s) \<noteq> None" using assms(3) by simp
  obtain st where run: "apply_event ?s (EvConnected fresh capacity) now = Some (st, Err RemoteAlreadyConnected)"
    and inv1: "actor_inv (lost + overdue ?a now) (?a\<lparr>a_state := st\<rparr>)"
    and pend: "pending st = filter (\<lambda>(_, p). now < pr_deadline p) (pending ?s)"
    by (rule rejected_connect [OF inv some])
  let ?l1 = "l\<lparr>l_actor := ?a\<lparr>a_state := st\<rparr>\<rparr>"
  have step: "select_step send_ok l (CommandReceived (CmdConnect capacity outbound response) fresh) now
      = Some (?l1, [OutConnect response (Err BrokerRemoteAlreadyConnected)])"
    using run assms(2) by (cases l) (simp add: select_step_def aborts_def List.map_filter_def)
  have ok: "hm_ok (pending ?s)" using inv by (auto simp: exec_inv_def elim!: inv_repE dest: rep_hm_ok)
  have ip: "(i, p) \<in> set (pending ?s)" using assms(4) hm_get_Some_iff [OF ok] by blast
  then have gone: "i \<notin> hm_keys (pending st)"
    using ok assms(5) by (auto simp: pend hm_ok_def dest: eq_key_imp_eq_value)
  have "i \<in># overdue ?a now" using ip assms(5) by (force simp: overdue_def)
  moreover have "i \<in> hm_keys (a_waiters (l_actor l2))"
    if r: "runs loop_step ?l1 more l2" "l_running l2" and i: "i \<in># overdue ?a now" for more l2
  proof -
    have "loop_inv (lost + overdue ?a now) ?l1" using inv1 assms(2) by (simp add: loop_inv_def)
    from run_accounts [OF r(1) this] r(2) obtain extra where
      "mset (map fst (a_waiters (l_actor l2))) = mset (map fst (pending (a_state (l_actor l2)))) + (lost + overdue ?a now + extra)"
      by (auto simp: loop_inv_def exec_inv_def)
    with i have "i \<in># mset (map fst (a_waiters (l_actor l2)))" by (simp only: set_mset_union) simp
    then show ?thesis by auto
  qed
  ultimately show ?thesis using step gone assms(2) by auto
qed

theorem broker_refused_connect_strands_caller_witness:
  "\<exists>l1. select_step (\<lambda>_ _. True) ex_serving (CommandReceived (CmdConnect 1 61 71) 8) 105
        = Some (l1, [OutConnect 71 (Err BrokerRemoteAlreadyConnected)])
    \<and> 1 \<notin> hm_keys (pending (a_state (l_actor l1))) \<and> 1 \<in> hm_keys (a_waiters (l_actor l1))"
proof -
  have "l_running ex_serving" and "a_remote (l_actor ex_serving) \<noteq> None"
    and "hm_get (pending (a_state (l_actor ex_serving))) 1 = Some (ex_pending (InFlight 7 1) 1)"
    and "pr_deadline (ex_pending (InFlight 7 1) 1) \<le> 105"
    by (simp_all add: ex_loop_defs hm_get_def)
  from broker_refused_connect_strands_caller [OF ex_run this, of "\<lambda>_ _. True" 1 61 71 8]
  obtain l1 where l1: "select_step (\<lambda>_ _. True) ex_serving (CommandReceived (CmdConnect 1 61 71) 8) 105
        = Some (l1, [OutConnect 71 (Err BrokerRemoteAlreadyConnected)])"
    "l_running l1" "1 \<notin> hm_keys (pending (a_state (l_actor l1)))"
    and stays: "\<forall>more l2. runs loop_step l1 more l2 \<and> l_running l2 \<longrightarrow> 1 \<in> hm_keys (a_waiters (l_actor l2))"
    by (elim exE conjE) (rule that)
  from stays [rule_format, of "[]" l1] l1 show ?thesis by (intro exI [of _ l1]) simp
qed

section \<open>The loop comes to rest\<close>

text \<open>The turns that no new request and no message of a session causes.\<close>

fun internal :: "select_branch \<Rightarrow> bool" where
  "internal (LocalRequest _ _ _) = False"
| "internal (CommandReceived _ _) = False"
| "internal _ = True"

definition loop_work :: "broker_loop \<Rightarrow> nat" where
  "loop_work l = length (l_cancellations l) + length (a_waiters (l_actor l)) + of_bool (l_local_open l) + of_bool (l_running l)"

lemma remove1_shorter: "x \<in> set xs \<Longrightarrow> length (remove1 x xs) < length xs"
  by (induction xs) auto

lemma due_exists:
  assumes "actor_inv lost a" and "next_deadline (a_state a) = Some d"
  obtains i p where "hm_get (pending (a_state a)) i = Some p" and "pr_deadline p = d"
proof -
  obtain i p where ip: "(i, p) \<in> set (pending (a_state a))" "pr_deadline p = d"
    using min_deadline_Some [OF assms(2) [unfolded next_deadline_def]] by auto
  have "broker_inv (a_state a)" using assms(1) by (simp add: exec_inv_def)
  then obtain I Q where "rep (a_state a) I Q" by (rule inv_repE)
  with ip show thesis using hm_get_Some_iff [OF rep_hm_ok] that by blast
qed

lemma internal_step_works:
  assumes step: "loop_step l (b, now, send_ok, outs) l'" and inv: "loop_inv lost l" and b: "internal b"
  shows "loop_work l' < loop_work l"
proof -
  from step have run: "l_running l" and en: "branch_enabled l b now" and sel: "select_step send_ok l b now = Some (l', outs)"
    by (auto elim: loop_stepE)
  have ainv: "actor_inv lost (l_actor l)" using inv run by (simp add: loop_inv_def)
  have "branch_request b = {#}" using b by (cases b) simp_all
  then have "waiting (l_actor l) = answered outs + waiting (l_actor l')" using loop_step_accounts [OF step inv] by simp
  then have "size (waiting (l_actor l)) = size (answered outs) + size (waiting (l_actor l'))" by simp
  then have waiters: "length (a_waiters (l_actor l)) = length (replies outs) + length (a_waiters (l_actor l'))" by simp
  from sel obtain l1 where arm: "select_arm send_ok l b now = Some (l1, outs)" and l': "l' = l1\<lparr>l_aborted := l_aborted l1 @ aborts outs\<rparr>"
    by (auto simp: select_step_def)
  show ?thesis
  proof (cases b)
    case (CancellationFired i token)
    with en have "(i, token) \<in> set (l_cancellations l)" by simp
    then have "length (remove1 (i, token) (l_cancellations l)) < length (l_cancellations l)"
      by (rule remove1_shorter)
    with arm waiters show ?thesis unfolding CancellationFired loop_work_def l' by (auto split: option.splits)
  next
    case (CancellationAborted i token)
    with en have "(i, token) \<in> set (l_cancellations l)" by simp
    then have "length (remove1 (i, token) (l_cancellations l)) < length (l_cancellations l)"
      by (rule remove1_shorter)
    with arm waiters show ?thesis unfolding CancellationAborted loop_work_def l' by auto
  next
    case DeadlineReached
    with en obtain d where d: "next_deadline (a_state (l_actor l)) = Some d" "d \<le> now" by (auto split: option.splits)
    from due_exists [OF ainv d(1)] obtain i p where ip: "hm_get (pending (a_state (l_actor l))) i = Some p" "pr_deadline p \<le> now"
      using d(2) by metis
    from deadline_answers [OF ainv ip, of send_ok] sel have "replies outs \<noteq> []" unfolding DeadlineReached by auto
    with arm waiters show ?thesis unfolding DeadlineReached loop_work_def l' by (auto split: option.splits)
  next
    case LocalClosed
    with arm en waiters show ?thesis by (auto simp: loop_work_def l')
  next
    case CommandsClosed
    with arm run waiters show ?thesis by (auto simp: loop_work_def l' Let_def split: prod.splits)
  qed (use b in simp_all)
qed

text \<open>
  C19: the broker does not spin. From any state that a run reaches, if no new request and no
  message of a session arrives, the loop takes only finitely many turns, at most one for each
  cancellation it watches and each caller that waits, and two more: the timer never fires
  without answering somebody, and a cancellation is handled once.
\<close>

theorem broker_comes_to_rest:
  assumes "runs loop_step (run_broker_init config) ls l" and "runs loop_step l turns l'"
    and "\<forall>turn \<in> set turns. internal (fst turn)"
  shows "length turns \<le> length (l_cancellations l) + length (a_waiters (l_actor l)) + 2"
proof -
  have "length turns + loop_work l' \<le> loop_work l" if "some_loop_inv l"
    using assms(2,3) that
  proof (induction rule: runs.induct)
    case (runs_Cons l x t turns u)
    obtain b now send_ok outs where x: "x = (b, now, send_ok, outs)" by (cases x) auto
    obtain lost where "loop_inv lost l" using runs_Cons.prems(2) ..
    from internal_step_works [OF runs_Cons.hyps(1) [unfolded x] this] runs_Cons.prems(1) have "loop_work t < loop_work l"
      by (simp add: x)
    with runs_Cons.IH loop_runs.step_keeps [OF runs_Cons.hyps(1) runs_Cons.prems(2)] runs_Cons.prems(1) show ?case by simp
  qed simp
  moreover have "some_loop_inv l"
    using loop_runs.runs_keep [OF assms(1)] run_broker_init_inv by blast
  ultimately have "length turns \<le> loop_work l" by force
  also have "loop_work l \<le> length (l_cancellations l) + length (a_waiters (l_actor l)) + 2"
    by (simp add: loop_work_def of_bool_def)
  finally show ?thesis .
qed

theorem broker_comes_to_rest_witness:
  "\<exists>l'. runs loop_step ex_serving [(LocalClosed, 7, (\<lambda>_ _. True), [])] l'
    \<and> length [(LocalClosed, 7 :: nat, (\<lambda>_ _. True) :: nat \<Rightarrow> remote_command \<Rightarrow> bool, [] :: actor_output list)]
        \<le> length (l_cancellations ex_serving) + length (a_waiters (l_actor ex_serving)) + 2"
proof -
  obtain l' where "select_step (\<lambda>_ _. True) ex_serving LocalClosed 7 = Some (l', [])" by (simp add: select_step_def aborts_def List.map_filter_def)
  then have "loop_step ex_serving (LocalClosed, 7, (\<lambda>_ _. True), []) l'" by (intro loop_step) (simp_all add: ex_loop_def)
  then have "runs loop_step ex_serving [(LocalClosed, 7, (\<lambda>_ _. True), [])] l'" by (rule runs_Cons) (rule runs_Nil)
  with broker_comes_to_rest [OF ex_run this] show ?thesis by auto
qed

end
