(* ===== verification/Broker_Delivery.thy ===== *)
theory Broker_Delivery
  imports Broker_Actor_Props
begin

text \<open>
  What the connected client has received: a request that the model counts as in flight has
  been handed to the channel of the current session, with the current attempt.
\<close>

section \<open>Where requests in flight come from\<close>

definition request_message :: "request_id \<Rightarrow> nat \<Rightarrow> pending_request \<Rightarrow> remote_command" where
  "request_message i k p = RcRequest i k (pr_requested_at p) (pr_deadline_timestamp p) (pr_packet p) (pr_context p)"

abbreviation flight_effect :: "session_id \<Rightarrow> request_id \<Rightarrow> nat \<Rightarrow> pending_request \<Rightarrow> effect" where
  "flight_effect sid i k p \<equiv>
     Dispatch sid i k (pr_requested_at p) (pr_deadline_timestamp p) (pr_packet p) (pr_context p)"

lemma in_flight_session:
  assumes "broker_inv s" and "(i, p) \<in> set (pending s)" and "pr_state p = InFlight sid k"
  shows "agent_session (agent s) = Some sid"
proof -
  from assms(1) obtain I Q where r: "rep s I Q" by (rule inv_repE)
  have "(i, p) \<notin> set Q" using r assms(3) by (auto simp: rep_def is_queued_def)
  then have "flying (agent_session (agent s)) (i, p)" using r rep_set [OF r] assms(2) by (auto simp: rep_def)
  then show ?thesis using assms(3) by (cases "agent_session (agent s)") auto
qed

lemma reconcile_in_flight:
  assumes "broker_inv s" and "(i, p) \<in> set (pending (fst (reconcile s)))" and "pr_state p = InFlight sid k"
  shows "(i, p) \<in> set (pending s) \<or> flight_effect sid i k p \<in> set (snd (reconcile s))"
proof -
  from assms(1) obtain I Q where r: "rep s I Q" by (rule inv_repE)
  show ?thesis
  proof (cases "connected_remote (agent s)")
    case None
    then show ?thesis using assms(2) rep_set [OF r] rep_set [OF reconcile_offline(1) [OF r None]] by simp
  next
    case (Some c)
    then obtain active capacity where c: "connected_remote (agent s) = Some (active, capacity)" by (cases c) auto
    let ?k = "capacity - length I"
    note on = reconcile_connected [OF r c]
    have "(i, p) \<notin> set Q" using r assms(3) by (auto simp: rep_def is_queued_def)
    then have "(i, p) \<notin> set (drop ?k Q)" by (meson in_set_dropD)
    then consider "(i, p) \<in> set I" | e where "e \<in> set (take ?k Q)" "(i, p) = launch active e"
      using assms(2) rep_set [OF on(1)] by auto
    then show ?thesis
    proof cases
      case 1
      then show ?thesis using rep_set [OF r] by simp
    next
      case 2
      then have "flight_effect sid i k p = launch_effect active e"
        using assms(3) by (simp add: launch_def launch_effect_def dispatch_effect_def start_attempt_def)
      with 2(1) show ?thesis unfolding on(2) by simp
    qed
  qed
qed

lemma handle_in_flight:
  assumes "handle_event s e = Some (s', x)" and "(i, p) \<in> set (pending s')" and "pr_state p = InFlight sid k"
  shows "(i, p) \<in> set (pending s)"
  using assms
  by (cases e)
    (auto simp: submit_request_def remote_response_event_def cancel_request_def hm_insert_def hm_remove_def
      requeue_session_def Let_def split: option.splits if_splits remote_agent_state.splits)

lemma apply_in_flight:
  assumes "broker_inv s" and "admissible s e" and "apply_event s e now = Some (s', Ok es)"
    and "(i, p) \<in> set (pending s')" and "pr_state p = InFlight sid k"
  shows "(i, p) \<in> set (pending s) \<or> flight_effect sid i k p \<in> set es"
proof (rule apply_OkE [OF assms(1-3)])
  fix I Q s1 s2 hs assume s1: "s1 = s\<lparr>queue := map fst (filter (alive now) Q), pending := filter (alive now) (pending s)\<rparr>"
    and h: "handle_event s1 e = Some (s2, Ok hs)" and inv: "broker_inv s2" and s': "s' = fst (reconcile s2)"
    and es: "es = concat (map timeout_effects (filter (due now) (I @ Q))) @ hs @ snd (reconcile s2)"
  consider "(i, p) \<in> set (pending s2)" | "flight_effect sid i k p \<in> set (snd (reconcile s2))"
    using reconcile_in_flight [OF inv assms(4) [unfolded s'] assms(5)] by blast
  then show ?thesis
  proof cases
    case 1
    from handle_in_flight [OF h this assms(5)] show ?thesis by (simp add: s1)
  next
    case 2
    then show ?thesis by (simp only: es set_append Un_iff simp_thms)
  qed
qed

section \<open>The delivery invariant\<close>

definition sent_inv :: "actor_output list \<Rightarrow> broker_actor \<Rightarrow> effect list \<Rightarrow> bool" where
  "sent_inv history a effects \<longleftrightarrow>
     (\<forall>i p sid k. (i, p) \<in> set (pending (a_state a)) \<and> pr_state p = InFlight sid k \<longrightarrow>
        flight_effect sid i k p \<in> set effects
        \<or> (\<exists>ch. a_remote a = Some (sid, ch) \<and> OutRemote ch (request_message i k p) \<in> set history))"

text \<open>
  One application of the model. The remote may change together with it, as long as it is
  kept, dropped, or installed when none was connected.
\<close>

lemma sent_inv_apply:
  assumes inv: "broker_inv (a_state a)" and adm: "admissible (a_state a) e"
    and run: "apply_event (a_state a) e now = Some (a_state b, Ok es)" and inv': "broker_inv (a_state b)"
    and sent: "sent_inv history a []"
    and rem: "map_option fst (a_remote b) = agent_session (agent (a_state b))"
    and kept: "a_remote b = a_remote a \<or> a_remote b = None \<or> agent_session (agent (a_state a)) = None"
  shows "sent_inv history b es"
  unfolding sent_inv_def
proof (intro allI impI, elim conjE)
  fix i p sid k assume ip: "(i, p) \<in> set (pending (a_state b))" "pr_state p = InFlight sid k"
  show "flight_effect sid i k p \<in> set es
      \<or> (\<exists>ch. a_remote b = Some (sid, ch) \<and> OutRemote ch (request_message i k p) \<in> set history)"
    using apply_in_flight [OF inv adm run ip]
  proof
    assume old: "(i, p) \<in> set (pending (a_state a))"
    have "agent_session (agent (a_state a)) = Some sid" "agent_session (agent (a_state b)) = Some sid"
      using in_flight_session [OF inv old ip(2)] in_flight_session [OF inv' ip] by simp_all
    with kept rem have "a_remote b = a_remote a" by auto
    with sent old ip(2) show ?thesis by (auto simp: sent_inv_def)
  qed simp
qed

lemma sent_inv_disconnect:
  assumes "broker_inv st" and "agent_session (agent st) = None" and "a_state a = st"
  shows "sent_inv history a effects"
  using in_flight_session [OF assms(1)] assms(2,3) by (fastforce simp: sent_inv_def)

lemma sent_inv_mono: "sent_inv history a effects \<Longrightarrow> set history \<subseteq> set history' \<Longrightarrow> sent_inv history' a effects"
  unfolding sent_inv_def by blast

lemma sent_inv_step:
  assumes "sent_inv history a (e # effects)"
    and "\<And>sid i k p. e = flight_effect sid i k p \<Longrightarrow> \<exists>ch. a_remote a = Some (sid, ch) \<and> OutRemote ch (request_message i k p) \<in> set out"
  shows "sent_inv (history @ out) a effects"
  unfolding sent_inv_def
proof (intro allI impI)
  fix i p sid k assume "(i, p) \<in> set (pending (a_state a)) \<and> pr_state p = InFlight sid k"
  with assms(1) have "flight_effect sid i k p \<in> set (e # effects)
      \<or> (\<exists>ch. a_remote a = Some (sid, ch) \<and> OutRemote ch (request_message i k p) \<in> set history)"
    unfolding sent_inv_def by blast
  then show "flight_effect sid i k p \<in> set effects
      \<or> (\<exists>ch. a_remote a = Some (sid, ch) \<and> OutRemote ch (request_message i k p) \<in> set (history @ out))"
    using assms(2) [of sid i k p] by auto
qed

lemma sent_inv_skip:
  assumes "sent_inv (history @ outs) a (e # effects)" and "\<And>sid i k p. e \<noteq> flight_effect sid i k p"
  shows "sent_inv (history @ outs @ out) a effects"
  using sent_inv_step [OF assms(1), of out] assms(2) by simp

interpretation flight_sent: execution "\<lambda>a effects outs. exec_inv lost a effects \<and> sent_inv (history @ outs) a effects" now for lost history now
proof
  fix a sid i k ra dl packet ctx effects outs st reconciled
  assume inv: "exec_inv lost a (Dispatch sid i k ra dl packet ctx # effects)
    \<and> sent_inv (history @ outs) a (Dispatch sid i k ra dl packet ctx # effects)"
  assume ap: "apply_event (a_state a) (EvDisconnected sid) now = Some (st, Ok reconciled)"
  from exec_inv_fail [OF conjunct1 [OF inv], of now] ap
  have "exec_inv lost (a\<lparr>a_remote := None, a_state := st\<rparr>) (effects @ reconciled)" by auto
  moreover from this have "sent_inv (history @ outs) (a\<lparr>a_remote := None, a_state := st\<rparr>) (effects @ reconciled)"
    by (intro sent_inv_disconnect [of st]) (simp_all add: exec_inv_def)
  ultimately show "exec_inv lost (a\<lparr>a_remote := None, a_state := st\<rparr>) (effects @ reconciled)
    \<and> sent_inv (history @ outs) (a\<lparr>a_remote := None, a_state := st\<rparr>) (effects @ reconciled)" ..
next
  fix a sid i k ra dl packet ctx effects outs ch
  assume inv: "exec_inv lost a (Dispatch sid i k ra dl packet ctx # effects)
    \<and> sent_inv (history @ outs) a (Dispatch sid i k ra dl packet ctx # effects)" and "a_remote a = Some (sid, ch)"
  then show "exec_inv lost a effects \<and> sent_inv (history @ outs @ [OutRemote ch (RcRequest i k ra dl packet ctx)]) a effects"
    using sent_inv_step [OF conjunct2 [OF inv], of "[OutRemote ch (RcRequest i k ra dl packet ctx)]"] exec_inv_skip [OF conjunct1 [OF inv]]
    by (simp add: request_message_def)
next
  fix a i r effects outs w
  assume inv: "exec_inv lost a (Complete i r # effects) \<and> sent_inv (history @ outs) a (Complete i r # effects)"
    and "hm_get (a_waiters a) i = Some w"
  let ?o = "[OutAbort (w_cancellation w), OutReply (w_response w) r]" and ?a = "a\<lparr>a_waiters := hm_remove i (a_waiters a)\<rparr>"
  have "sent_inv (history @ outs @ ?o) ?a effects" using sent_inv_step [OF conjunct2 [OF inv], of ?o] by (simp add: sent_inv_def)
  with exec_inv_complete [OF conjunct1 [OF inv]] show "exec_inv lost ?a effects \<and> sent_inv (history @ outs @ ?o) ?a effects" by auto
next
  fix a i r effects outs
  assume inv: "exec_inv lost a (Complete i r # effects) \<and> sent_inv (history @ outs) a (Complete i r # effects)"
    and "hm_get (a_waiters a) i = None"
  with exec_inv_complete [OF conjunct1 [OF inv]] show "exec_inv lost a effects \<and> sent_inv (history @ outs) a effects" by auto
qed (auto intro: exec_inv_skip sent_inv_skip sent_inv_skip [where out = "[]", simplified])

lemma execute_sent:
  assumes "exec_inv lost a effects" and "sent_inv history a effects" and "execute send_ok a effects now = Some (a', outs)"
  shows "sent_inv (history @ outs) a' []"
  using flight_sent.execute_from [OF assms(3), of lost history] assms(1,2) by simp

lemma apply_actor_sent:
  assumes ok: "broker_inv (a_state a)" "hm_ok (a_waiters a)" and adm: "admissible (a_state a) e"
    and no: "\<forall>sid c. e \<noteq> EvConnected sid c"
    and after: "map_option fst (a_remote a) = session_after (agent_session (agent (a_state a))) e"
    and ms: "mset (map fst (a_waiters a)) = mset (submitted e) + mset (map fst (pending (a_state a))) + lost"
    and sent: "sent_inv history a0 []" "a_state a0 = a_state a"
    and kept: "a_remote a = a_remote a0 \<or> a_remote a = None"
    and res: "apply_actor send_ok a e now = Some (a', outs)"
  shows "sent_inv (history @ outs) a' []"
proof -
  obtain st es where run: "apply_event (a_state a) e now = Some (st, Ok es)"
    and inv: "exec_inv lost (a\<lparr>a_state := st\<rparr>) es"
    by (rule apply_exec_inv [OF ok adm no after ms])
  have "sent_inv history (a\<lparr>a_state := st\<rparr>) es"
    by (rule sent_inv_apply [of a0 e now]) (use ok adm run inv sent kept in \<open>auto simp: exec_inv_def\<close>)
  from execute_sent [OF inv this, of send_ok now a' outs] res run show ?thesis by (simp add: apply_actor_def)
qed

lemma apply_actor_inv_sent:
  assumes "actor_inv lost a" and "\<forall>sid c. e \<noteq> EvConnected sid c" and "\<forall>sid. e \<noteq> EvDisconnected sid"
    and "submitted e = []" and "sent_inv history a []" and "apply_actor send_ok a e now = Some (a', outs)"
  shows "sent_inv (history @ outs) a' []"
proof -
  have "session_after x e = x" for x using assms(2,3) by (cases e) auto
  then have "map_option fst (a_remote a) = session_after (agent_session (agent (a_state a))) e"
    using assms(1) by (simp add: exec_inv_def)
  moreover have "admissible (a_state a) e" using assms(4) by (cases e) auto
  ultimately show ?thesis
    using assms by (intro apply_actor_sent [of a e lost history a]) (simp_all add: exec_inv_def)
qed

section \<open>Every turn of the loop\<close>

lemma handle_local_sent:
  assumes inv: "actor_inv lost a" and new: "i \<notin> hm_keys (a_waiters a)" and seq: "next_sequence (a_state a) + 1 < 2 ^ 64"
    and sent: "sent_inv history a []" and res: "handle_local send_ok a request i now t = Some (a', outs, f)"
  shows "sent_inv (history @ outs) a' []"
proof -
  let ?w = "\<lparr>w_response = pq_response request, w_cancellation = i\<rparr>"
  let ?a = "a\<lparr>a_waiters := (i, ?w) # a_waiters a\<rparr>"
  have "hm_insert i ?w (a_waiters a) = (i, ?w) # a_waiters a" using new by (simp add: hm_insert_absent hm_get_None_iff)
  then obtain deadline stamp where
    run: "apply_actor send_ok ?a (EvSubmit i (pq_packet request) (pq_context request) deadline (unix_milliseconds t) stamp) now
      = Some (a', outs)"
    using res by (auto simp: handle_local_def Let_def split: option.splits)
  have "i \<notin> hm_keys (pending (a_state a))" using new actor_pending_waits [OF inv] by auto
  then show ?thesis
    using inv new seq sent by (intro apply_actor_sent [OF _ _ _ _ _ _ sent _ _ run, of lost]) (auto simp: exec_inv_def hm_ok_def)
qed

lemma handle_connect_sent:
  assumes inv: "actor_inv lost a" and sent: "sent_inv history a []"
    and res: "handle_command send_ok a (CmdConnect capacity outbound response) fresh now = Some (stopped, a', outs)"
  shows "sent_inv (history @ outs) a' []"
proof (cases "agent_session (agent (a_state a))")
  case None
  obtain st es where run: "apply_event (a_state a) (EvConnected fresh capacity) now = Some (st, Ok es)"
    and inv': "exec_inv lost (a\<lparr>a_state := st, a_remote := Some (fresh, outbound)\<rparr>) es"
    by (rule accepted_connect [OF inv None])
  let ?a = "a\<lparr>a_state := st, a_remote := Some (fresh, outbound)\<rparr>"
  have "sent_inv history ?a es"
    by (rule sent_inv_apply [of a "EvConnected fresh capacity" now])
      (use inv inv' run sent None in \<open>auto simp: exec_inv_def\<close>)
  then have "sent_inv (history @ [OutConnect response (Ok fresh)]) ?a es" by (rule sent_inv_mono) auto
  moreover from res run obtain outs' where "execute send_ok ?a es now = Some (a', outs')"
    "outs = OutConnect response (Ok fresh) # outs'" by (auto simp: emit_def continue_with_def)
  ultimately show ?thesis using execute_sent [OF inv'] by fastforce
next
  case (Some active)
  then have some: "agent_session (agent (a_state a)) \<noteq> None" by simp
  obtain st where run: "apply_event (a_state a) (EvConnected fresh capacity) now = Some (st, Err RemoteAlreadyConnected)"
    and pend: "pending st = filter (\<lambda>(_, p). now < pr_deadline p) (pending (a_state a))"
    by (rule rejected_connect [OF inv some])
  then have "sent_inv (history @ outs) (a\<lparr>a_state := st\<rparr>) []"
    using sent by (fastforce simp: sent_inv_def)
  with res run show ?thesis by simp
qed

lemma handle_command_sent:
  assumes inv: "actor_inv lost a" and sent: "sent_inv history a []"
    and res: "handle_command send_ok a cmd fresh now = Some (stopped, a', outs)"
  shows "sent_inv (history @ outs) a' []"
proof (cases cmd)
  case (CmdConnect capacity outbound response)
  with handle_connect_sent [OF inv sent] res show ?thesis by blast
next
  case (CmdDisconnected sid)
  let ?a = "case a_remote a of None \<Rightarrow> a | Some (active, _) \<Rightarrow> if active = sid then a\<lparr>a_remote := None\<rparr> else a"
  have same: "a_state ?a = a_state a" "a_waiters ?a = a_waiters a"
    and kept: "a_remote ?a = a_remote a \<or> a_remote ?a = None"
    and after: "map_option fst (a_remote ?a) = session_after (agent_session (agent (a_state a))) (EvDisconnected sid)"
    using inv by (auto simp: exec_inv_def split: option.splits)
  have "apply_actor send_ok ?a (EvDisconnected sid) now = Some (a', outs)"
    using res by (auto simp: CmdDisconnected continue_with_def Let_def)
  then show ?thesis
    using inv sent after kept
    by (intro apply_actor_sent [where a = ?a and e = "EvDisconnected sid" and lost = lost and history = history and ?a0.0 = a])
      (simp_all only: same exec_inv_def, simp_all)
next
  case (CmdShutdown response)
  with res sent have "sent_inv history a' []" by (auto simp: stop_actor_def sent_inv_def)
  then show ?thesis by (rule sent_inv_mono) simp
qed (use res in \<open>auto simp: continue_with_def dest!: apply_actor_inv_sent [OF inv _ _ _ sent, rotated 3]\<close>)

lemma loop_step_sent:
  assumes "loop_step l (b, now, send_ok, outs) l'" and "loop_inv lost l" and sent: "sent_inv history (l_actor l) []"
  shows "sent_inv (history @ outs) (l_actor l') []"
proof -
  from assms(1) have run: "l_running l" and adm: "branch_admissible l b now" by (auto elim: loop_stepE)
  have inv: "actor_inv lost (l_actor l)" using assms(2) run by (simp add: loop_inv_def)
  from assms(1) show ?thesis
  proof (cases rule: loop_step_cases)
    case (request rq i t f)
    with adm show ?thesis by (auto intro: handle_local_sent [OF inv _ _ sent])
  next
    case (command cmd fresh stopped)
    from handle_command_sent [OF inv sent command(2)] show ?thesis .
  next
    case (applied e)
    then show ?thesis by (auto dest!: apply_actor_inv_sent [OF inv _ _ _ sent, rotated 3])
  next
    case ended
    with sent have "sent_inv history (l_actor l') []" by (auto simp: stop_actor_def sent_inv_def)
    then show ?thesis by (rule sent_inv_mono) simp
  qed (use sent in simp)
qed

lemma run_sent:
  assumes "runs loop_step l ls l'" and "loop_inv lost l" and "sent_inv history (l_actor l) []"
  shows "sent_inv (history @ run_outputs ls) (l_actor l') []"
  using assms
proof (induction arbitrary: lost history rule: runs.induct)
  case (runs_Cons l x t ls u)
  obtain b now send_ok outs where x: "x = (b, now, send_ok, outs)" by (cases x) auto
  note step = runs_Cons.hyps(1) [unfolded x]
  have "sent_inv (history @ outs) (l_actor t) []" using loop_step_sent [OF step runs_Cons.prems] .
  from runs_Cons.IH [OF conjunct1 [OF loop_step_accounts [OF step runs_Cons.prems(1)]] this] show ?case
    by (simp add: x)
qed simp

text \<open>
  What is in flight has been delivered. In every state that the loop reaches, a request
  that the model holds in flight was put, with its current attempt number, its packet,
  its context and its timestamps unchanged, on the channel of the session that is connected
  now; so a response that completes it answers a message that client was given.
\<close>

lemma broker_in_flight_was_sent:
  assumes "runs loop_step (run_broker_init config) ls l"
    and "hm_get (pending (a_state (l_actor l))) i = Some p" and "pr_state p = InFlight sid k"
  shows "\<exists>ch. a_remote (l_actor l) = Some (sid, ch)
    \<and> OutRemote ch (RcRequest i k (pr_requested_at p) (pr_deadline_timestamp p) (pr_packet p) (pr_context p))
      \<in> set (run_outputs ls)"
proof -
  have "sent_inv [] (l_actor (run_broker_init config)) []"
    by (simp add: sent_inv_def run_broker_init_def broker_new_def)
  from run_sent [OF assms(1) run_broker_init_inv this] have "sent_inv (run_outputs ls) (l_actor l) []" by simp
  moreover have "(i, p) \<in> set (pending (a_state (l_actor l)))"
    using assms(2) by (simp add: hm_get_def map_of_SomeD)
  ultimately show ?thesis using assms(3) by (auto simp: sent_inv_def request_message_def)
qed

end
