(* ===== verification/Broker_Reply.thy ===== *)
theory Broker_Reply
  imports Broker_Delivery
begin

text \<open>
  Where answers come from: a caller is given a packet only if the remote client sent it in
  response to a message that carried the caller's own request.
\<close>

section \<open>Request data\<close>

text \<open>The identifier, the packet and the context of the pending requests never change.\<close>

definition entry_data :: "request_id \<times> pending_request \<Rightarrow> request_id \<times> bytes \<times> request_context option" where
  "entry_data e = (fst e, pr_packet (snd e), pr_context (snd e))"

definition pending_data :: "broker_state \<Rightarrow> (request_id \<times> bytes \<times> request_context option) set" where
  "pending_data s = entry_data ` set (pending s)"

fun submitted_data :: "event \<Rightarrow> (request_id \<times> bytes \<times> request_context option) set" where
  "submitted_data (EvSubmit i packet ctx _ _ _) = {(i, packet, ctx)}"
| "submitted_data _ = {}"

lemma pending_dataI: "(i, p) \<in> set (pending s) \<Longrightarrow> (i, pr_packet p, pr_context p) \<in> pending_data s"
  by (force simp: pending_data_def entry_data_def)

lemma expire_each_frame:
  "expire_each xs m = Some (m', es) \<Longrightarrow> set m' \<subseteq> set m \<and> (\<forall>i bs. Complete i (Ok bs) \<notin> set es)"
proof (induction xs arbitrary: m m' es)
  case (Cons x xs)
  obtain i n where x: "x = (i, n)" by (cases x)
  from Cons.prems obtain p es' where "expire_each xs (hm_remove i m) = Some (m', es')"
    and es: "es = cancel_effects i p @ [Complete i (Err TimedOut)] @ es'"
    by (auto simp: x split: option.splits)
  from Cons.IH [OF this(1)] show ?case
    unfolding es by (auto simp: hm_remove_def cancel_effects_def split: pending_state.splits)
qed simp

lemma expire_data:
  assumes "expire s now = Some (s1, es)"
  shows "set (pending s1) \<subseteq> set (pending s)" and "Complete i (Ok bs) \<notin> set es"
  using assms expire_each_frame by (fastforce simp: expire_def Let_def split: option.splits)+

lemma hm_set_data:
  assumes "hm_get m i = Some p"
  shows "entry_data ` set (hm_set i (start_attempt sid p) m) \<subseteq> entry_data ` set m"
proof -
  have "(i, p) \<in> set m" using assms by (simp add: hm_get_def map_of_SomeD)
  then have "entry_data (i, start_attempt sid p) \<in> entry_data ` set m"
    by (force simp: entry_data_def start_attempt_def)
  then show ?thesis by (auto simp: hm_set_def)
qed

lemma dispatch_loop_data: "entry_data ` set (fst (snd (dispatch_loop sid c n q m))) \<subseteq> entry_data ` set m"
proof (induction q arbitrary: n m)
  case (Cons i q)
  show ?case
  proof (cases "n < c")
    case True
    show ?thesis
    proof (cases "hm_get m i")
      case None
      with True Cons.IH [of n m] show ?thesis by simp
    next
      case (Some p)
      have "fst (snd (dispatch_loop sid c n (i # q) m))
          = fst (snd (dispatch_loop sid c (n + 1) q (hm_set i (start_attempt sid p) m)))"
        using True Some by (simp add: case_prod_beta' Let_def)
      then show ?thesis using Cons.IH [of "n + 1"] hm_set_data [OF Some, of sid] by (simp only:) (rule subset_trans)
    qed
  qed simp
qed simp

lemma reconcile_data: "pending_data (fst (reconcile s)) \<subseteq> pending_data s"
  using dispatch_loop_data
  by (simp add: pending_data_def reconcile_def dispatch_work_def case_prod_beta' Let_def split: option.split)

lemma reconcile_no_completion: "Complete i r \<notin> set (snd (reconcile s))"
proof -
  have "Complete i r \<notin> set (snd (snd (dispatch_loop sid c n q m)))" for sid c n q m
    by (induction q arbitrary: n m) (auto simp: Let_def case_prod_beta' dispatch_effect_def split: option.splits)
  then show ?thesis
    by (auto simp: reconcile_def dispatch_work_def announce_wake_def case_prod_beta' Let_def split: option.splits)
qed

lemma handle_event_data:
  assumes "handle_event s e = Some (s', r)"
  shows "pending_data s' \<subseteq> pending_data s \<union> submitted_data e"
  using assms
  by (cases e; force simp: pending_data_def entry_data_def submit_request_def remote_response_event_def cancel_request_def hm_insert_def
      hm_remove_def requeue_session_def Let_def split: option.splits if_splits remote_agent_state.splits)

lemma handle_event_completes:
  assumes "handle_event s e = Some (s', Ok es)" and "Complete i (Ok bs) \<in> set es"
  shows "\<exists>sid k p. e = EvResponse sid i k bs \<and> (i, p) \<in> set (pending s) \<and> pr_state p = InFlight sid k"
  using assms
  by (cases e)
    (auto simp: submit_request_def remote_response_event_def cancel_request_def cancel_effects_def hm_get_def Let_def
      split: option.splits if_splits remote_agent_state.splits pending_state.splits, blast dest: map_of_SomeD)

lemma apply_data:
  assumes "apply_event s e now = Some (s', r)"
  shows "pending_data s' \<subseteq> pending_data s \<union> submitted_data e"
proof -
  from assms obtain s1 xs s2 x where e: "expire s now = Some (s1, xs)" and h: "handle_event s1 e = Some (s2, x)"
    and s': "s' = s2 \<or> s' = fst (reconcile s2)"
    by (auto simp: apply_event_def case_prod_beta' Let_def split: option.splits sum.splits)
  have "pending_data s1 \<subseteq> pending_data s" using expire_data(1) [OF e] by (auto simp: pending_data_def)
  with handle_event_data [OF h] s' reconcile_data [of s2] show ?thesis by blast
qed

lemma apply_completes:
  assumes "apply_event s e now = Some (s', Ok es)" and "Complete i (Ok bs) \<in> set es"
  shows "\<exists>sid k p. e = EvResponse sid i k bs \<and> (i, p) \<in> set (pending s) \<and> pr_state p = InFlight sid k"
proof -
  from assms(1) obtain s1 xs s2 hs where e: "expire s now = Some (s1, xs)" and h: "handle_event s1 e = Some (s2, Ok hs)"
    and es: "es = xs @ hs @ snd (reconcile s2)"
    by (auto simp: apply_event_def case_prod_beta' Let_def split: option.splits sum.splits)
  have "Complete i (Ok bs) \<in> set hs"
    using assms(2) es expire_data(2) [OF e] reconcile_no_completion by auto
  from handle_event_completes [OF h this] expire_data(1) [OF e] show ?thesis by blast
qed

section \<open>Executing effects\<close>

text \<open>
  \<open>grew a d a'\<close>: from \<open>a\<close> to \<open>a'\<close> no waiter is added, and the pending data grow by \<open>d\<close> at most.
\<close>

definition grew :: "broker_actor \<Rightarrow> (request_id \<times> bytes \<times> request_context option) set \<Rightarrow> broker_actor \<Rightarrow> bool" where
  "grew a d a' \<longleftrightarrow> set (a_waiters a') \<subseteq> set (a_waiters a) \<and> pending_data (a_state a') \<subseteq> pending_data (a_state a) \<union> d"

definition replied :: "broker_actor \<Rightarrow> effect list \<Rightarrow> actor_output list \<Rightarrow> bool" where
  "replied a effects outs \<longleftrightarrow>
     (\<forall>ch bs. (ch, Ok bs) \<in> set (replies outs) \<longrightarrow>
        (\<exists>i w. Complete i (Ok bs) \<in> set effects \<and> (i, w) \<in> set (a_waiters a) \<and> w_response w = ch))"

lemma repliedE:
  assumes "replied a effects outs" and "(ch, Ok bs) \<in> set (replies outs)"
  obtains i w where "Complete i (Ok bs) \<in> set effects" and "(i, w) \<in> set (a_waiters a)" and "w_response w = ch"
  using assms unfolding replied_def by blast

text \<open>
  From the actor \<open>a0\<close> and the effects \<open>effects0\<close> on, only those waiters and requests remain, and the
  replies so far and the completions to come are among \<open>effects0\<close>.
\<close>

definition answering :: "broker_actor \<Rightarrow> effect list \<Rightarrow> broker_actor \<Rightarrow> effect list \<Rightarrow> actor_output list \<Rightarrow> bool" where
  "answering a0 effects0 a effects outs \<longleftrightarrow> grew a0 {} a \<and> replied a0 effects0 outs
     \<and> (\<forall>i bs. Complete i (Ok bs) \<in> set effects \<longrightarrow> Complete i (Ok bs) \<in> set effects0)"

lemma replied_more: "replied a effects outs \<Longrightarrow> replies out = [] \<Longrightarrow> replied a effects (outs @ out)"
  by (simp add: replied_def)

interpretation answers_kept: execution "answering a0 effects0" now for a0 effects0 now
proof
  fix a sid i k ra dl packet ctx effects outs st reconciled
  assume inv: "answering a0 effects0 a (Dispatch sid i k ra dl packet ctx # effects) outs"
    and ap: "apply_event (a_state a) (EvDisconnected sid) now = Some (st, Ok reconciled)"
  have "Complete i (Ok bs) \<notin> set reconciled" for i bs using apply_completes [OF ap] by blast
  moreover have "pending_data st \<subseteq> pending_data (a_state a)" using apply_data [OF ap] by simp
  ultimately show "answering a0 effects0 (a\<lparr>a_remote := None, a_state := st\<rparr>) (effects @ reconciled) outs"
    using inv by (auto simp: answering_def grew_def)
next
  fix a i r effects outs w
  assume inv: "answering a0 effects0 a (Complete i r # effects) outs" and w: "hm_get (a_waiters a) i = Some w"
  have "(i, w) \<in> set (a_waiters a)" using w by (simp add: hm_get_def map_of_SomeD)
  then have "(i, w) \<in> set (a_waiters a0)" using inv by (auto simp: answering_def grew_def)
  then show "answering a0 effects0 (a\<lparr>a_waiters := hm_remove i (a_waiters a)\<rparr>) effects
      (outs @ [OutAbort (w_cancellation w), OutReply (w_response w) r])"
    using inv unfolding answering_def grew_def replied_def by (auto simp: hm_remove_def) blast
qed (simp_all add: answering_def replied_more)

lemma execute_frame:
  "execute send_ok a effects now = Some (a', outs) \<Longrightarrow> grew a {} a' \<and> replied a effects outs"
  using answers_kept.execute_from [of send_ok a effects now a' outs a effects] by (simp add: answering_def grew_def replied_def)

lemma apply_actor_frame:
  assumes "apply_actor send_ok a e now = Some (a', outs)"
  shows "grew a (submitted_data e) a'"
    and "(ch, Ok bs) \<in> set (replies outs) \<Longrightarrow> \<exists>sid i k p w. e = EvResponse sid i k bs
      \<and> (i, p) \<in> set (pending (a_state a)) \<and> pr_state p = InFlight sid k \<and> (i, w) \<in> set (a_waiters a) \<and> w_response w = ch"
proof -
  from assms obtain st r where ap: "apply_event (a_state a) e now = Some (st, r)"
    by (auto simp: apply_actor_def split: option.splits)
  note data = apply_data [OF ap]
  have "grew a (submitted_data e) a' \<and> (\<forall>ch bs. (ch, Ok bs) \<in> set (replies outs) \<longrightarrow> (\<exists>sid i k p w. e = EvResponse sid i k bs
      \<and> (i, p) \<in> set (pending (a_state a)) \<and> pr_state p = InFlight sid k \<and> (i, w) \<in> set (a_waiters a) \<and> w_response w = ch))"
  proof (cases r)
    case (Inl x)
    with assms ap data show ?thesis by (auto simp: apply_actor_def grew_def)
  next
    case (Inr es)
    with assms ap have "execute send_ok (a\<lparr>a_state := st\<rparr>) es now = Some (a', outs)" by (simp add: apply_actor_def)
    from execute_frame [OF this] have "grew (a\<lparr>a_state := st\<rparr>) {} a'" and rep: "replied (a\<lparr>a_state := st\<rparr>) es outs" by simp_all
    with data have "grew a (submitted_data e) a'" by (auto simp: grew_def)
    moreover have "\<exists>sid i k p w. e = EvResponse sid i k bs \<and> (i, p) \<in> set (pending (a_state a)) \<and> pr_state p = InFlight sid k
        \<and> (i, w) \<in> set (a_waiters a) \<and> w_response w = ch" if "(ch, Ok bs) \<in> set (replies outs)" for ch bs
    proof -
      from rep that obtain i w where c: "Complete i (Ok bs) \<in> set es" and w: "(i, w) \<in> set (a_waiters a)" "w_response w = ch"
        by (rule repliedE) simp
      from apply_completes [OF ap [unfolded Inr] c] w show ?thesis by blast
    qed
    ultimately show ?thesis by blast
  qed
  then show "grew a (submitted_data e) a'"
    and "(ch, Ok bs) \<in> set (replies outs) \<Longrightarrow> \<exists>sid i k p w. e = EvResponse sid i k bs
      \<and> (i, p) \<in> set (pending (a_state a)) \<and> pr_state p = InFlight sid k \<and> (i, w) \<in> set (a_waiters a) \<and> w_response w = ch"
    by blast+
qed

section \<open>Origin of requests\<close>

text \<open>
  A waiter and a pending entry of the same identifier belong to one request that the loop
  received.
\<close>

definition origin_inv :: "(request_id \<times> packet_request) set \<Rightarrow> broker_actor \<Rightarrow> bool" where
  "origin_inv received a \<longleftrightarrow>
     (\<forall>i packet ctx w. (i, packet, ctx) \<in> pending_data (a_state a) \<and> (i, w) \<in> set (a_waiters a) \<longrightarrow>
        (\<exists>request. (i, request) \<in> received \<and> w_response w = pq_response request
           \<and> packet = pq_packet request \<and> ctx = pq_context request))"

fun branch_received :: "select_branch \<Rightarrow> (request_id \<times> packet_request) set" where
  "branch_received (LocalRequest request i _) = {(i, request)}"
| "branch_received _ = {}"

lemma origin_inv_grew:
  "origin_inv received a \<Longrightarrow> grew a {} a' \<Longrightarrow> received \<subseteq> received' \<Longrightarrow> origin_inv received' a'"
  unfolding origin_inv_def grew_def by blast

lemma handle_local_origin:
  assumes inv: "actor_inv lost a" and new: "i \<notin> hm_keys (a_waiters a)" and origin: "origin_inv received a"
    and res: "handle_local send_ok a request i now t = Some (a', outs, f)"
  shows "origin_inv (insert (i, request) received) a'" and "(ch, Ok bs) \<notin> set (replies outs)"
proof -
  let ?w = "\<lparr>w_response = pq_response request, w_cancellation = i\<rparr>"
  let ?a = "a\<lparr>a_waiters := hm_insert i ?w (a_waiters a)\<rparr>"
  from res obtain e where run: "apply_actor send_ok ?a e now = Some (a', outs)"
    and data: "submitted_data e = {(i, pq_packet request, pq_context request)}" and sub: "\<forall>sid j k b. e \<noteq> EvResponse sid j k b"
    by (auto simp: handle_local_def Let_def split: option.splits)
  have "i \<notin> hm_keys (pending (a_state a))" using new actor_pending_waits [OF inv] by auto
  then have old: "(i, packet, ctx) \<notin> pending_data (a_state a)" for packet ctx
    by (force simp: pending_data_def entry_data_def)
  from apply_actor_frame(1) [OF run] show "origin_inv (insert (i, request) received) a'"
    using origin old unfolding grew_def data origin_inv_def by (fastforce simp: hm_insert_def hm_remove_def)
  show "(ch, Ok bs) \<notin> set (replies outs)" using apply_actor_frame(2) [OF run] sub by blast
qed

text \<open>A packet is handed to a caller only for a response to the attempt in flight.\<close>

definition answers :: "broker_actor \<Rightarrow> broker_command \<Rightarrow> nat \<Rightarrow> bytes \<Rightarrow> bool" where
  "answers a cmd ch bs \<longleftrightarrow>
     (\<exists>sid i k p w. cmd = CmdResponse sid i k bs \<and> (i, p) \<in> set (pending (a_state a)) \<and> pr_state p = InFlight sid k
        \<and> (i, w) \<in> set (a_waiters a) \<and> w_response w = ch)"

lemma stop_actor_replies_error: "(ch, Ok bs) \<notin> set (replies (snd (stop_actor a)))"
  by (auto simp: stop_actor_replies)

lemma connect_frame:
  assumes "handle_command send_ok a (CmdConnect capacity outbound response) fresh now = Some (stopped, a', outs)"
  shows "grew a {} a' \<and> (ch, Ok bs) \<notin> set (replies outs)"
proof -
  from assms obtain st r where ap: "apply_event (a_state a) (EvConnected fresh capacity) now = Some (st, r)"
    by (auto split: option.splits)
  have data: "pending_data st \<subseteq> pending_data (a_state a)" using apply_data [OF ap] by simp
  show ?thesis
  proof (cases r)
    case (Inl e)
    then show ?thesis using assms ap data by (cases e) (auto simp: grew_def)
  next
    case (Inr es)
    let ?b = "a\<lparr>a_state := st, a_remote := Some (fresh, outbound)\<rparr>"
    from assms ap Inr obtain outs' where run: "execute send_ok ?b es now = Some (a', outs')"
      and outs: "outs = OutConnect response (Ok fresh) # outs'" by (auto simp: emit_def continue_with_def)
    from execute_frame [OF run] have "grew ?b {} a'" and rep: "replied ?b es outs'" by simp_all
    moreover have "(ch, Ok bs) \<notin> set (replies outs')"
      using rep apply_completes [OF ap [unfolded Inr]] by (auto elim!: repliedE)
    ultimately show ?thesis using data by (auto simp: grew_def outs)
  qed
qed

lemma handle_command_frame:
  assumes "handle_command send_ok a cmd fresh now = Some (stopped, a', outs)"
  shows "grew a {} a' \<and> ((ch, Ok bs) \<in> set (replies outs) \<longrightarrow> answers a cmd ch bs)"
proof (cases cmd)
  case (CmdConnect capacity outbound response)
  with connect_frame assms show ?thesis by blast
next
  case (CmdDisconnected sid)
  let ?b = "case a_remote a of None \<Rightarrow> a | Some (active, _) \<Rightarrow> if active = sid then a\<lparr>a_remote := None\<rparr> else a"
  have same: "a_state ?b = a_state a" "a_waiters ?b = a_waiters a" by (simp_all split: option.split)
  have run: "apply_actor send_ok ?b (EvDisconnected sid) now = Some (a', outs)"
    using assms by (auto simp: CmdDisconnected continue_with_def Let_def)
  from apply_actor_frame [OF run] same show ?thesis by (auto simp: grew_def)
next
  case (CmdShutdown response)
  then show ?thesis
    using assms stop_actor_replies_error by (auto simp: stop_actor_def grew_def replies_append)
next
  case (CmdResponse sid i k packet)
  then have "apply_actor send_ok a (EvResponse sid i k packet) now = Some (a', outs)"
    using assms by (auto simp: continue_with_def)
  from apply_actor_frame [OF this] show ?thesis by (auto simp: CmdResponse answers_def)
next
  case (CmdReady sid)
  then have "apply_actor send_ok a (EvReady sid) now = Some (a', outs)" using assms by (auto simp: continue_with_def)
  from apply_actor_frame [OF this] show ?thesis by auto
next
  case (CmdLocked sid)
  then have "apply_actor send_ok a (EvLocked sid) now = Some (a', outs)" using assms by (auto simp: continue_with_def)
  from apply_actor_frame [OF this] show ?thesis by auto
qed

lemma loop_step_origin:
  assumes "loop_step l (b, now, send_ok, outs) l'" and "loop_inv lost l" and origin: "origin_inv received (l_actor l)"
  shows "origin_inv (received \<union> branch_received b) (l_actor l')
    \<and> ((ch, Ok bs) \<in> set (replies outs) \<longrightarrow> (\<exists>cmd fresh. b = CommandReceived cmd fresh \<and> answers (l_actor l) cmd ch bs))"
proof -
  from assms(1) have run: "l_running l" and adm: "branch_admissible l b now" by (auto elim: loop_stepE)
  have inv: "actor_inv lost (l_actor l)" using assms(2) run by (simp add: loop_inv_def)
  from assms(1) show ?thesis
  proof (cases rule: loop_step_cases)
    case (request rq i t f)
    have "i \<notin> hm_keys (a_waiters (l_actor l))" using adm request(1) by simp
    note new = handle_local_origin [OF inv this origin request(2)]
    have "received \<union> branch_received b = insert (i, rq) received" using request(1) by simp
    with new(1) new(2) [of ch bs] show ?thesis by (simp only: simp_thms)
  next
    case (command cmd fresh stopped)
    note frame = handle_command_frame [OF command(2), of ch bs]
    have "received \<union> branch_received b = received" using command(1) by simp
    then show ?thesis
      using origin_inv_grew [OF origin conjunct1 [OF frame] subset_refl] conjunct2 [OF frame] command(1) by metis
  next
    case (applied e)
    from apply_actor_frame [OF applied(2)] applied(1) origin_inv_grew [OF origin, of "l_actor l'" received]
    show ?thesis by auto
  next
    case ended
    with stop_actor_replies_error [of ch bs "l_actor l"] origin show ?thesis by (auto simp: stop_actor_def origin_inv_def)
  next
    case idle
    with origin show ?thesis by auto
  qed
qed

section \<open>Runs\<close>

definition run_received :: "loop_label list \<Rightarrow> (request_id \<times> packet_request) set" where
  "run_received ls = (\<Union>x \<in> set ls. branch_received (fst x))"

lemma run_received_simps [simp]:
  "run_received [] = {}" "run_received (x # ls) = branch_received (fst x) \<union> run_received ls"
  by (simp_all add: run_received_def)

lemma run_receivedE:
  assumes "(i, request) \<in> run_received ls"
  obtains t x where "(LocalRequest request i t, x) \<in> set ls"
proof -
  from assms obtain b x where "(b, x) \<in> set ls" "(i, request) \<in> branch_received b" by (auto simp: run_received_def)
  then show thesis by (cases b) (auto intro: that)
qed

lemma run_origin:
  assumes "runs loop_step l ls l'" and "loop_inv lost l" and "origin_inv received (l_actor l)"
  shows "origin_inv (received \<union> run_received ls) (l_actor l')"
  using assms
proof (induction arbitrary: lost received rule: runs.induct)
  case (runs_Cons l x t ls u)
  obtain b now send_ok outs where x: "x = (b, now, send_ok, outs)" by (cases x) auto
  note step = runs_Cons.hyps(1) [unfolded x]
  have "origin_inv (received \<union> branch_received b) (l_actor t)" using loop_step_origin [OF step runs_Cons.prems] by blast
  from runs_Cons.IH [OF conjunct1 [OF loop_step_accounts [OF step runs_Cons.prems(1)]] this] show ?case
    by (simp add: x Un_assoc)
qed simp

lemma reply_split:
  assumes "(ch, r) \<in> set (replies (run_outputs ls))"
  obtains before b now send_ok outs after where "ls = before @ (b, now, send_ok, outs) # after" and "(ch, r) \<in> set (replies outs)"
  using assms
proof (induction ls arbitrary: thesis)
  case (Cons x ls)
  obtain b now send_ok outs where x: "x = (b, now, send_ok, outs)" by (cases x) auto
  show ?case
  proof (cases "(ch, r) \<in> set (replies outs)")
    case True
    then show ?thesis by (intro Cons.prems(1) [of "[]" b now send_ok outs ls]) (simp_all add: x)
  next
    case False
    with Cons.prems(2) have "(ch, r) \<in> set (replies (run_outputs ls))" by (simp add: x)
    then obtain before b' now' send_ok' outs' after where "ls = before @ (b', now', send_ok', outs') # after"
      "(ch, r) \<in> set (replies outs')" using Cons.IH by blast
    then show ?thesis by (intro Cons.prems(1) [of "x # before" b' now' send_ok' outs' after]) simp_all
  qed
qed simp

text \<open>The full origin of a reply, with the state in which the response was received.\<close>

lemma reply_origin:
  assumes "runs loop_step (run_broker_init config) ls l" and "(ch, Ok bs) \<in> set (replies (run_outputs ls))"
  shows "\<exists>before sid i k fresh x after request t y outbound requested_at deadline m.
    ls = before @ (CommandReceived (CmdResponse sid i k bs) fresh, x) # after
    \<and> (LocalRequest request i t, y) \<in> set before \<and> pq_response request = ch
    \<and> OutRemote outbound (RcRequest i k requested_at deadline (pq_packet request) (pq_context request)) \<in> set (run_outputs before)
    \<and> runs loop_step (run_broker_init config) before m \<and> a_remote (l_actor m) = Some (sid, outbound)"
proof -
  from assms(2) obtain before b now send_ok outs after where ls: "ls = before @ (b, now, send_ok, outs) # after"
    and rep: "(ch, Ok bs) \<in> set (replies outs)" by (rule reply_split)
  from assms(1) obtain m m' where pre: "runs loop_step (run_broker_init config) before m"
    and step: "loop_step m (b, now, send_ok, outs) m'" by (auto simp: ls runs_append runs_Cons_iff)
  have init: "origin_inv {} (l_actor (run_broker_init config))" "sent_inv [] (l_actor (run_broker_init config)) []"
    by (simp_all add: origin_inv_def sent_inv_def pending_data_def run_broker_init_def broker_new_def)
  obtain lost where inv: "loop_inv lost m" using run_accounts [OF pre run_broker_init_inv] by auto
  have origin: "origin_inv (run_received before) (l_actor m)" using run_origin [OF pre run_broker_init_inv init(1)] by simp
  have sent: "sent_inv (run_outputs before) (l_actor m) []" using run_sent [OF pre run_broker_init_inv init(2)] by simp
  from loop_step_origin [OF step inv origin, of ch bs] rep obtain cmd fresh where b: "b = CommandReceived cmd fresh"
    and ans: "answers (l_actor m) cmd ch bs" by blast
  from ans obtain sid i k p w where cmd: "cmd = CmdResponse sid i k bs" and p: "(i, p) \<in> set (pending (a_state (l_actor m)))"
    "pr_state p = InFlight sid k" and w: "(i, w) \<in> set (a_waiters (l_actor m))" "w_response w = ch"
    unfolding answers_def by blast
  from origin pending_dataI [OF p(1)] w obtain request where r: "(i, request) \<in> run_received before"
    "pq_response request = ch" "pr_packet p = pq_packet request" "pr_context p = pq_context request"
    unfolding origin_inv_def by metis
  from r(1) obtain t y where "(LocalRequest request i t, y) \<in> set before" by (rule run_receivedE)
  moreover have "\<exists>outbound. a_remote (l_actor m) = Some (sid, outbound) \<and> OutRemote outbound (request_message i k p) \<in> set (run_outputs before)"
    using sent [unfolded sent_inv_def, rule_format, OF conjI, OF p] by auto
  ultimately show ?thesis
    using ls r(2) pre unfolding request_message_def r(3,4) b cmd by blast
qed

text \<open>
  No caller is given anything but the client's answer to its own request. Along any run of
  the broker, a packet that is sent on a caller's channel was received from the client in a
  response to some request and attempt; before that response the loop had received exactly
  that request from that caller, and had put it, with that attempt and with the caller's
  packet and context unchanged, on the channel of a session.
\<close>

lemma reply_authentic:
  assumes "runs loop_step (run_broker_init config) ls l" and "(ch, Ok bs) \<in> set (replies (run_outputs ls))"
  shows "\<exists>before sid i k fresh x after request t y outbound requested_at deadline.
    ls = before @ (CommandReceived (CmdResponse sid i k bs) fresh, x) # after
    \<and> (LocalRequest request i t, y) \<in> set before \<and> pq_response request = ch
    \<and> OutRemote outbound (RcRequest i k requested_at deadline (pq_packet request) (pq_context request)) \<in> set (run_outputs before)"
  using reply_origin [OF assms] by blast

abbreviation ex_answer_label :: loop_label where
  "ex_answer_label \<equiv>
     (CommandReceived (CmdResponse 7 1 1 [9]) 8, 20, (\<lambda>_ _. True), [OutAbort 1, OutReply 40 (Ok [9])])"

lemma ex_answer_run: "\<exists>l. runs loop_step (run_broker_init ex_config) (ex_labels @ [ex_answer_label]) l"
proof -
  obtain l where "select_step (\<lambda>_ _. True) ex_serving (CommandReceived (CmdResponse 7 1 1 [9]) 8) 20
      = Some (l, [OutAbort 1, OutReply 40 (Ok [9])])"
    by (simp add: loop_unfold ex_loop_defs remote_response_event_def)
  then have "loop_step ex_serving ex_answer_label l" by (intro loop_step) (simp_all add: ex_loop_defs)
  with ex_run show ?thesis by (auto simp: runs_append runs_Cons_iff)
qed

end
