(* ===== verification/Gateway.thy ===== *)
theory Gateway
  imports Listener Broker_Reply
begin

text \<open>
  The composition of one connection of the SSH-agent socket with the broker: the requests
  that the connection submits are received by the broker loop, and what the loop sends on
  their reply channels is what the connection writes. Other connections submit requests of
  their own.
\<close>

section \<open>The composed system\<close>

text \<open>
  \<open>submit\<close> creates the reply channel of the request; its number is that of the child token,
  since both belong to this one request.
\<close>

definition submitted_request :: "bytes \<Rightarrow> request_context option \<Rightarrow> nat \<Rightarrow> packet_request" where
  "submitted_request packet ctx token =
     \<lparr>pq_packet = packet, pq_context = ctx, pq_response = token, pq_cancellation = token\<rparr>"

text \<open>The tokens and channels used so far, those submitted, and the messages in the reply channels.\<close>

record gateway =
  g_watch :: identity_watch
  g_conn :: connection
  g_loop :: broker_loop
  g_tokens :: "nat set"
  g_submitted :: "nat set"
  g_replies :: "(nat \<times> (request_error + bytes)) list"

definition gateway_init :: "broker_config \<Rightarrow> identity_watch \<Rightarrow> connection_router \<Rightarrow> gateway" where
  "gateway_init config w r =
     \<lparr>g_watch = w, g_conn = connection_new r, g_loop = run_broker_init config,
      g_tokens = {}, g_submitted = {}, g_replies = []\<rparr>"

datatype gateway_label = GwConn connection_label | GwLoop loop_label

text \<open>What the \<open>submit\<close> future of a request may return: its reply, or that there is none.\<close>

fun submit_returns :: "gateway \<Rightarrow> routed_response \<Rightarrow> request_error + bytes \<Rightarrow> bool" where
  "submit_returns g (ReadyResponse _) outcome = True"
| "submit_returns g (SubmitRequest _ _ token) outcome =
     (outcome = submit_outcome (token \<in> g_submitted g) None
      \<or> (\<exists>r. (token, r) \<in> set (g_replies g) \<and> outcome = submit_outcome (token \<in> g_submitted g) (Some r)))"

text \<open>
  The identities \<open>own\<close> are those of this connection. A request of the connection is taken from
  its response queue, once; any other turn of the broker concerns other requests.
\<close>

inductive gateway_step ::
  "('req, 'cred) ssh_lib \<Rightarrow> (rstring \<Rightarrow> uuid option) \<Rightarrow> nat set \<Rightarrow> gateway \<Rightarrow> gateway_label \<Rightarrow> gateway \<Rightarrow> bool"
  for lib parse_str own where
  gw_published: "gateway_step lib parse_str own g (GwConn (Published v)) (g\<lparr>g_watch := watch_send v (g_watch g)\<rparr>)"
| gw_frame: "token \<in> own \<Longrightarrow> token \<notin> g_tokens g \<Longrightarrow>
    connection_step lib parse_str (g_watch g, g_conn g) (Selected (FrameArrived frame token) failure written queued) (g_watch g, c) \<Longrightarrow>
    gateway_step lib parse_str own g (GwConn (Selected (FrameArrived frame token) failure written queued))
      (g\<lparr>g_conn := c, g_tokens := insert token (g_tokens g)\<rparr>)"
| gw_response: "cn_responses (g_conn g) = response # rest \<Longrightarrow> submit_returns g response outcome \<Longrightarrow>
    connection_step lib parse_str (g_watch g, g_conn g) (Selected (ResponseReady outcome) failure written queued) (g_watch g, c) \<Longrightarrow>
    gateway_step lib parse_str own g (GwConn (Selected (ResponseReady outcome) failure written queued)) (g\<lparr>g_conn := c\<rparr>)"
| gw_submit: "SubmitRequest packet ctx token \<in> set (cn_responses (g_conn g)) \<Longrightarrow> token \<notin> g_submitted g \<Longrightarrow>
    loop_step (g_loop g) (LocalRequest (submitted_request packet ctx token) i t, now, send_ok, outs) l \<Longrightarrow>
    gateway_step lib parse_str own g (GwLoop (LocalRequest (submitted_request packet ctx token) i t, now, send_ok, outs))
      (g\<lparr>g_loop := l, g_submitted := insert token (g_submitted g), g_replies := g_replies g @ replies outs\<rparr>)"
| gw_broker: "(\<And>request i t. b = LocalRequest request i t \<Longrightarrow> pq_response request \<notin> own) \<Longrightarrow>
    loop_step (g_loop g) (b, now, send_ok, outs) l \<Longrightarrow>
    gateway_step lib parse_str own g (GwLoop (b, now, send_ok, outs)) (g\<lparr>g_loop := l, g_replies := g_replies g @ replies outs\<rparr>)"

fun conn_labels :: "gateway_label list \<Rightarrow> connection_label list" where
  "conn_labels [] = []"
| "conn_labels (GwConn l # ls) = l # conn_labels ls"
| "conn_labels (GwLoop _ # ls) = conn_labels ls"

fun loop_labels :: "gateway_label list \<Rightarrow> loop_label list" where
  "loop_labels [] = []"
| "loop_labels (GwConn _ # ls) = loop_labels ls"
| "loop_labels (GwLoop l # ls) = l # loop_labels ls"

lemma labels_append [simp]:
  "conn_labels (xs @ ys) = conn_labels xs @ conn_labels ys" "loop_labels (xs @ ys) = loop_labels xs @ loop_labels ys"
proof -
  show "conn_labels (xs @ ys) = conn_labels xs @ conn_labels ys" by (induction xs rule: conn_labels.induct) auto
  show "loop_labels (xs @ ys) = loop_labels xs @ loop_labels ys" by (induction xs rule: loop_labels.induct) auto
qed

lemma runs_snoc: "runs step s (ls @ [l]) u \<longleftrightarrow> (\<exists>t. runs step s ls t \<and> step t l u)"
  by (simp add: runs_append runs_Cons_iff)

text \<open>A run of the composition is a run of each part.\<close>

lemma gateway_conn_run:
  "runs (gateway_step lib parse_str own) g ls g' \<Longrightarrow>
     runs (connection_step lib parse_str) (g_watch g, g_conn g) (conn_labels ls) (g_watch g', g_conn g')"
proof (induction rule: runs.induct)
  case (runs_Cons g l g1 ls g')
  from runs_Cons.hyps(1) show ?case
    by (cases rule: gateway_step.cases) (use runs_Cons.IH in \<open>auto intro: runs.runs_Cons connection_step.conn_published\<close>)
qed (simp add: runs_Nil)

lemma gateway_loop_run:
  "runs (gateway_step lib parse_str own) g ls g' \<Longrightarrow> runs loop_step (g_loop g) (loop_labels ls) (g_loop g')"
proof (induction rule: runs.induct)
  case (runs_Cons g l g1 ls g')
  from runs_Cons.hyps(1) show ?case
    by (cases rule: gateway_step.cases) (use runs_Cons.IH in \<open>auto intro: runs.runs_Cons\<close>)
qed (simp add: runs_Nil)

section \<open>What a run of the composition keeps\<close>

definition own_tokens :: "nat set \<Rightarrow> gateway \<Rightarrow> routed_response list \<Rightarrow> bool" where
  "own_tokens own g queued \<longleftrightarrow> g_tokens g \<subseteq> own
     \<and> (\<forall>q ctx token. SubmitRequest q ctx token \<in> set queued \<longrightarrow> token \<in> g_tokens g)
     \<and> (\<forall>q ctx q' ctx' token. SubmitRequest q ctx token \<in> set queued \<and> SubmitRequest q' ctx' token \<in> set queued \<longrightarrow> q' = q \<and> ctx' = ctx)"

definition own_requests :: "nat set \<Rightarrow> loop_label list \<Rightarrow> routed_response list \<Rightarrow> bool" where
  "own_requests own labels queued \<longleftrightarrow>
     (\<forall>request i t x. (LocalRequest request i t, x) \<in> set labels \<and> pq_response request \<in> own \<longrightarrow>
        SubmitRequest (pq_packet request) (pq_context request) (pq_response request) \<in> set queued)"

definition own_outcomes :: "(nat \<times> (request_error + bytes)) list \<Rightarrow> routed_response list \<Rightarrow> (request_error + bytes) list \<Rightarrow> bool" where
  "own_outcomes sent queued outcomes \<longleftrightarrow>
     (\<forall>n q ctx token bs. n < length outcomes \<and> queued ! n = SubmitRequest q ctx token \<and> outcomes ! n = Ok bs \<longrightarrow>
        (token, Ok bs) \<in> set sent)"

definition gw_inv :: "nat set \<Rightarrow> gateway_label list \<Rightarrow> gateway \<Rightarrow> bool" where
  "gw_inv own ls g \<longleftrightarrow>
     g_replies g = replies (run_outputs (loop_labels ls))
     \<and> own_tokens own g (run_queued (conn_labels ls))
     \<and> own_requests own (loop_labels ls) (run_queued (conn_labels ls))
     \<and> own_outcomes (replies (run_outputs (loop_labels ls))) (run_queued (conn_labels ls)) (run_outcomes (conn_labels ls))"

lemma own_outcomes_mono:
  assumes "own_outcomes sent queued outcomes" and "set sent \<subseteq> set sent'" and "length outcomes \<le> length queued"
  shows "own_outcomes sent' (queued @ new) outcomes"
  unfolding own_outcomes_def
proof (intro allI impI, elim conjE)
  fix n q ctx token bs
  assume n: "n < length outcomes" "(queued @ new) ! n = SubmitRequest q ctx token" "outcomes ! n = Ok bs"
  with assms(3) have "queued ! n = SubmitRequest q ctx token" by (simp add: nth_append)
  with assms(1,2) n show "(token, Ok bs) \<in> set sent'" unfolding own_outcomes_def by blast
qed

lemma own_outcomes_snoc:
  assumes "own_outcomes sent queued outcomes"
    and "\<And>q ctx token bs. queued ! length outcomes = SubmitRequest q ctx token \<Longrightarrow> outcome = Ok bs \<Longrightarrow> (token, Ok bs) \<in> set sent"
  shows "own_outcomes sent queued (outcomes @ [outcome])"
  using assms unfolding own_outcomes_def by (auto simp: nth_append less_Suc_eq)

lemma submit_outcome_Ok: "submit_outcome sent answer = Ok bs \<Longrightarrow> answer = Some (Ok bs)"
  by (auto simp: submit_outcome_def split: if_splits option.splits)

lemma frame_queued:
  assumes "connection_step lib parse_str (w, c) (Selected (FrameArrived frame token) failure written queued) (w, c')"
  shows "queued = [] \<or> (\<exists>response. queued = [response] \<and> (\<forall>q ctx tk. response = SubmitRequest q ctx tk \<longrightarrow> tk = token))"
  using assms by (cases rule: connection_stepE) (auto dest: route_context(4))

lemma response_queued:
  "connection_step lib parse_str s (Selected (ResponseReady outcome) failure written queued) t \<Longrightarrow> queued = []"
  by (auto elim: connection_step.cases)

text \<open>A turn of the broker keeps the invariant if the requests it has received are still accounted for.\<close>

lemma gw_inv_loop:
  assumes "gw_inv own ls g" and "length (run_outcomes (conn_labels ls)) \<le> length (run_queued (conn_labels ls))"
    and "own_requests own (loop_labels ls @ [(b, now, send_ok, outs)]) (run_queued (conn_labels ls))"
    and "g_replies g' = g_replies g @ replies outs" and "g_tokens g' = g_tokens g"
  shows "gw_inv own (ls @ [GwLoop (b, now, send_ok, outs)]) g'"
proof -
  note inv = assms(1) [unfolded gw_inv_def]
  have "own_outcomes (replies (run_outputs (loop_labels ls)) @ replies outs) (run_queued (conn_labels ls) @ []) (run_outcomes (conn_labels ls))"
    using inv assms(2) by (intro own_outcomes_mono) auto
  with inv assms(3-5) show ?thesis by (simp add: gw_inv_def own_tokens_def)
qed

lemma gw_inv_step:
  assumes "gw_inv own ls g" and "gateway_step lib parse_str own g l g'"
    and queue: "run_queued (conn_labels ls) = finished @ cn_responses (g_conn g)" "length finished = length (run_outcomes (conn_labels ls))"
  shows "gw_inv own (ls @ [l]) g'"
  using assms(2)
proof (cases rule: gateway_step.cases)
  case (gw_published v)
  with assms(1) show ?thesis by (simp add: gw_inv_def own_tokens_def)
next
  case (gw_frame token frame failure written queued c)
  note inv = assms(1) [unfolded gw_inv_def]
  from frame_queued [OF gw_frame(5)] have
    "own_tokens own (g\<lparr>g_conn := c, g_tokens := insert token (g_tokens g)\<rparr>) (run_queued (conn_labels ls) @ queued)"
    using inv gw_frame(3,4) unfolding own_tokens_def by (elim conjE disjE exE) (auto, blast+)
  moreover have "own_requests own (loop_labels ls) (run_queued (conn_labels ls) @ queued)"
    using inv unfolding own_requests_def by auto
  moreover have "own_outcomes (replies (run_outputs (loop_labels ls))) (run_queued (conn_labels ls) @ queued) (run_outcomes (conn_labels ls))"
    using inv by (intro own_outcomes_mono) (auto simp: queue)
  ultimately show ?thesis using inv by (simp add: gw_frame(1,2) gw_inv_def)
next
  case (gw_response response rest outcome failure written queued c)
  note inv = assms(1) [unfolded gw_inv_def]
  have "queued = []" using response_queued [OF gw_response(5)] .
  moreover have "own_outcomes (replies (run_outputs (loop_labels ls))) (run_queued (conn_labels ls)) (run_outcomes (conn_labels ls) @ [outcome])"
  proof (rule own_outcomes_snoc)
    fix q ctx token bs
    assume "run_queued (conn_labels ls) ! length (run_outcomes (conn_labels ls)) = SubmitRequest q ctx token" "outcome = Ok bs"
    moreover from this have "response = SubmitRequest q ctx token" by (simp add: queue gw_response(3) nth_append flip: queue(2))
    ultimately have "(token, Ok bs) \<in> set (g_replies g)"
      using gw_response(4) by (auto dest: submit_outcome_Ok sym [of "Ok _"])
    then show "(token, Ok bs) \<in> set (replies (run_outputs (loop_labels ls)))" using inv by simp
  qed (use inv in simp)
  ultimately show ?thesis using inv by (simp add: gw_response(1,2) gw_inv_def own_tokens_def)
next
  case (gw_submit packet ctx token i t now send_ok outs l')
  have "SubmitRequest packet ctx token \<in> set (run_queued (conn_labels ls))" using gw_submit(3) by (simp add: queue)
  then have "own_requests own (loop_labels ls @ [(LocalRequest (submitted_request packet ctx token) i t, now, send_ok, outs)])
      (run_queued (conn_labels ls))"
    using assms(1) unfolding gw_inv_def own_requests_def by (auto simp: submitted_request_def) blast
  from gw_inv_loop [OF assms(1) _ this] show ?thesis by (simp add: gw_submit(1,2) queue)
next
  case (gw_broker b now send_ok outs l')
  have "own_requests own (loop_labels ls @ [(b, now, send_ok, outs)]) (run_queued (conn_labels ls))"
    using assms(1) gw_broker(3) unfolding gw_inv_def own_requests_def by auto blast
  from gw_inv_loop [OF assms(1) _ this] show ?thesis by (simp add: gw_broker(1,2) queue)
qed

lemma conn_queue:
  assumes "runs (gateway_step lib parse_str own) (gateway_init config w0 r0) ls g"
  obtains finished where "run_queued (conn_labels ls) = finished @ cn_responses (g_conn g)"
    and "list_all2 resolves finished (run_outcomes (conn_labels ls))"
proof -
  have "runs (connection_step lib parse_str) (w0, connection_new r0) (conn_labels ls) (g_watch g, g_conn g)"
    using gateway_conn_run [OF assms] by (simp add: gateway_init_def)
  from run_in_order [OF this] that show thesis by (auto simp: connection_new_def)
qed

lemma gateway_run_inv:
  "runs (gateway_step lib parse_str own) (gateway_init config w0 r0) ls g \<Longrightarrow> gw_inv own ls g"
proof (induction ls arbitrary: g rule: rev_induct)
  case Nil
  then show ?case by (simp add: gw_inv_def gateway_init_def own_tokens_def own_requests_def own_outcomes_def)
next
  case (snoc l ls)
  then obtain g1 where pre: "runs (gateway_step lib parse_str own) (gateway_init config w0 r0) ls g1"
    and step: "gateway_step lib parse_str own g1 l g" by (auto simp: runs_snoc)
  from pre obtain finished where "run_queued (conn_labels ls) = finished @ cn_responses (g_conn g1)"
    and "list_all2 resolves finished (run_outcomes (conn_labels ls))" by (rule conn_queue)
  with gw_inv_step [OF snoc.IH [OF pre] step] show ?case by (auto dest: list_all2_lengthD)
qed

section \<open>Answers\<close>

text \<open>
  End to end, the phone's answer reaches the caller that asked, and nothing else does. In
  any run of a socket connection beside the broker, with any other connections, sessions and
  failures, suppose the \<open>n\<close>-th packet of the connection was submitted and its result is a
  success. Then that result is byte for byte what the remote client sent in response to a
  message that carried exactly the \<open>n\<close>-th packet and the context that the connection
  announced; and while the connection is open the bytes on the socket are the answers in the
  order of the packets.
\<close>

lemma gateway_answers_are_the_clients:
  assumes "connection_router_new lib w0 seen = Ok r0"
    and "runs (gateway_step lib parse_str own) (gateway_init config w0 r0) ls g"
    and "n < length (run_outcomes (conn_labels ls))"
    and "run_queued (conn_labels ls) ! n = SubmitRequest q ctx token" and "run_outcomes (conn_labels ls) ! n = Ok bs"
  shows "q = run_packets (conn_labels ls) ! n
    \<and> ctx = (case run_packets (conn_labels ls) of [] \<Rightarrow> None
        | first # _ \<Rightarrow> (case decode parse_str first of Inr (Some announced) \<Rightarrow> Some announced | _ \<Rightarrow> None))
    \<and> (\<exists>before sid i k fresh x after outbound requested_at deadline m.
         loop_labels ls = before @ (CommandReceived (CmdResponse sid i k bs) fresh, x) # after
         \<and> OutRemote outbound (RcRequest i k requested_at deadline q ctx) \<in> set (run_outputs before)
         \<and> runs loop_step (run_broker_init config) before m \<and> a_remote (l_actor m) = Some (sid, outbound))
    \<and> (cn_open (g_conn g) \<longrightarrow> run_written (conn_labels ls) = concat (map answer_frame (run_outcomes (conn_labels ls))))"
proof -
  let ?cs = "conn_labels ls" and ?ks = "loop_labels ls"
  have conn: "runs (connection_step lib parse_str) (w0, connection_new r0) ?cs (g_watch g, g_conn g)"
    using gateway_conn_run [OF assms(2)] by (simp add: gateway_init_def)
  have loop: "runs loop_step (run_broker_init config) ?ks (g_loop g)"
    using gateway_loop_run [OF assms(2)] by (simp add: gateway_init_def)
  note inv = gateway_run_inv [OF assms(2), unfolded gw_inv_def]
  from assms(2) obtain finished where "run_queued ?cs = finished @ cn_responses (g_conn g)"
    "list_all2 resolves finished (run_outcomes ?cs)" by (rule conn_queue)
  with assms(3) have n: "n < length (run_queued ?cs)" by (auto dest: list_all2_lengthD)
  with assms(4) have mem: "SubmitRequest q ctx token \<in> set (run_queued ?cs)" by (metis nth_mem)
  have q: "q = run_packets ?cs ! n"
    using queued_matches_packets [OF conn] n assms(4) by (auto simp: list_all2_conv_all_nth)
  have "(token, Ok bs) \<in> set (replies (run_outputs ?ks))"
    using inv assms(3-5) unfolding own_outcomes_def by blast
  from reply_origin [OF loop this] obtain before sid i k fresh x after request t y outbound requested_at deadline m where
    ks: "?ks = before @ (CommandReceived (CmdResponse sid i k bs) fresh, x) # after"
    and req: "(LocalRequest request i t, y) \<in> set before" "pq_response request = token"
    and out: "OutRemote outbound (RcRequest i k requested_at deadline (pq_packet request) (pq_context request)) \<in> set (run_outputs before)"
    and m: "runs loop_step (run_broker_init config) before m" "a_remote (l_actor m) = Some (sid, outbound)"
    by blast
  have "token \<in> own" using inv mem unfolding own_tokens_def by blast
  moreover have "(LocalRequest request i t, y) \<in> set ?ks" using req(1) by (simp add: ks)
  ultimately have "SubmitRequest (pq_packet request) (pq_context request) token \<in> set (run_queued ?cs)"
    using inv req(2) unfolding own_requests_def by blast
  with inv mem have same: "pq_packet request = q" "pq_context request = ctx" unfolding own_tokens_def by blast+
  have "OutRemote outbound (RcRequest i k requested_at deadline q ctx) \<in> set (run_outputs before)"
    using out by (simp add: same)
  moreover have "cn_open (g_conn g) \<longrightarrow> run_written ?cs = concat (map answer_frame (run_outcomes ?cs))"
    using run_in_order [OF conn] by (auto simp: connection_new_def)
  ultimately show ?thesis using q ks m queued_requests_carry_context [OF assms(1) conn mem] by blast
qed

text \<open>A request on a plain connection, and its answer.\<close>

abbreviation ex_sign :: bytes where "ex_sign \<equiv> [0, 0, 0, 1, 13]"

abbreviation ex_plain :: connection_router where "ex_plain \<equiv> ex_router\<lparr>cr_accepts_context := False\<rparr>"

lemma ex_route_plain:
  "route ex_ssh_lib (\<lambda>_. Some 5) ex_watch ex_router ex_sign 40 = (ex_plain, Ok (SubmitRequest ex_sign None 40))"
  by (simp add: route_def refresh_identity_answer_def has_changed_def ex_watch_def ex_router_def decode_def
      decoder_packet_payload ex_payload take_u8_def take_bytes_def slice_get_def SSH_AGENTC_EXTENSION_def
      route_packet_def is_identity_request_def is_openssh_session_bind_request_def ex_ssh_lib_def)

lemma ex_frame_step:
  "connection_step ex_ssh_lib (\<lambda>_. Some 5) (ex_watch, connection_new ex_router)
     (Selected (FrameArrived (Some (Ok ex_sign)) 40) None [] [SubmitRequest ex_sign None 40])
     (ex_conn ex_plain [SubmitRequest ex_sign None 40])"
  by (rule conn_selectedI) (simp_all add: connection_new_def ex_route_plain MAX_PIPELINED_REQUESTS_def)

lemma ex_answer_step:
  "connection_step ex_ssh_lib (\<lambda>_. Some 5) (ex_conn ex_plain [SubmitRequest ex_sign None 40])
     (Selected (ResponseReady (Ok [9])) None [9] []) (ex_conn ex_plain [])"
  by (rule conn_selectedI) (simp_all add: write_all_def answer_frame_def)

abbreviation ex_cancel :: "broker_loop \<Rightarrow> broker_loop" where "ex_cancel l \<equiv> l\<lparr>l_cancellations := [(1, 40)]\<rparr>"

end
