(* ===== verification/Daemon.thy ===== *)
theory Daemon
  imports Control Config Assets Session_Props Gateway
begin

unbundle bit_operations_syntax

text \<open>
  \<open>daemon.rs\<close>: the start of the daemon from a configuration, the supervision of its tasks and
  its end. A failed start drops what has been bound; when the process ends, the runtime
  drops the tasks that are left, and with them the sockets they own.
\<close>

section \<open>Start\<close>

text \<open>\<open>Arc<dyn PairingStore>\<close>: a file or memory.\<close>

datatype daemon_store = FileStore file_store | MemoryStore "pairing_state option"

fun store_load :: "io_env \<Rightarrow> daemon_store \<Rightarrow> store_error + pairing_state option" where
  "store_load env (FileStore st) = file_load env st"
| "store_load env (MemoryStore st) = memory_load st"

fun store_save :: "io_env \<Rightarrow> daemon_store save_op" where
  "store_save env (FileStore st) state = map_prod FileStore id (file_save env st state)"
| "store_save env (MemoryStore st) state = map_prod MemoryStore id (memory_save st state)"

text \<open>
  What the daemon finds: the key file, the state file behind each path, and the file system
  of the sockets. The environment decides the calls of each part of the start.
\<close>

record daemon_world =
  dw_key_file :: "key_file option"
  dw_state_file :: "path \<Rightarrow> file_store"
  dw_fs :: file_system

record daemon_env =
  de_key :: key_env
  de_store :: io_env
  de_new_id :: uuid
  de_agent :: sock_env
  de_control :: sock_env
  de_http_fails :: bool

datatype daemon_error =
    DaemonKey key_error
  | DaemonPairing open_error
  | DaemonSocket agent_socket_error
  | DaemonControl control_bind_error
  | DaemonHttp
  | DaemonIdentities identity_error

definition BROKER_REQUEST_CHANNEL_CAPACITY :: nat where "BROKER_REQUEST_CHANNEL_CAPACITY = 1"

definition MAX_MESSAGE_OVERHEAD :: nat where "MAX_MESSAGE_OVERHEAD = 32 * 1024"

text \<open>The parts that are running once the tasks have been spawned.\<close>

record 'key daemon =
  dm_vapid :: 'key
  dm_vapid_public_key :: bytes
  dm_pairing :: "daemon_store pairing_service"
  dm_push_ttl :: nat
  dm_socket :: agent_socket
  dm_control :: control_socket
  dm_broker :: broker_loop
  dm_request_router :: nat
  dm_remote_capacity :: nat
  dm_max_message_size :: nat
  dm_frontend_dsn :: "rstring option"

definition open_store :: "config \<Rightarrow> daemon_world \<Rightarrow> daemon_store" where
  "open_store c w = (case state_path c of Some p \<Rightarrow> FileStore (dw_state_file w p) | None \<Rightarrow> MemoryStore None)"

text \<open>What a store has written is what the next daemon finds; memory is lost.\<close>

definition keep_store :: "config \<Rightarrow> daemon_store \<Rightarrow> daemon_world \<Rightarrow> daemon_world" where
  "keep_store c store w =
     (case (state_path c, store) of
        (Some p, FileStore st) \<Rightarrow> w\<lparr>dw_state_file := (dw_state_file w)(p := st)\<rparr>
      | _ \<Rightarrow> w)"

definition drop_sockets :: "daemon_env \<Rightarrow> agent_socket \<Rightarrow> control_socket \<Rightarrow> file_system \<Rightarrow> file_system" where
  "drop_sockets env socket control fs =
     agent_socket_drop (de_agent env) socket (control_socket_drop (de_control env) control fs)"

text \<open>The two sockets and the HTTP listener; variables are dropped in the reverse order.\<close>

definition bind_listeners ::
  "daemon_env \<Rightarrow> config \<Rightarrow> file_system \<Rightarrow> file_system \<times> (daemon_error + agent_socket \<times> control_socket)" where
  "bind_listeners env c fs =
     (case agent_socket_bind (de_agent env) (unix_socket c) (socket_mode c) (max_agent_packet_size c) fs of
        (fs, Inl e) \<Rightarrow> (fs, Err (DaemonSocket e))
      | (fs, Inr socket) \<Rightarrow>
     (case control_socket_bind (de_control env) (control_socket_path c) (control_socket_mode c) fs of
        (fs, Inl e) \<Rightarrow> (agent_socket_drop (de_agent env) socket fs, Err (DaemonControl e))
      | (fs, Inr control) \<Rightarrow>
          if de_http_fails env then (drop_sockets env socket control fs, Err DaemonHttp)
          else (fs, Ok (socket, control))))"

text \<open>
  \<open>run\<close> up to the point where the tasks run; \<^term>\<open>None\<close> while the random source has not yet
  produced a key. The limits of a WebSocket message and of the broker come from the
  configuration.
\<close>

definition daemon_start ::
  "('req, 'cred) ssh_lib \<Rightarrow> 'key p256_lib \<Rightarrow> daemon_env \<Rightarrow> config \<Rightarrow> daemon_world \<Rightarrow>
     (daemon_world \<times> (daemon_error + 'key daemon)) option" where
  "daemon_start lib key_lib env c w =
     (case open_key key_lib (de_key env) (vapid_private_key_file c) (dw_key_file w) of
        None \<Rightarrow> None
      | Some (key_file, Inl e) \<Rightarrow> Some (w\<lparr>dw_key_file := key_file\<rparr>, Err (DaemonKey e))
      | Some (key_file, Inr vapid) \<Rightarrow>
     (let w = w\<lparr>dw_key_file := key_file\<rparr> in
      case service_open lib (store_load (de_store env)) (store_save (de_store env)) (open_store c w) (de_new_id env) of
        (store, Inl e) \<Rightarrow> Some (keep_store c store w, Err (DaemonPairing e))
      | (store, Inr pairing) \<Rightarrow>
     (let w = keep_store c store w; identities = w_version (sv_identities pairing) in
      case bind_listeners env c (dw_fs w) of
        (fs, Inl e) \<Rightarrow> Some (w\<lparr>dw_fs := fs\<rparr>, Err e)
      | (fs, Inr (socket, control)) \<Rightarrow>
     (case request_router_new lib (sv_identities pairing) identities of
        Inl e \<Rightarrow> Some (w\<lparr>dw_fs := drop_sockets env socket control fs\<rparr>, Err (DaemonIdentities e))
      | Inr router \<Rightarrow>
          Some (w\<lparr>dw_fs := fs\<rparr>,
            Ok \<lparr>dm_vapid = vapid, dm_vapid_public_key = public_key key_lib vapid, dm_pairing = pairing, dm_push_ttl = push_ttl (cfg_request_timeout c),
                dm_socket = socket, dm_control = control,
                dm_broker = run_broker_init \<lparr>request_timeout = cfg_request_timeout c,
                  bc_max_pending_requests = cfg_max_pending_requests c\<rparr>,
                dm_request_router = router, dm_remote_capacity = remote_capacity c,
                dm_max_message_size = max_agent_packet_size c + 4 + MAX_MESSAGE_OVERHEAD,
                dm_frontend_dsn = sentry_frontend_dsn c\<rparr>)))))"

section \<open>Supervision\<close>

datatype daemon_task = SocketTask | WebTask | ControlTask | BrokerTask

text \<open>How a task ends: by a panic, with an error, or normally. The broker's returns no error.\<close>

datatype task_end = Panicked | Failed | Finished

text \<open>
  What ends \<open>wait_for_shutdown\<close>: Ctrl-C, unless its handler cannot be installed, or the
  termination signal.
\<close>

datatype shutdown_signal = CtrlC bool | Terminate

datatype first_event = SignalReceived bool shutdown_signal | TaskEndedFirst daemon_task

datatype daemon_action = CancelShutdown | ShutdownBroker | Joined daemon_task

datatype run_error = SignalSetup | TaskFailed daemon_task | BrokerStopped

fun wait_for_shutdown :: "bool \<Rightarrow> shutdown_signal \<Rightarrow> run_error + unit" where
  "wait_for_shutdown installed (CtrlC ok) = (if \<not> installed then Err SignalSetup else if ok then Ok () else Err SignalSetup)"
| "wait_for_shutdown installed Terminate = (if \<not> installed then Err SignalSetup else Ok ())"

text \<open>\<open>task.await.context(..)??\<close> for each task in turn.\<close>

fun join_tasks :: "(daemon_task \<Rightarrow> task_end) \<Rightarrow> daemon_task list \<Rightarrow> daemon_action list \<times> (run_error + unit)" where
  "join_tasks ends [] = ([], Ok ())"
| "join_tasks ends (task # tasks) =
     (if ends task = Finished then map_prod ((#) (Joined task)) id (join_tasks ends tasks)
      else ([Joined task], Err (TaskFailed task)))"

text \<open>The branches of the \<open>select\<close> and what follows it.\<close>

fun supervise :: "(daemon_task \<Rightarrow> task_end) \<Rightarrow> first_event \<Rightarrow> daemon_action list \<times> (run_error + unit)" where
  "supervise ends (SignalReceived installed shutdown_signal) =
     (case wait_for_shutdown installed shutdown_signal of Inl e \<Rightarrow> ([], Err e)
      | Inr _ \<Rightarrow> map_prod ((@) [CancelShutdown, ShutdownBroker]) id
             (join_tasks ends [SocketTask, WebTask, ControlTask, BrokerTask]))"
| "supervise ends (TaskEndedFirst SocketTask) =
     (if ends SocketTask \<noteq> Finished then ([Joined SocketTask], Err (TaskFailed SocketTask))
      else map_prod ((@) [Joined SocketTask, CancelShutdown, ShutdownBroker]) id
             (join_tasks ends [WebTask, ControlTask, BrokerTask]))"
| "supervise ends (TaskEndedFirst WebTask) =
     (if ends WebTask \<noteq> Finished then ([Joined WebTask], Err (TaskFailed WebTask))
      else map_prod ((@) [Joined WebTask, CancelShutdown, ShutdownBroker]) id
             (join_tasks ends [SocketTask, ControlTask, BrokerTask]))"
| "supervise ends (TaskEndedFirst ControlTask) =
     (if ends ControlTask \<noteq> Finished then ([Joined ControlTask], Err (TaskFailed ControlTask))
      else map_prod ((@) [Joined ControlTask, CancelShutdown, ShutdownBroker]) id
             (join_tasks ends [SocketTask, WebTask, BrokerTask]))"
| "supervise ends (TaskEndedFirst BrokerTask) =
     (case join_tasks ends [SocketTask, WebTask, ControlTask] of
        (actions, Inl e) \<Rightarrow> ([Joined BrokerTask, CancelShutdown] @ actions, Err e)
      | (actions, Inr _) \<Rightarrow>
          ([Joined BrokerTask, CancelShutdown] @ actions,
           Err (if ends BrokerTask \<noteq> Finished then TaskFailed BrokerTask else BrokerStopped)))"

section \<open>The whole run\<close>

datatype daemon_end = StartFailed daemon_error | Ran "run_error + unit"

text \<open>
  A task that has been joined has dropped its socket; the runtime drops the others. So the
  control socket goes first exactly if its task was joined before that of the agent socket.
  What the tasks do in between is the subject of their own theories and not part of this
  run.
\<close>

fun control_joined_first :: "daemon_action list \<Rightarrow> bool" where
  "control_joined_first [] = False"
| "control_joined_first (action # actions) =
     (if action = Joined ControlTask then True
      else if action = Joined SocketTask then False
      else control_joined_first actions)"

definition daemon_stop :: "daemon_env \<Rightarrow> daemon_action list \<Rightarrow> 'key daemon \<Rightarrow> file_system \<Rightarrow> file_system" where
  "daemon_stop env actions d fs =
     (if control_joined_first actions then drop_sockets env (dm_socket d) (dm_control d) fs
      else control_socket_drop (de_control env) (dm_control d) (agent_socket_drop (de_agent env) (dm_socket d) fs))"

definition daemon_run ::
  "('req, 'cred) ssh_lib \<Rightarrow> 'key p256_lib \<Rightarrow> daemon_env \<Rightarrow> config \<Rightarrow> daemon_world \<Rightarrow> (daemon_task \<Rightarrow> task_end) \<Rightarrow>
     first_event \<Rightarrow> (daemon_world \<times> daemon_end) option" where
  "daemon_run lib key_lib env c w ends first =
     (case daemon_start lib key_lib env c w of
        None \<Rightarrow> None
      | Some (w, Inl e) \<Rightarrow> Some (w, StartFailed e)
      | Some (w, Inr d) \<Rightarrow>
          (case supervise ends first of
             (actions, r) \<Rightarrow> Some (w\<lparr>dw_fs := daemon_stop env actions d (dw_fs w)\<rparr>, Ran r)))"

section \<open>The sockets over a run\<close>

text \<open>Nobody interferes, and the guard of a bound socket can inspect and remove its file.\<close>

definition quiet :: "sock_env \<Rightarrow> bool" where
  "quiet env \<longleftrightarrow> alone env \<and> \<not> sk_fails env ScDropInspect \<and> \<not> sk_fails env ScDropRemove"

lemma quiet_alone: "quiet env \<Longrightarrow> alone env"
  by (simp add: quiet_def)

context socket_owner
begin

lemma bind_free: "alone env \<Longrightarrow> bind env p mode fs = (fs', Ok s) \<Longrightarrow> \<not> in_use fs p"
  using bind_in_use [of env fs p mode] by auto

lemma bind_keeps_use:
  assumes "alone env" and "bind env p mode fs = (fs', Ok s)" and "in_use fs q" and "q \<noteq> p"
  shows "in_use fs' q"
  using assms(3) bind_frame [OF assms(1,2,4)] bind_listening [OF assms(1,2)] by (auto simp: in_use_def)

lemma bound_in_use: "alone env \<Longrightarrow> bind env p mode fs = (fs', Ok s) \<Longrightarrow> in_use fs' p"
  by (frule (1) bind_Ok) (auto simp: in_use_def)

lemma bind_fails_cleanly:
  assumes "quiet env" and "bind env p mode fs = (fs', Err e)"
  shows "entries fs' q = entries fs q \<or> q = p \<and> \<not> in_use fs p \<and> (entries fs' p = None \<or> abandoned env fs' p)"
proof (cases "q = p")
  case True
  have "entries fs' p = entries fs p \<or> entries fs' p = None \<or> abandoned env fs' p"
    by (rule bind_Err [OF quiet_alone [OF assms(1)] assms(2)])
  moreover have "fs' = fs" if "in_use fs p"
    using bind_in_use [OF quiet_alone [OF assms(1)] that, of mode] assms(2) by auto
  ultimately show ?thesis using True by auto
next
  case False
  then show ?thesis using bind_frame [OF quiet_alone [OF assms(1)] assms(2), of q] by simp
qed

text \<open>Dropping is safe after the file system has changed elsewhere.\<close>

lemma drop_bound:
  assumes "quiet env" and "bind env p mode fs = (fs1, Ok s)" and "entries fs2 p = entries fs1 p"
  shows "entries (drop env s fs2) = (entries fs2)(p := None)"
proof (rule ext)
  fix q
  note bound = bind_Ok [OF quiet_alone [OF assms(1)] assms(2)]
  have "owned_at fs2 (owner_path s) (owner_sock s)" using bound assms(3) by (auto simp: owned_at_def)
  then have "entries (drop env s fs2) (owner_path s) = None"
    using assms(1) by (intro drop_own) (simp_all add: quiet_def)
  then show "entries (drop env s fs2) q = ((entries fs2)(p := None)) q"
    using bound drop_frame [OF quiet_alone [OF assms(1)], of q s fs2] by (cases "q = p") auto
qed

end

text \<open>The two outcomes of binding the listeners.\<close>

definition left_clean :: "daemon_env \<Rightarrow> config \<Rightarrow> file_system \<Rightarrow> file_system \<Rightarrow> bool" where
  "left_clean env c fs fs' \<longleftrightarrow> (\<forall>q. entries fs' q = entries fs q
     \<or> \<not> in_use fs q \<and> (q \<in> {unix_socket c, control_socket_path c} \<and> entries fs' q = None
          \<or> q = unix_socket c \<and> abandoned (de_agent env) fs' q
          \<or> q = control_socket_path c \<and> abandoned (de_control env) fs' q))"

definition both_bound :: "daemon_env \<Rightarrow> config \<Rightarrow> file_system \<Rightarrow> file_system \<Rightarrow> agent_socket \<Rightarrow> control_socket \<Rightarrow> bool" where
  "both_bound env c fs fs' socket control \<longleftrightarrow>
     unix_socket c \<noteq> control_socket_path c \<and> \<not> in_use fs (unix_socket c) \<and> \<not> in_use fs (control_socket_path c)
     \<and> (\<exists>fs1. agent_socket_bind (de_agent env) (unix_socket c) (socket_mode c) (max_agent_packet_size c) fs = (fs1, Ok socket)
          \<and> control_socket_bind (de_control env) (control_socket_path c) (control_socket_mode c) fs1 = (fs', Ok control))"

lemma both_boundI:
  assumes env: "quiet (de_agent env)" "quiet (de_control env)"
    and a: "agent_socket_bind (de_agent env) (unix_socket c) (socket_mode c) (max_agent_packet_size c) fs = (fs1, Ok socket)"
    and b: "control_socket_bind (de_control env) (control_socket_path c) (control_socket_mode c) fs1 = (fs2, Ok control)"
  shows "both_bound env c fs fs2 socket control"
proof -
  note alone = quiet_alone [OF env(1)] quiet_alone [OF env(2)]
  have free: "\<not> in_use fs1 (control_socket_path c)" by (rule control_sockets.bind_free [OF alone(2) b])
  moreover have "in_use fs1 (unix_socket c)" by (rule agent_sockets.bound_in_use [OF alone(1) a])
  ultimately have ne: "unix_socket c \<noteq> control_socket_path c" by auto
  moreover have "\<not> in_use fs (control_socket_path c)"
    using free ne agent_sockets.bind_keeps_use [OF alone(1) a, of "control_socket_path c"] by auto
  moreover have "\<not> in_use fs (unix_socket c)" by (rule agent_sockets.bind_free [OF alone(1) a])
  ultimately show ?thesis unfolding both_bound_def using a b by blast
qed

text \<open>Dropping both sockets, in either order, frees exactly the two paths.\<close>

lemma drop_both:
  assumes env: "quiet (de_agent env)" "quiet (de_control env)" and b: "both_bound env c fs fs' socket control"
  shows "entries (drop_sockets env socket control fs') = (entries fs)(unix_socket c := None, control_socket_path c := None)"
    and "entries (control_socket_drop (de_control env) control (agent_socket_drop (de_agent env) socket fs'))
      = (entries fs)(unix_socket c := None, control_socket_path c := None)"
proof -
  note alone = quiet_alone [OF env(1)] quiet_alone [OF env(2)]
  from b obtain fs1 where ne: "unix_socket c \<noteq> control_socket_path c"
    and a: "agent_socket_bind (de_agent env) (unix_socket c) (socket_mode c) (max_agent_packet_size c) fs = (fs1, Ok socket)"
    and k: "control_socket_bind (de_control env) (control_socket_path c) (control_socket_mode c) fs1 = (fs', Ok control)"
    unfolding both_bound_def by blast
  have e1: "entries fs' q = entries fs1 q" if "q \<noteq> control_socket_path c" for q
    by (rule control_sockets.bind_frame [OF alone(2) k that])
  have e0: "entries fs1 q = entries fs q" if "q \<noteq> unix_socket c" for q
    by (rule agent_sockets.bind_frame [OF alone(1) a that])
  let ?fc = "control_socket_drop (de_control env) control fs'" and ?fa = "agent_socket_drop (de_agent env) socket fs'"
  have c1: "entries ?fc = (entries fs')(control_socket_path c := None)" by (rule control_sockets.drop_bound [OF env(2) k refl])
  have "entries (agent_socket_drop (de_agent env) socket ?fc) = (entries ?fc)(unix_socket c := None)"
    by (rule agent_sockets.drop_bound [OF env(1) a]) (use c1 e1 ne in simp)
  then show "entries (drop_sockets env socket control fs') = (entries fs)(unix_socket c := None, control_socket_path c := None)"
    unfolding drop_sockets_def using c1 e0 e1 by (auto simp: fun_eq_iff)
  have a1: "entries ?fa = (entries fs')(unix_socket c := None)"
    by (rule agent_sockets.drop_bound [OF env(1) a]) (use e1 ne in simp)
  have "entries (control_socket_drop (de_control env) control ?fa) = (entries ?fa)(control_socket_path c := None)"
    by (rule control_sockets.drop_bound [OF env(2) k]) (use a1 ne in simp)
  then show "entries (control_socket_drop (de_control env) control ?fa)
      = (entries fs)(unix_socket c := None, control_socket_path c := None)"
    using a1 e0 e1 by (auto simp: fun_eq_iff)
qed

lemma both_freed:
  assumes "both_bound env c fs fs' socket control"
    and "entries fs2 = (entries fs)(unix_socket c := None, control_socket_path c := None)"
  shows "left_clean env c fs fs2"
  using assms unfolding left_clean_def both_bound_def by auto

lemma control_failure_clean:
  assumes env: "quiet (de_agent env)" "quiet (de_control env)"
    and a: "agent_socket_bind (de_agent env) (unix_socket c) (socket_mode c) (max_agent_packet_size c) fs = (fs1, Ok socket)"
    and k: "control_socket_bind (de_control env) (control_socket_path c) (control_socket_mode c) fs1 = (fs2, Err e)"
  shows "left_clean env c fs (agent_socket_drop (de_agent env) socket fs2)"
proof -
  note alone = quiet_alone [OF env(1)] quiet_alone [OF env(2)]
  let ?fs3 = "agent_socket_drop (de_agent env) socket fs2"
  have cf: "entries fs2 q = entries fs1 q \<or> q = control_socket_path c \<and> \<not> in_use fs1 q
      \<and> (entries fs2 q = None \<or> abandoned (de_control env) fs2 q)" for q
    using control_sockets.bind_fails_cleanly [OF env(2) k, of q] by auto
  have "entries fs2 (unix_socket c) = entries fs1 (unix_socket c)"
    using cf [of "unix_socket c"] agent_sockets.bound_in_use [OF alone(1) a] by auto
  then have d: "entries ?fs3 = (entries fs2)(unix_socket c := None)" by (rule agent_sockets.drop_bound [OF env(1) a])
  have still: "abandoned (de_control env) ?fs3 q" if "abandoned (de_control env) fs2 q" "q \<noteq> unix_socket c" for q
    using that d agent_sockets.drop_listening [OF alone(1), of socket fs2] by (auto simp: abandoned_def owned_at_def)
  show ?thesis unfolding left_clean_def
  proof (intro allI)
    fix q
    show "entries ?fs3 q = entries fs q \<or> \<not> in_use fs q \<and> (q \<in> {unix_socket c, control_socket_path c} \<and> entries ?fs3 q = None
        \<or> q = unix_socket c \<and> abandoned (de_agent env) ?fs3 q \<or> q = control_socket_path c \<and> abandoned (de_control env) ?fs3 q)"
    proof (cases "q = unix_socket c")
      case True
      then show ?thesis using agent_sockets.bind_free [OF alone(1) a] by (simp add: d)
    next
      case False
      then show ?thesis
        using cf [of q] still [of q] agent_sockets.bind_frame [OF alone(1) a False] agent_sockets.bind_keeps_use [OF alone(1) a, of q]
        by (auto simp: d)
    qed
  qed
qed

lemma bind_listeners_cases:
  assumes env: "quiet (de_agent env)" "quiet (de_control env)" and run: "bind_listeners env c fs = (fs', r)"
  shows "case r of Inl _ \<Rightarrow> left_clean env c fs fs' | Inr (socket, control) \<Rightarrow> both_bound env c fs fs' socket control"
proof -
  note alone = quiet_alone [OF env(1)] quiet_alone [OF env(2)]
  obtain fs1 ra where a: "agent_socket_bind (de_agent env) (unix_socket c) (socket_mode c) (max_agent_packet_size c) fs = (fs1, ra)"
    by fastforce
  show ?thesis
  proof (cases ra)
    case (Inl e)
    then have "fs' = fs1" "r = Err (DaemonSocket e)" using run by (simp_all add: bind_listeners_def a)
    moreover have "left_clean env c fs fs1"
      unfolding left_clean_def using agent_sockets.bind_fails_cleanly [OF env(1) a [unfolded Inl]] by blast
    ultimately show ?thesis by simp
  next
    case (Inr socket)
    note a = a [unfolded Inr]
    obtain fs2 rc where k: "control_socket_bind (de_control env) (control_socket_path c) (control_socket_mode c) fs1 = (fs2, rc)"
      by fastforce
    show ?thesis
    proof (cases rc)
      case (Inl e)
      then show ?thesis using run control_failure_clean [OF env a k [unfolded Inl]] by (auto simp: bind_listeners_def a k Inl)
    next
      case (Inr control)
      note b = both_boundI [OF env a k [unfolded Inr]]
      show ?thesis using run b both_freed [OF b drop_both(1) [OF env b]]
        by (auto simp: bind_listeners_def a k Inr split: if_splits)
    qed
  qed
qed

lemma keep_store_fs [simp]: "dw_fs (keep_store c store w) = dw_fs w"
  by (simp add: keep_store_def split: option.split daemon_store.split)

text \<open>What a start leaves of the file system, and what the daemon is made of.\<close>

lemma daemon_start_cases:
  assumes env: "quiet (de_agent env)" "quiet (de_control env)" and run: "daemon_start lib key_lib env c w = Some (w', r)"
  obtains (failed) e where "r = Err e" "left_clean env c (dw_fs w) (dw_fs w')"
  | (started) d where "r = Ok d" "both_bound env c (dw_fs w) (dw_fs w') (dm_socket d) (dm_control d)"
      "dm_broker d = run_broker_init \<lparr>request_timeout = cfg_request_timeout c, bc_max_pending_requests = cfg_max_pending_requests c\<rparr>"
      "dm_remote_capacity d = remote_capacity c"
      "dm_max_message_size d = max_agent_packet_size c + 4 + MAX_MESSAGE_OVERHEAD"
      "request_router_new lib (sv_identities (dm_pairing d)) (dm_request_router d) = Ok (dm_request_router d)"
proof -
  have same: "left_clean env c (dw_fs w) (dw_fs w)" by (simp add: left_clean_def)
  obtain key_file rk where key: "open_key key_lib (de_key env) (vapid_private_key_file c) (dw_key_file w) = Some (key_file, rk)"
    using run by (auto simp: daemon_start_def split: option.splits)
  show thesis
  proof (cases rk)
    case (Inl e)
    with run key same show thesis by (intro failed [of "DaemonKey e"]) (auto simp: daemon_start_def)
  next
    case (Inr vapid)
    let ?w = "w\<lparr>dw_key_file := key_file\<rparr>"
    obtain store rs where open_: "service_open lib (store_load (de_store env)) (store_save (de_store env)) (open_store c ?w) (de_new_id env) = (store, rs)"
      by fastforce
    show thesis
    proof (cases rs)
      case (Inl e)
      with run key Inr open_ same show thesis by (intro failed [of "DaemonPairing e"]) (auto simp: daemon_start_def)
    next
      case rs: (Inr pairing)
      obtain fs rb where bound: "bind_listeners env c (dw_fs w) = (fs, rb)" by fastforce
      note outcome = bind_listeners_cases [OF env bound]
      show thesis
      proof (cases rb)
        case (Inl e)
        with run key Inr open_ rs bound outcome show thesis by (intro failed [of e]) (auto simp: daemon_start_def)
      next
        case rb: (Inr pair)
        obtain socket control where p: "pair = (socket, control)" by fastforce
        have b: "both_bound env c (dw_fs w) fs socket control" using outcome by (simp add: rb p)
        note freed = both_freed [OF b drop_both(1) [OF env b]]
        show thesis
        proof (cases "request_router_new lib (sv_identities pairing) (w_version (sv_identities pairing))")
          case (Inl e)
          with run key Inr open_ rs bound rb p freed show thesis
            by (intro failed [of "DaemonIdentities e"]) (auto simp: daemon_start_def)
        next
          case router: (Inr seen)
          have "request_router_new lib (sv_identities pairing) seen = Ok seen"
            using router by (auto simp: request_router_new_def split: sum.splits)
          with run key Inr open_ rs bound rb p router b show thesis
            by (cases r) (auto simp: daemon_start_def intro: started)
        qed
      qed
    qed
  qed
qed

section \<open>Properties\<close>

text \<open>A world in which the default configuration starts: a stale socket, a memory store, a fresh key.\<close>

definition ex_daemon_env :: daemon_env where
  "ex_daemon_env =
     \<lparr>de_key = ex_key_env, de_store = ex_env [], de_new_id = 1, de_agent = ex_sock_env (1, 8),
      de_control = ex_sock_env (1, 9), de_http_fails = False\<rparr>"

definition ex_world :: daemon_world where
  "ex_world =
     \<lparr>dw_key_file = None,
      dw_state_file = (\<lambda>_. \<lparr>path_parent = None, path_name = None, fs_files = [],
        fs_json = \<lparr>json_encode = (\<lambda>_. None), json_decode = (\<lambda>_. None)\<rparr>\<rparr>),
      dw_fs = \<lparr>entries = [(True, [''run'', ''agent-witness'', ''agent.sock'']) \<mapsto> ex_stale],
        is_dir = (\<lambda>_. True), listening = {}\<rparr>\<rparr>"

lemma ex_quiet: "quiet (de_agent ex_daemon_env)" "quiet (de_control ex_daemon_env)"
  by (simp_all add: quiet_def ex_alone ex_daemon_env_def) (simp_all add: ex_sock_env_def)

lemma ex_open_key: "\<exists>key_file. open_key ex_p256 ex_key_env (vapid_private_key_file default_config) None = Some (key_file, Ok 9)"
proof -
  have p: "vapid_private_key_file default_config = (True, [''var'', ''lib'', ''agent-witness'', ''vapid.key''])"
    by (simp add: default_config_def)
  show ?thesis unfolding p
    by (simp add: open_key_def load_key_def create_key_def ex_key_env_def ex_p256_def Let_def numeral_eq_Suc)
qed

lemma ex_open_service: "\<exists>store sv. service_open ex_ssh_lib (store_load env) (store_save env) (MemoryStore None) 1 = (store, Ok sv)
    \<and> w_value (sv_identities sv) = None"
  by (simp add: service_open_def memory_load_def memory_save_def open_with_def state_identities_def unpaired_def Let_def)

lemmas ex_bind_defs = agent_socket_bind_def socket_bind_def control_socket_bind_def control_prepare_path_def prepare_path_def
  symlink_metadata_def connect_def remove_file_def listener_bind_def set_permissions_def identity_def

lemma ex_bind_stale:
  assumes "is_dir fs (parent_or_dot p)" and "entries fs p = Some ex_stale" and "listening fs = {}"
  shows "\<exists>fs' s. agent_socket_bind (ex_sock_env sock) p mode n fs = (fs', Ok s) \<and> is_dir fs' = is_dir fs"
  using assms by (simp add: ex_bind_defs ex_sock_env_def ex_stale_def)

lemma ex_bind_fresh:
  assumes "is_dir fs (parent_or_dot p)" and "entries fs p = None"
  shows "\<exists>fs' s. control_socket_bind (ex_sock_env sock) p mode fs = (fs', Ok s)"
  using assms by (simp add: ex_bind_defs ex_sock_env_def)

lemma ex_bind_listeners: "\<exists>fs s. bind_listeners ex_daemon_env default_config (dw_fs ex_world) = (fs, Ok s)"
proof -
  let ?c = "default_config" and ?fs = "dw_fs ex_world"
  have env: "de_agent ex_daemon_env = ex_sock_env (1, 8)" "de_control ex_daemon_env = ex_sock_env (1, 9)" "\<not> de_http_fails ex_daemon_env"
    by (simp_all add: ex_daemon_env_def)
  have fs: "entries ?fs (unix_socket ?c) = Some ex_stale" "entries ?fs (control_socket_path ?c) = None"
    "listening ?fs = {}" "is_dir ?fs q" for q
    by (simp_all add: ex_world_def default_config_def)
  obtain fs1 s where a: "agent_socket_bind (ex_sock_env (1, 8)) (unix_socket ?c) (socket_mode ?c) (max_agent_packet_size ?c) ?fs = (fs1, Ok s)"
    and d: "is_dir fs1 = is_dir ?fs" using ex_bind_stale [OF fs(4,1,3)] by blast
  have "unix_socket ?c \<noteq> control_socket_path ?c" by (simp add: default_config_def)
  then have "entries fs1 (control_socket_path ?c) = None" using agent_sockets.bind_frame [OF ex_alone a] fs(2) by simp
  then obtain fs2 k where "control_socket_bind (ex_sock_env (1, 9)) (control_socket_path ?c) (control_socket_mode ?c) fs1 = (fs2, Ok k)"
    using ex_bind_fresh fs(4) by (metis d)
  with a show ?thesis by (simp add: bind_listeners_def env)
qed

lemma ex_start_timeout:
  "\<exists>w d. daemon_start ex_ssh_lib ex_p256 ex_daemon_env (default_config\<lparr>cfg_request_timeout := timeout\<rparr>) ex_world = Some (w, Ok d)"
proof -
  let ?c = "default_config\<lparr>cfg_request_timeout := timeout\<rparr>"
  obtain store sv where sv: "service_open ex_ssh_lib (store_load (ex_env [])) (store_save (ex_env [])) (MemoryStore None) 1 = (store, Ok sv)"
    "w_value (sv_identities sv) = None" using ex_open_service by blast
  obtain key_file where key: "open_key ex_p256 ex_key_env (vapid_private_key_file default_config) None = Some (key_file, Ok 9)"
    using ex_open_key by blast
  have "bind_listeners ex_daemon_env ?c = bind_listeners ex_daemon_env default_config"
    by (simp add: bind_listeners_def fun_eq_iff cong: prod.case_cong sum.case_cong)
  then obtain fs s k where b: "bind_listeners ex_daemon_env ?c (dw_fs ex_world) = (fs, Ok (s, k))"
    using ex_bind_listeners by auto
  have "open_store ?c w = MemoryStore None" for w by (simp add: open_store_def default_config_def)
  moreover have "de_key ex_daemon_env = ex_key_env" "de_store ex_daemon_env = ex_env []" "de_new_id ex_daemon_env = 1"
    "dw_key_file ex_world = None" by (simp_all add: ex_daemon_env_def ex_world_def)
  ultimately show ?thesis
    by (simp add: daemon_start_def key sv b request_router_new_def derive_answer_def Let_def)
qed

lemma ex_start: "\<exists>w d. daemon_start ex_ssh_lib ex_p256 ex_daemon_env default_config ex_world = Some (w, Ok d)"
  using ex_start_timeout [of "cfg_request_timeout default_config"] by simp

text \<open>
  C33: what the daemon leaves of its sockets. If no other process interferes with its two socket
  paths and the guards of bound sockets can inspect and remove their files, then a daemon that
  had started leaves both paths free, whether it ends by a signal or by the end or failure of
  any of its tasks. However it ends, every path is as it was before, or it is one of the two
  configured paths, held nothing in use, and is free. There is one exception, only for a start
  that fails: if the system could not inspect the socket just bound (or could neither set its
  permissions nor remove it), that socket stays at its path, with nobody listening on it.
\<close>

theorem daemon_leaves_no_sockets:
  assumes "quiet (de_agent env)" and "quiet (de_control env)"
    and "daemon_run lib key_lib env c w ends first = Some (w', r)"
  shows "(\<forall>q. entries (dw_fs w') q = entries (dw_fs w) q
        \<or> \<not> in_use (dw_fs w) q \<and> (q \<in> {unix_socket c, control_socket_path c} \<and> entries (dw_fs w') q = None
            \<or> (\<exists>e. r = StartFailed e) \<and> (q = unix_socket c \<and> abandoned (de_agent env) (dw_fs w') q
                \<or> q = control_socket_path c \<and> abandoned (de_control env) (dw_fs w') q)))
    \<and> (\<forall>x. r = Ran x \<longrightarrow> entries (dw_fs w') (unix_socket c) = None \<and> entries (dw_fs w') (control_socket_path c) = None)"
proof -
  obtain w1 x where start: "daemon_start lib key_lib env c w = Some (w1, x)"
    using assms(3) by (auto simp: daemon_run_def split: option.splits)
  from assms(1,2) start show ?thesis
  proof (cases rule: daemon_start_cases)
    case (failed e)
    with assms(3) start have "w' = w1" "r = StartFailed e" by (simp_all add: daemon_run_def)
    with failed(2) show ?thesis by (simp add: left_clean_def)
  next
    case (started d)
    obtain actions y where sup: "supervise ends first = (actions, y)" by fastforce
    with assms(3) start started(1) have w': "w' = w1\<lparr>dw_fs := daemon_stop env actions d (dw_fs w1)\<rparr>"
      by (simp add: daemon_run_def)
    have freed: "entries (dw_fs w') = (entries (dw_fs w))(unix_socket c := None, control_socket_path c := None)"
      using drop_both [OF assms(1,2) started(2)] by (simp add: w' daemon_stop_def)
    have "entries (dw_fs w') q = entries (dw_fs w) q
        \<or> \<not> in_use (dw_fs w) q \<and> q \<in> {unix_socket c, control_socket_path c} \<and> entries (dw_fs w') q = None" for q
      using started(2) by (simp add: freed both_bound_def)
    moreover have "entries (dw_fs w') (unix_socket c) = None" "entries (dw_fs w') (control_socket_path c) = None"
      by (simp_all add: freed)
    ultimately show ?thesis by blast
  qed
qed

theorem daemon_leaves_no_sockets_witness:
  "\<exists>w. daemon_run ex_ssh_lib ex_p256 ex_daemon_env default_config ex_world (\<lambda>_. Finished) (SignalReceived True Terminate) = Some (w, Ran (Ok ()))
    \<and> entries (dw_fs w) (unix_socket default_config) = None"
proof -
  obtain w d where "daemon_start ex_ssh_lib ex_p256 ex_daemon_env default_config ex_world = Some (w, Ok d)" using ex_start by blast
  then obtain w' where
    "daemon_run ex_ssh_lib ex_p256 ex_daemon_env default_config ex_world (\<lambda>_. Finished) (SignalReceived True Terminate) = Some (w', Ran (Ok ()))"
    by (simp add: daemon_run_def)
  with daemon_leaves_no_sockets [OF ex_quiet this] show ?thesis by blast
qed

text \<open>A fresh broker takes a request and hands it to the first client.\<close>

lemma fresh_broker_serves:
  assumes "0 < timeout" and "0 < limit" and "0 < capacity" and "now' < now + timeout"
    and "instant_add now timeout \<noteq> None" and "system_time_add t timeout \<noteq> None"
  shows "\<exists>l1 l2 wake t1 t2.
    select_step (\<lambda>_ _. True) (run_broker_init \<lparr>request_timeout = timeout, bc_max_pending_requests = limit\<rparr>)
      (LocalRequest request i t) now = Some (l1, [OutWake wake])
    \<and> select_step (\<lambda>_ _. True) l1 (CommandReceived (CmdConnect capacity outbound reply) sid) now'
      = Some (l2, [OutConnect reply (Ok sid), OutRemote outbound (RcRequest i 1 t1 t2 (pq_packet request) (pq_context request))])"
proof -
  have "instant_add now timeout = Some (now + timeout)" "system_time_add t timeout = Some (t + int timeout)"
    using assms(5,6) by (auto simp: instant_add_def system_time_add_def split: if_splits)
  then show ?thesis using assms(1-4) by (simp add: loop_unfold_with)
qed

lemma both_bound_entries:
  assumes env: "quiet (de_agent env)" "quiet (de_control env)" and b: "both_bound env c fs fs' socket control"
  shows "\<exists>m. entries fs' (unix_socket c) = Some m \<and> md_kind m = KindSocket \<and> md_mode m = socket_mode c"
    and "\<exists>m. entries fs' (control_socket_path c) = Some m \<and> md_kind m = KindSocket \<and> md_mode m = control_socket_mode c"
proof -
  note alone = quiet_alone [OF env(1)] quiet_alone [OF env(2)]
  from b obtain fs1 where ne: "unix_socket c \<noteq> control_socket_path c"
    and a: "agent_socket_bind (de_agent env) (unix_socket c) (socket_mode c) (max_agent_packet_size c) fs = (fs1, Ok socket)"
    and k: "control_socket_bind (de_control env) (control_socket_path c) (control_socket_mode c) fs1 = (fs', Ok control)"
    unfolding both_bound_def by blast
  show "\<exists>m. entries fs' (unix_socket c) = Some m \<and> md_kind m = KindSocket \<and> md_mode m = socket_mode c"
    using agent_sockets.bind_Ok [OF alone(1) a] control_sockets.bind_frame [OF alone(2) k ne] by auto
  show "\<exists>m. entries fs' (control_socket_path c) = Some m \<and> md_kind m = KindSocket \<and> md_mode m = control_socket_mode c"
    using control_sockets.bind_Ok [OF alone(2) k] by auto
qed

text \<open>
  C31: a daemon that starts with a validated configuration can serve. Its two sockets have the
  configured modes, which are permission bits only; the limit for WebSocket messages fits the
  machine word; local connections are accepted; and if the clocks can represent the deadlines
  of the first request, it is taken, announced, and delivered with its packet and context to a client that connects before the request
  times out.
\<close>

theorem validated_daemon_serves:
  assumes "validate parse_dsn c = Ok ()" and "quiet (de_agent env)" and "quiet (de_control env)"
    and "daemon_start lib key_lib env c w = Some (w', Ok d)" and "now' < now + cfg_request_timeout c"
    and "instant_add now (cfg_request_timeout c) \<noteq> None" and "system_time_add t (cfg_request_timeout c) \<noteq> None"
  shows "(\<exists>m. entries (dw_fs w') (unix_socket c) = Some m \<and> md_kind m = KindSocket \<and> md_mode m = socket_mode c
        \<and> md_mode m AND NOT 0x1FF = 0)
    \<and> (\<exists>m. entries (dw_fs w') (control_socket_path c) = Some m \<and> md_kind m = KindSocket \<and> md_mode m = control_socket_mode c
        \<and> md_mode m AND NOT 0x1FF = 0)
    \<and> dm_max_message_size d < 2 ^ 64
    \<and> (\<exists>r. connection_router_new lib (sv_identities (dm_pairing d)) (dm_request_router d) = Ok r)
    \<and> (\<exists>cmd l1 l2 wake t1 t2.
        select_step (\<lambda>_ _. True) (dm_broker d) (LocalRequest request i t) now = Some (l1, [OutWake wake])
        \<and> connect_remote_command (dm_remote_capacity d) outbound reply = Ok cmd
        \<and> select_step (\<lambda>_ _. True) l1 (CommandReceived cmd sid) now'
          = Some (l2, [OutConnect reply (Ok sid), OutRemote outbound (RcRequest i 1 t1 t2 (pq_packet request) (pq_context request))]))"
proof -
  from assms(1) have valid: "control_socket_mode c AND NOT 0x1FF = 0" "socket_mode c AND NOT 0x1FF = 0"
    "0 < cfg_request_timeout c" "max_agent_packet_size c < 2 ^ 32" "0 < cfg_max_pending_requests c" "0 < remote_capacity c"
    by (simp_all add: validate_iff)
  from assms(2-4) show ?thesis
  proof (cases rule: daemon_start_cases)
    case (started d')
    then have d: "d' = d" by simp
    note started = started [unfolded d]
    from both_bound_entries [OF assms(2,3) started(2)] obtain ma mc
      where "entries (dw_fs w') (unix_socket c) = Some ma" "md_kind ma = KindSocket" "md_mode ma = socket_mode c"
        and "entries (dw_fs w') (control_socket_path c) = Some mc" "md_kind mc = KindSocket" "md_mode mc = control_socket_mode c"
      by blast
    moreover have "dm_max_message_size d < 2 ^ 64" using valid(4) by (simp add: started(5) MAX_MESSAGE_OVERHEAD_def)
    moreover have "\<exists>r. connection_router_new lib (sv_identities (dm_pairing d)) (dm_request_router d) = Ok r"
      using started(6) by (auto simp: request_router_new_def connection_router_new_def split: sum.splits)
    moreover have "connect_remote_command (dm_remote_capacity d) outbound reply = Ok (CmdConnect (remote_capacity c) outbound reply)"
      using valid(6) by (simp add: connect_remote_command_def started(4))
    moreover note fresh_broker_serves [OF valid(3,5,6) assms(5-7), of request i outbound reply sid, folded started(3)]
    ultimately show ?thesis using valid(1,2) by auto
  qed simp
qed

theorem validated_daemon_serves_witness:
  "\<exists>w d l wake. daemon_start ex_ssh_lib ex_p256 ex_daemon_env default_config ex_world = Some (w, Ok d)
    \<and> select_step (\<lambda>_ _. True) (dm_broker d) (LocalRequest ex_packet_request 1 0) 5 = Some (l, [OutWake wake])"
proof -
  obtain w d where start: "daemon_start ex_ssh_lib ex_p256 ex_daemon_env default_config ex_world = Some (w, Ok d)" using ex_start by blast
  have "(6 :: nat) < 5 + cfg_request_timeout default_config" "instant_add 5 (cfg_request_timeout default_config) \<noteq> None"
    "system_time_add 0 (cfg_request_timeout default_config) \<noteq> None"
    by (simp_all add: default_config_def from_secs_def instant_add_def system_time_add_def)
  from validated_daemon_serves [OF default_config_valid [of "\<lambda>_. Ok ()"] ex_quiet start this, of ex_packet_request 1 60 70 7] start
  show ?thesis by blast
qed

text \<open>
  C32: a validated configuration can still stop the broker. Validation puts no upper bound on
  the request timeout, and adding a timeout of \<open>2^63\<close> seconds or more to the clock panics: a
  daemon with such a configuration starts, and the first request of any caller, whatever it
  is and whenever it comes, ends the broker task instead of being answered.
\<close>

theorem oversized_timeout_stops_broker:
  assumes "quiet (de_agent env)" and "quiet (de_control env)"
    and "daemon_start lib key_lib env c w = Some (w', Ok d)" and "2 ^ 63 * 1000000000 \<le> cfg_request_timeout c"
  shows "validate parse_dsn c = validate parse_dsn (c\<lparr>cfg_request_timeout := from_secs 90\<rparr>)
    \<and> select_step send_ok (dm_broker d) (LocalRequest request i t) now = None"
proof -
  have "0 < cfg_request_timeout c" using assms(4) by (rule less_le_trans [rotated]) simp
  then have "validate parse_dsn c = validate parse_dsn (c\<lparr>cfg_request_timeout := from_secs 90\<rparr>)"
    by (simp add: validate_def from_secs_def cong: sum.case_cong)
  moreover have "2 ^ 63 \<le> (now + cfg_request_timeout c) div 1000000000" using assms(4) by (simp add: div_le_mono)
  then have "instant_add now (cfg_request_timeout c) = None" by (simp add: instant_add_def)
  moreover have "dm_broker d = run_broker_init \<lparr>request_timeout = cfg_request_timeout c, bc_max_pending_requests = cfg_max_pending_requests c\<rparr>"
    using assms(1-3) by (cases rule: daemon_start_cases) auto
  ultimately show ?thesis by (simp add: select_step_def handle_local_def run_broker_init_def)
qed

theorem oversized_timeout_stops_broker_witness:
  "\<exists>w d. daemon_start ex_ssh_lib ex_p256 ex_daemon_env (default_config\<lparr>cfg_request_timeout := 2 ^ 63 * 1000000000\<rparr>) ex_world = Some (w, Ok d)
    \<and> validate (\<lambda>_. Ok ()) (default_config\<lparr>cfg_request_timeout := 2 ^ 63 * 1000000000\<rparr>) = Ok ()
    \<and> select_step (\<lambda>_ _. True) (dm_broker d) (LocalRequest ex_packet_request 1 0) 5 = None"
proof -
  let ?c = "default_config\<lparr>cfg_request_timeout := 2 ^ 63 * 1000000000\<rparr>"
  obtain w d where start: "daemon_start ex_ssh_lib ex_p256 ex_daemon_env ?c ex_world = Some (w, Ok d)"
    using ex_start_timeout by blast
  have "cfg_request_timeout default_config = from_secs 90" by (simp add: default_config_def)
  then have same: "default_config\<lparr>cfg_request_timeout := from_secs 90\<rparr> = default_config" by simp
  have "2 ^ 63 * 1000000000 \<le> cfg_request_timeout ?c" by simp
  from oversized_timeout_stops_broker [OF ex_quiet start this, of "\<lambda>_. Ok ()" "\<lambda>_ _. True" ex_packet_request 1 0 5]
    default_config_valid [of "\<lambda>_. Ok ()"] start show ?thesis by (auto simp: same)
qed

lemma join_tasks_outcome:
  "join_tasks ends tasks = (actions, r) \<Longrightarrow> distinct tasks \<Longrightarrow>
     distinct actions \<and> set actions \<subseteq> Joined ` set tasks
     \<and> (r = Ok () \<longrightarrow> actions = map Joined tasks \<and> (\<forall>task \<in> set tasks. ends task = Finished))"
proof (induction tasks arbitrary: actions r)
  case (Cons task tasks)
  obtain rest r' where rest: "join_tasks ends tasks = (rest, r')" by fastforce
  from Cons.IH [OF this] Cons.prems(2) have "distinct rest" "set rest \<subseteq> Joined ` set tasks"
    "r' = Ok () \<longrightarrow> rest = map Joined tasks \<and> (\<forall>t \<in> set tasks. ends t = Finished)" by simp_all
  with Cons.prems show ?case by (auto simp: rest split: if_splits)
qed simp

lemma all_tasks: "(\<forall>task. P task) \<longleftrightarrow> P SocketTask \<and> P WebTask \<and> P ControlTask \<and> P BrokerTask"
  by (metis daemon_task.exhaust)

text \<open>What is done before the other tasks are awaited, and which these are.\<close>

fun shutdown_prefix :: "first_event \<Rightarrow> daemon_action list" where
  "shutdown_prefix (SignalReceived _ _) = [CancelShutdown, ShutdownBroker]"
| "shutdown_prefix (TaskEndedFirst task) =
     [Joined task, CancelShutdown] @ (if task = BrokerTask then [] else [ShutdownBroker])"

fun others_of :: "first_event \<Rightarrow> daemon_task list" where
  "others_of (SignalReceived _ _) = [SocketTask, WebTask, ControlTask, BrokerTask]"
| "others_of (TaskEndedFirst task) = filter (\<lambda>t. t \<noteq> task) [SocketTask, WebTask, ControlTask, BrokerTask]"

lemma supervise_shape:
  assumes "supervise ends first = (actions, r)"
  shows "(\<exists>e. r = Err e) \<and> (actions = [] \<or> (\<exists>task. first = TaskEndedFirst task \<and> actions = [Joined task]))
    \<or> (\<exists>joined r'. join_tasks ends (others_of first) = (joined, r') \<and> actions = shutdown_prefix first @ joined
        \<and> (r = Ok () \<longrightarrow> r' = Ok () \<and> first \<noteq> TaskEndedFirst BrokerTask
             \<and> (\<forall>task. first = TaskEndedFirst task \<longrightarrow> ends task = Finished)))"
proof -
  obtain joined r' where j: "join_tasks ends (others_of first) = (joined, r')" by fastforce
  show ?thesis
  proof (cases first)
    case (TaskEndedFirst task)
    show ?thesis using assms j unfolding TaskEndedFirst
      by (cases task) (auto simp del: join_tasks.simps split: if_splits sum.splits prod.splits)
  next
    case (SignalReceived installed sig)
    show ?thesis
    proof (cases "wait_for_shutdown installed sig")
      case (Inl e)
      have "supervise ends first = ([], Err e)" by (simp add: SignalReceived Inl)
      with assms have r: "r = Err e" "actions = []" by simp_all
      show ?thesis unfolding r by blast
    next
      case (Inr u)
      then have "supervise ends first = (CancelShutdown # ShutdownBroker # joined, r')"
        using j by (simp add: SignalReceived del: join_tasks.simps)
      with assms j show ?thesis by (simp add: SignalReceived del: join_tasks.simps)
    qed
  qed
qed

text \<open>
  The supervisor shuts everything down, once. No task is awaited twice; a task other than
  the one that ended first is awaited only after the shutdown signal has been given; and
  \<open>run\<close> succeeds only if all four tasks have been awaited and ended normally, the broker has
  been told to stop, and it was not the broker that stopped on its own.
\<close>

lemma daemon_shutdown_complete:
  assumes "supervise ends first = (actions, r)"
  shows "distinct actions
    \<and> (\<forall>task. Joined task \<in> set actions \<and> first \<noteq> TaskEndedFirst task
          \<longrightarrow> CancelShutdown \<in> set (takeWhile (\<lambda>a. a \<noteq> Joined task) actions))
    \<and> (r = Ok () \<longrightarrow> (\<forall>task. ends task = Finished \<and> Joined task \<in> set actions) \<and> ShutdownBroker \<in> set actions
          \<and> first \<noteq> TaskEndedFirst BrokerTask)"
proof -
  from supervise_shape [OF assms] consider
      (early) e where "r = Err e" "actions = [] \<or> (\<exists>task. first = TaskEndedFirst task \<and> actions = [Joined task])"
    | (orderly) joined r' where "join_tasks ends (others_of first) = (joined, r')" "actions = shutdown_prefix first @ joined"
        "r = Ok () \<longrightarrow> r' = Ok () \<and> first \<noteq> TaskEndedFirst BrokerTask \<and> (\<forall>task. first = TaskEndedFirst task \<longrightarrow> ends task = Finished)"
    by blast
  then show ?thesis
  proof cases
    case early
    then show ?thesis by auto
  next
    case orderly
    have others: "distinct (others_of first)" by (cases first rule: others_of.cases) auto
    note joined = join_tasks_outcome [OF orderly(1) others]
    have pre: "distinct (shutdown_prefix first)" "CancelShutdown \<in> set (shutdown_prefix first)"
      "\<And>task. Joined task \<in> set (shutdown_prefix first) \<longleftrightarrow> first = TaskEndedFirst task"
      by (cases first rule: shutdown_prefix.cases; auto)+
    have apart: "task \<notin> set (others_of first)" if "first = TaskEndedFirst task" for task using that by simp
    have "distinct actions" using joined pre apart orderly(2) by (cases first rule: shutdown_prefix.cases) auto
    moreover have "CancelShutdown \<in> set (takeWhile (\<lambda>a. a \<noteq> Joined task) actions)" if "first \<noteq> TaskEndedFirst task" for task
    proof -
      have "\<forall>a \<in> set (shutdown_prefix first). a \<noteq> Joined task" using pre(3) that by auto
      then show ?thesis using pre(2) by (simp add: orderly(2) takeWhile_append)
    qed
    moreover have "(\<forall>task. ends task = Finished \<and> Joined task \<in> set actions) \<and> ShutdownBroker \<in> set actions
        \<and> first \<noteq> TaskEndedFirst BrokerTask" if "r = Ok ()"
      using that joined orderly(2,3) unfolding all_tasks by (cases first rule: others_of.cases) auto
    ultimately show ?thesis by blast
  qed
qed

end
