(* ===== verification/Cli.thy ===== *)
theory Cli
  imports Daemon
begin

text \<open>
  \<open>cli.rs\<close>: the commands of the executable. The parser of the arguments (\<open>clap\<close>), the
  terminal and the set-up of logging are the environment of the commands.
\<close>

section \<open>Arguments\<close>

record serve_args =
  sa_unix_socket :: "path option"
  sa_request_timeout :: "duration option"

record write_context_args =
  wa_reason :: rstring
  wa_group_id :: "uuid option"
  wa_argv :: "rstring list"

record clear_pairing_args =
  ca_yes :: bool

datatype command = Serve serve_args | WriteContext write_context_args | PairingClearCommand clear_pairing_args

text \<open>The configuration file stands for what is read from it.\<close>

record cli =
  cli_config :: "(unit + config_layer) option"
  cli_control_socket :: "path option"
  cli_command :: command

datatype cli_error =
    CliContext context_error
  | CouldNotWriteContext
  | CouldNotFlushContext
  | NoConfirmation
  | TerminalFailed
  | NotCleared
  | CliConfig
  | CliInvalid config_error
  | CliLogging
  | CliControl clear_pairing_error
  | CliDaemon daemon_end

section \<open>write-context\<close>

text \<open>What reaches the standard output, and the result.\<close>

definition write_context ::
  "(uuid \<Rightarrow> rstring) \<Rightarrow> uuid \<Rightarrow> write_context_args \<Rightarrow> nat option \<Rightarrow> bool \<Rightarrow> bytes \<times> (cli_error + unit)" where
  "write_context uuid_simple new_id args failure flush_ok =
     (let context = \<lparr>group_id = (case wa_group_id args of None \<Rightarrow> new_id | Some g \<Rightarrow> g),
                     reason = wa_reason args, command = wa_argv args\<rparr>
      in case encode uuid_simple context of
           Inl e \<Rightarrow> ([], Err (CliContext e))
         | Inr packet \<Rightarrow>
             (case write_all failure packet of
                (written, ok) \<Rightarrow>
                  if \<not> ok then (written, Err CouldNotWriteContext)
                  else if \<not> flush_ok then (written, Err CouldNotFlushContext)
                  else (written, Ok ())))"

section \<open>pairing clear\<close>

text \<open>
  The terminal: whether the standard input is one, whether the prompt could be flushed, and
  the line that was read, if it could be read as UTF-8.
\<close>

record terminal =
  tm_is_terminal :: bool
  tm_flush_ok :: bool
  tm_line :: "rstring option"

text \<open>\<open>trim\<close> and \<open>to_ascii_lowercase\<close> on the characters of the line.\<close>

definition trim_chars :: "nat list \<Rightarrow> nat list" where
  "trim_chars cs = rev (dropWhile is_whitespace (rev (dropWhile is_whitespace cs)))"

definition ascii_lowercase :: "nat \<Rightarrow> nat" where
  "ascii_lowercase c = (if 65 \<le> c \<and> c \<le> 90 then c + 32 else c)"

text \<open>\<open>"y" | "yes"\<close>.\<close>

definition affirmative :: "rstring \<Rightarrow> bool" where
  "affirmative line =
     (let answer = map ascii_lowercase (trim_chars (utf8_chars line)) in answer = [121] \<or> answer = [121, 101, 115])"

definition confirm_clear :: "terminal \<Rightarrow> cli_error + unit" where
  "confirm_clear tm =
     (if \<not> tm_is_terminal tm then Err NoConfirmation
      else if \<not> tm_flush_ok tm then Err TerminalFailed
      else (case tm_line tm of None \<Rightarrow> Err TerminalFailed
            | Some line \<Rightarrow> if affirmative line then Ok () else Err NotCleared))"

text \<open>
  \<open>clear_pairing\<close>. \<open>reach\<close> is the exchange with whatever serves the control socket at a path:
  the state of the servers afterwards and the client's result.
\<close>

definition cli_clear_pairing ::
  "(duration \<Rightarrow> duration option) \<Rightarrow> bool \<Rightarrow> terminal \<Rightarrow> (path \<Rightarrow> 'w \<Rightarrow> 'w \<times> (clear_pairing_error + bool)) \<Rightarrow>
     (unit + config_layer) option \<Rightarrow> path option \<Rightarrow> clear_pairing_args \<Rightarrow> 'w \<Rightarrow> 'w \<times> (cli_error + bool)" where
  "cli_clear_pairing humantime logging_ok tm reach config_file control args w =
     (if \<not> logging_ok then (w, Err CliLogging)
      else
        (case (if ca_yes args then Ok () else confirm_clear tm) of
           Inl e \<Rightarrow> (w, Err e)
         | Inr _ \<Rightarrow>
             (case extract_config humantime config_file
                     \<lparr>ov_control_socket = control, ov_unix_socket = None, ov_request_timeout = None\<rparr> of
                Inl _ \<Rightarrow> (w, Err CliConfig)
              | Inr c \<Rightarrow>
                  (case reach (control_socket_path c) w of
                     (w, Inl e) \<Rightarrow> (w, Err (CliControl e))
                   | (w, Inr had_client) \<Rightarrow> (w, Ok had_client)))))"

section \<open>serve\<close>

text \<open>\<open>serve\<close> up to \<open>daemon::run\<close>: the configuration the daemon is run with.\<close>

definition serve_config ::
  "(duration \<Rightarrow> duration option) \<Rightarrow> (rstring \<Rightarrow> string + unit) \<Rightarrow> bool \<Rightarrow> (unit + config_layer) option \<Rightarrow> path option \<Rightarrow>
     serve_args \<Rightarrow> cli_error + config" where
  "serve_config humantime parse_dsn logging_ok config_file control args =
     (case extract_config humantime config_file
             \<lparr>ov_control_socket = control, ov_unix_socket = sa_unix_socket args, ov_request_timeout = sa_request_timeout args\<rparr> of
        Inl _ \<Rightarrow> Err CliConfig
      | Inr c \<Rightarrow>
          (case validate parse_dsn c of Inl e \<Rightarrow> Err (CliInvalid e)
           | Inr _ \<Rightarrow> if \<not> logging_ok then Err CliLogging else Ok c))"

definition cli_serve ::
  "(duration \<Rightarrow> duration option) \<Rightarrow> (rstring \<Rightarrow> string + unit) \<Rightarrow> bool \<Rightarrow> ('req, 'cred) ssh_lib \<Rightarrow> 'key p256_lib \<Rightarrow> daemon_env \<Rightarrow>
     (daemon_task \<Rightarrow> task_end) \<Rightarrow> first_event \<Rightarrow> (unit + config_layer) option \<Rightarrow> path option \<Rightarrow> serve_args \<Rightarrow> daemon_world \<Rightarrow>
     (daemon_world \<times> (cli_error + unit)) option" where
  "cli_serve humantime parse_dsn logging_ok lib key_lib env ends first config_file control args w =
     (case serve_config humantime parse_dsn logging_ok config_file control args of
        Inl e \<Rightarrow> Some (w, Err e)
      | Inr c \<Rightarrow>
          map_option (\<lambda>(w, r). (w, if r = Ran (Ok ()) then Ok () else Err (CliDaemon r)))
            (daemon_run lib key_lib env c w ends first))"

section \<open>The executable\<close>

text \<open>\<open>run\<close>: the environment of the process, and one command.\<close>

record cli_env =
  ce_humantime :: "duration \<Rightarrow> duration option"
  ce_parse_dsn :: "rstring \<Rightarrow> string + unit"
  ce_logging_ok :: bool
  ce_terminal :: terminal
  ce_uuid_simple :: "uuid \<Rightarrow> rstring"
  ce_new_id :: uuid
  ce_stdout_failure :: "nat option"
  ce_flush_ok :: bool

datatype 'w cli_outcome =
    ServeEnded "(daemon_world \<times> (cli_error + unit)) option"
  | ContextWritten "bytes \<times> (cli_error + unit)"
  | ClearEnded "'w \<times> (cli_error + bool)"

definition cli_run ::
  "('req, 'cred) ssh_lib \<Rightarrow> 'key p256_lib \<Rightarrow> daemon_env \<Rightarrow> (daemon_task \<Rightarrow> task_end) \<Rightarrow> first_event \<Rightarrow>
     (path \<Rightarrow> 'w \<Rightarrow> 'w \<times> (clear_pairing_error + bool)) \<Rightarrow> cli_env \<Rightarrow> daemon_world \<Rightarrow> 'w \<Rightarrow> cli \<Rightarrow> 'w cli_outcome" where
  "cli_run lib key_lib denv ends first reach env dw w c =
     (case cli_command c of
        Serve args \<Rightarrow>
          ServeEnded (cli_serve (ce_humantime env) (ce_parse_dsn env) (ce_logging_ok env) lib key_lib denv ends first
            (cli_config c) (cli_control_socket c) args dw)
      | WriteContext args \<Rightarrow>
          ContextWritten (write_context (ce_uuid_simple env) (ce_new_id env) args (ce_stdout_failure env) (ce_flush_ok env))
      | PairingClearCommand args \<Rightarrow>
          ClearEnded (cli_clear_pairing (ce_humantime env) (ce_logging_ok env) (ce_terminal env) reach
            (cli_config c) (cli_control_socket c) args w))"

section \<open>Consent\<close>

text \<open>No command touches a pairing but \<open>pairing clear\<close>, after \<open>--yes\<close> or an affirmative line at a terminal.\<close>

lemma clear_needs_consent:
  assumes "cli_run lib key_lib denv ends first reach env dw w c = ClearEnded (w', r)" and "w' \<noteq> w \<or> (\<exists>b. r = Ok b)"
  shows "\<exists>args. cli_command c = PairingClearCommand args
    \<and> (ca_yes args \<or> tm_is_terminal (ce_terminal env) \<and> (\<exists>line. tm_line (ce_terminal env) = Some line \<and> affirmative line))"
  using assms
  by (cases "cli_command c") (auto simp: cli_run_def cli_clear_pairing_def confirm_clear_def split: if_splits option.splits)

text \<open>A daemon is run only with a validated configuration, and the command line wins over the file.\<close>

lemma serve_config_valid:
  assumes "serve_config humantime parse_dsn logging_ok config_file control args = Ok c"
  shows "validate parse_dsn c = Ok ()"
    and "control = Some p \<Longrightarrow> control_socket_path c = p"
    and "sa_unix_socket args = Some q \<Longrightarrow> unix_socket c = q"
    and "sa_request_timeout args = Some d \<Longrightarrow> humantime d = Some (cfg_request_timeout c)"
  using assms by (auto simp: serve_config_def extract_config_def with_modes_def Let_def split: sum.splits option.splits if_splits)

section \<open>Properties\<close>

text \<open>
  C12: the context given on the command line is the context of the connection. If
  \<open>write-context\<close> succeeds, and identifiers format to text that parses back, then its output
  followed by anything is cut into exactly that packet, whatever the arguments were, under
  every limit of at least 17475 bytes (the default is 262144); and on every connection whose
  first packet it is, every request submitted to the broker carries the reason, the command
  and the group given on the command line.
\<close>

theorem write_context_names_requests:
  assumes "length_delimited codec" and "17475 \<le> max_packet_size"
    and "write_context uuid_simple new_id args failure flush_ok = (written, Ok ())"
    and "g = (case wa_group_id args of None \<Rightarrow> new_id | Some given \<Rightarrow> given)"
    and "parse_str (uuid_simple g) = Some g" and "utf8_valid (uuid_simple g)" and "length (uuid_simple g) = 32"
    and "list_all utf8_valid (wa_argv args)"
    and "connection_router_new lib w seen = Ok r"
    and "runs (connection_step lib parse_str) (w, connection_new r) ls t" and "run_packets ls = written # packets"
  shows "agent_frames codec max_packet_size (written @ rest) = Some (Ok (written, rest))
    \<and> (\<forall>packet ctx token. SubmitRequest packet ctx token \<in> set (run_queued ls)
          \<longrightarrow> ctx = Some \<lparr>group_id = g, reason = wa_reason args, command = wa_argv args\<rparr>)"
proof -
  let ?ctx = "\<lparr>group_id = g, reason = wa_reason args, command = wa_argv args\<rparr>"
  have enc: "encode uuid_simple ?ctx = Ok written"
    using assms(3) by (auto simp: write_context_def write_all_def assms(4) Let_def split: sum.splits option.splits if_splits)
  have "length (uuid_simple (group_id ?ctx)) = 32" by (simp add: assms(7))
  from encode_payload [OF enc this] obtain payload where "packet_payload written = Some payload" "length payload \<le> 17479" by blast
  with assms(2) have "agent_frames codec max_packet_size (written @ rest) = Some (Ok (written, rest))"
    by (intro agent_frames_iff [OF assms(1), THEN iffD2]) auto
  moreover have "decode parse_str written = Ok (Some ?ctx)"
    by (rule context_round_trip [OF enc]) (simp_all add: assms(5-8))
  then have "ctx = Some ?ctx" if "SubmitRequest packet ctx token \<in> set (run_queued ls)" for packet ctx token
    using queued_requests_carry_context [OF assms(9,10) that] by (simp add: assms(11))
  ultimately show ?thesis by blast
qed

definition ex_args :: write_context_args where
  "ex_args = \<lparr>wa_reason = reason ex_context, wa_group_id = None, wa_argv = command ex_context\<rparr>"

theorem write_context_names_requests_witness:
  "\<exists>written ls t. write_context ex_uuid_simple 5 ex_args None True = (written, Ok ())
    \<and> runs (connection_step ex_ssh_lib ex_parse_str) (ex_watch, connection_new ex_router) ls t
    \<and> agent_frames ex_codec 20000 (written @ [0]) = Some (Ok (written, [0]))
    \<and> SubmitRequest [0, 0, 0, 1, 13] (Some ex_context) 9 \<in> set (run_queued ls)"
proof -
  let ?step = "connection_step ex_ssh_lib ex_parse_str"
  let ?sign = "SubmitRequest [0, 0, 0, 1, 13] (Some ex_context) 9" and ?ok = "ReadyResponse AGENT_SUCCESS_FRAME"
  obtain written where enc: "encode ex_uuid_simple ex_context = Ok written" and dec: "decode ex_parse_str written = Ok (Some ex_context)"
    using ex_round_trip by blast
  have w: "write_context ex_uuid_simple 5 ex_args None True = (written, Ok ())"
    using enc by (simp add: write_context_def ex_args_def write_all_def ex_context_def)
  let ?ls = "[Selected (FrameArrived (Some (Ok written)) 8) None [] [?ok],
      Selected (FrameArrived (Some (Ok [0, 0, 0, 1, 13])) 9) None [] [?sign]]"
  have 1: "?step (ex_watch, connection_new ex_router) (Selected (FrameArrived (Some (Ok written)) 8) None [] [?ok]) (ex_conn ex_named [?ok])"
    by (rule conn_selectedI) (simp_all add: connection_new_def ex_route_announcement [OF dec] MAX_PIPELINED_REQUESTS_def)
  have 2: "?step (ex_conn ex_named [?ok]) (Selected (FrameArrived (Some (Ok [0, 0, 0, 1, 13])) 9) None [] [?sign])
      (ex_conn ex_named [?ok, ?sign])"
    by (rule conn_selectedI) (simp_all add: ex_route_sign MAX_PIPELINED_REQUESTS_def)
  have run: "runs ?step (ex_watch, connection_new ex_router) ?ls (ex_conn ex_named [?ok, ?sign])"
    by (rule runs_Cons, rule 1, rule runs_Cons, rule 2, rule runs_Nil)
  have codec: "length_delimited ex_codec" by (simp add: length_delimited_def ex_codec_def)
  have g: "5 = (case wa_group_id ex_args of None \<Rightarrow> 5 | Some given \<Rightarrow> given)" by (simp add: ex_args_def)
  have laws: "ex_parse_str (ex_uuid_simple 5) = Some 5" "length (ex_uuid_simple 5) = 32"
    by (simp_all add: ex_parse_str_def ex_uuid_simple_def)
  have "list_all (\<lambda>b. unat b < 128) (ex_uuid_simple 5)" by (simp add: ex_uuid_simple_def list_all_iff)
  then have utf8: "utf8_valid (ex_uuid_simple 5)" "list_all utf8_valid (wa_argv ex_args)"
    by (simp_all add: utf8_valid_ascii ex_args_def ex_context_def)
  have packets: "run_packets ?ls = written # [[0, 0, 0, 1, 13]]" by simp
  have "(17475 :: nat) \<le> 20000" by simp
  from write_context_names_requests [OF codec this w g laws(1) utf8(1) laws(2) utf8(2) ex_router_new run packets, of "[0]"] w run
  show ?thesis by (intro exI [of _ written] exI [of _ ?ls] exI [of _ "ex_conn ex_named [?ok, ?sign]"]) simp
qed

end
