(* ===== verification/Broker_Remote.thy ===== *)
theory Broker_Remote
  imports Broker_Reply
begin

text \<open>
  The channel of the connected session and the answers to \<open>connect_remote\<close>: where the broker
  gets the channel it sends requests on, and to whom it has announced a session.
\<close>

section \<open>Announcements\<close>

definition connects :: "actor_output list \<Rightarrow> (nat \<times> (broker_error + session_id)) list" where
  "connects outs = List.map_filter (\<lambda>out. case out of OutConnect response r \<Rightarrow> Some (response, r) | _ \<Rightarrow> None) outs"

definition remote_messages :: "actor_output list \<Rightarrow> (nat \<times> remote_command) list" where
  "remote_messages outs = List.map_filter (\<lambda>out. case out of OutRemote ch m \<Rightarrow> Some (ch, m) | _ \<Rightarrow> None) outs"

lemma connects_simps [simp]:
  "connects [] = []" "connects (OutConnect response r # outs) = (response, r) # connects outs"
  "connects (OutRemote ch m # outs) = connects outs" "connects (OutWake w # outs) = connects outs"
  "connects (OutReply ch x # outs) = connects outs" "connects (OutAbort i # outs) = connects outs"
  "connects (OutShutdown ch # outs) = connects outs" "connects (xs @ ys) = connects xs @ connects ys"
  by (simp_all add: connects_def List.map_filter_def)

lemma remote_messages_Cons:
  "remote_messages (out # outs) = (case out of OutRemote ch m \<Rightarrow> [(ch, m)] | _ \<Rightarrow> []) @ remote_messages outs"
  by (simp add: remote_messages_def List.map_filter_def split: actor_output.split)

lemma remote_messages_mem: "(ch, m) \<in> set (remote_messages outs) \<longleftrightarrow> OutRemote ch m \<in> set outs"
proof (induction outs)
  case (Cons out outs)
  then show ?case by (cases out) (simp_all add: remote_messages_Cons)
qed (simp add: remote_messages_def List.map_filter_def)

lemma remote_messages_append [simp]: "remote_messages (xs @ ys) = remote_messages xs @ remote_messages ys"
  by (simp add: remote_messages_def List.map_filter_def)

section \<open>The channel of the session\<close>

text \<open>Executing effects announces nothing and keeps or drops the channel.\<close>

interpretation remote_kept: execution "\<lambda>a effects outs. connects outs = [] \<and> (a_remote a = remote \<or> a_remote a = None)" now for remote now
  by unfold_locales auto

lemma execute_remote:
  "execute send_ok a effects now = Some (a', outs) \<Longrightarrow>
     connects outs = [] \<and> (a_remote a' = a_remote a \<or> a_remote a' = None)"
  using remote_kept.execute_from [of send_ok a effects now a' outs "a_remote a"] by simp

lemma apply_actor_remote:
  "apply_actor send_ok a e now = Some (a', outs) \<Longrightarrow> connects outs = [] \<and> (a_remote a' = a_remote a \<or> a_remote a' = None)"
  by (auto simp: apply_actor_def split: option.splits sum.splits dest!: execute_remote)

lemma stop_actor_remote: "connects (snd (stop_actor a)) = []"
  by (simp add: stop_actor_def connects_def List.map_filter_def case_prod_beta' concat_map_singleton)

text \<open>Only \<open>Connect\<close> announces a session, on the channel that came with it.\<close>

lemma handle_command_remote:
  assumes "handle_command send_ok a cmd fresh now = Some (stopped, a', outs)"
  shows "(a_remote a' = a_remote a \<or> a_remote a' = None)
      \<and> (\<forall>response sid. (response, Ok sid) \<notin> set (connects outs))
    \<or> (\<exists>capacity ch response. cmd = CmdConnect capacity ch response \<and> connects outs = [(response, Ok fresh)]
        \<and> (a_remote a' = Some (fresh, ch) \<or> a_remote a' = None))"
proof (cases cmd)
  case (CmdConnect capacity ch response)
  with assms show ?thesis
    by (auto simp: continue_with_def emit_def split: option.splits sum.splits model_error.splits dest!: execute_remote)
next
  case (CmdDisconnected sid)
  with assms show ?thesis
    by (auto simp: continue_with_def Let_def split: option.splits if_splits dest!: apply_actor_remote)
next
  case (CmdShutdown response)
  with assms stop_actor_remote [of a] show ?thesis by (auto simp: Let_def stop_actor_def)
qed (use assms in \<open>auto simp: continue_with_def dest!: apply_actor_remote\<close>)

lemma loop_step_remote:
  assumes "loop_step l (b, now, send_ok, outs) l'"
  shows "(a_remote (l_actor l') = a_remote (l_actor l) \<or> a_remote (l_actor l') = None)
      \<and> (\<forall>response sid. (response, Ok sid) \<notin> set (connects outs))
    \<or> (\<exists>capacity ch response sid. b = CommandReceived (CmdConnect capacity ch response) sid \<and> connects outs = [(response, Ok sid)]
        \<and> (a_remote (l_actor l') = Some (sid, ch) \<or> a_remote (l_actor l') = None))"
  using assms
proof (cases rule: loop_step_cases)
  case (request rq i t f)
  from request(2) obtain a1 e where h: "apply_actor send_ok a1 e now = Some (l_actor l', outs)" "a_remote a1 = a_remote (l_actor l)"
    by (rule handle_localE)
  from apply_actor_remote [OF h(1)] h(2) show ?thesis by simp
next
  case (command cmd fresh stopped)
  from handle_command_remote [OF command(2)] show ?thesis by (auto simp: command(1))
next
  case (applied e)
  from apply_actor_remote [OF applied(2)] show ?thesis by simp
next
  case ended
  with stop_actor_remote [of "l_actor l"] show ?thesis by (auto simp: stop_actor_def)
qed simp

section \<open>Runs\<close>

text \<open>The channel in use was brought by a \<open>Connect\<close> that was answered with the session.\<close>

lemma run_remote:
  assumes "runs loop_step l ls l'" and "a_remote (l_actor l') = Some (sid, ch)"
  shows "a_remote (l_actor l) = Some (sid, ch)
    \<or> (\<exists>capacity response x. (CommandReceived (CmdConnect capacity ch response) sid, x) \<in> set ls
        \<and> (response, Ok sid) \<in> set (connects (run_outputs ls)))"
  using assms
proof (induction rule: runs.induct)
  case (runs_Cons l x t ls u)
  obtain b now send_ok outs where x: "x = (b, now, send_ok, outs)" by (cases x) auto
  from runs_Cons.IH [OF runs_Cons.prems] loop_step_remote [OF runs_Cons.hyps(1) [unfolded x]] show ?case
    by (auto simp: x) blast+
qed simp

lemma run_connects:
  assumes "runs loop_step l ls l'" and "(response, Ok sid) \<in> set (connects (run_outputs ls))"
  shows "\<exists>capacity ch x. (CommandReceived (CmdConnect capacity ch response) sid, x) \<in> set ls"
  using assms
proof (induction rule: runs.induct)
  case (runs_Cons l x t ls u)
  obtain b now send_ok outs where x: "x = (b, now, send_ok, outs)" by (cases x) auto
  from runs_Cons loop_step_remote [OF runs_Cons.hyps(1) [unfolded x]] show ?case by (auto simp: x) blast+
qed simp

end
