(* ===== verification/Server.thy ===== *)
theory Server
  imports Gateway Broker_Remote Session_Props
begin

text \<open>
  The server in operation: the pairing service, any number of WebSockets from their first
  message to their end, the mailbox of the broker, the channels of the sessions, and a
  connection of the agent socket beside the broker. It composes the step functions of
  \<open>Session\<close>, \<open>Pairing\<close> and \<open>Gateway\<close>; every other connection, the control socket, the
  network and the clock are the environment.
\<close>

section \<open>The handle of the broker\<close>

text \<open>
  \<open>BrokerHandle\<close>: the mailbox is bounded, so a sender waits for room; a send fails once the
  broker has stopped.
\<close>

definition COMMAND_CAPACITY :: nat where "COMMAND_CAPACITY = 128"

definition send_commands :: "bool \<Rightarrow> broker_command list \<Rightarrow> broker_command list \<Rightarrow> broker_command list option" where
  "send_commands running mailbox commands =
     (if \<not> running then Some mailbox
      else if length mailbox + length commands \<le> COMMAND_CAPACITY then Some (mailbox @ commands)
      else None)"

section \<open>The handshake in steps\<close>

text \<open>
  \<open>serve\<close> is cut where it waits: after the authorization, while it registers with the broker,
  and after the answer.
\<close>

definition handshake_authorize ::
  "('req, 'cred, 'env, 'st) server_env \<Rightarrow> 'env \<Rightarrow> 'st pairing_service \<Rightarrow> received \<Rightarrow> uuid \<Rightarrow> bytes option \<Rightarrow> nat \<Rightarrow>
     'st pairing_service \<times> session_output list \<times> authorization option" where
  "handshake_authorize se env sv received new_id random now =
     (case receive_client se received of None \<Rightarrow> (sv, [], None)
      | Some message \<Rightarrow>
     (case authorize se env sv message new_id random now of
        (sv, None) \<Rightarrow> (sv, send_rejected se, None)
      | (sv, Some (Inl _)) \<Rightarrow> (sv, send_rejected se, None)
      | (sv, Some (Inr authorization)) \<Rightarrow> (sv, [], Some authorization)))"

definition handshake_finish ::
  "('req, 'cred, 'env, 'st) server_env \<Rightarrow> authorization \<Rightarrow> broker_error + (session_id \<times> nat) \<Rightarrow> bool \<Rightarrow>
     session_output list \<times> (session_id \<times> uuid) option" where
  "handshake_finish se authorization connected send_ok =
     (case connected of
        Inl BrokerRemoteAlreadyConnected \<Rightarrow> (send_rejected se, None)
      | Inl _ \<Rightarrow> ([], None)
      | Inr (session_id, _) \<Rightarrow>
     (case encode_server (se_plib se) (handshake_response authorization session_id (se_vapid_public_key se)) of
        Inl _ \<Rightarrow> ([BrokerCall (remote_disconnected session_id)], None)
      | Inr response \<Rightarrow>
          if \<not> send_ok then ([BrokerCall (remote_disconnected session_id)], None)
          else ([SendFrame response], Some (session_id, authorization_client_id authorization))))"

lemma handshake_in_steps:
  "serve_handshake se env sv received new_id random now connected send_ok =
     (case handshake_authorize se env sv received new_id random now of
        (sv, outs, None) \<Rightarrow> (sv, outs, None)
      | (sv, outs, Some authorization) \<Rightarrow>
          (case handshake_finish se authorization connected send_ok of (outs', r) \<Rightarrow> (sv, outs @ outs', r)))"
  by (auto simp: serve_handshake_def handshake_authorize_def handshake_finish_def
      split: option.splits prod.splits sum.splits broker_error.splits)

section \<open>State\<close>

text \<open>The phases of a WebSocket; its number is also that of its channel and of the answer to it.\<close>

datatype socket_phase =
    Waiting
  | Authorizing authorization
  | Registering authorization
  | Serving session_id uuid session_loop
  | Closed

text \<open>The version of the channel of revocations when \<open>serve\<close> subscribed, before the first message.\<close>

record web_socket =
  ws_seen :: nat
  ws_phase :: socket_phase

record 'st server =
  s_pairing :: "'st pairing_service"
  s_mailbox :: "broker_command list"
  s_answers :: "(nat \<times> (broker_error + session_id)) list"
  s_channels :: "(nat \<times> remote_command) list"
  s_sessions :: "session_id set"
  s_sockets :: "nat \<Rightarrow> web_socket option"
  s_gateway :: gateway

definition server_init :: "broker_config \<Rightarrow> 'st pairing_service \<Rightarrow> connection_router \<Rightarrow> 'st server" where
  "server_init config sv r =
     \<lparr>s_pairing = sv, s_mailbox = [], s_answers = [], s_channels = [], s_sessions = {},
      s_sockets = (\<lambda>_. None), s_gateway = gateway_init config (sv_identities sv) r\<rparr>"

definition broker_running :: "'st server \<Rightarrow> bool" where
  "broker_running s \<longleftrightarrow> l_running (g_loop (s_gateway s))"

text \<open>The routers share the channel of identities that the service publishes on.\<close>

definition set_pairing :: "'st pairing_service \<Rightarrow> 'st server \<Rightarrow> 'st server" where
  "set_pairing sv s = s\<lparr>s_pairing := sv, s_gateway := (s_gateway s)\<lparr>g_watch := sv_identities sv\<rparr>\<rparr>"

definition set_phase :: "nat \<Rightarrow> socket_phase \<Rightarrow> 'st server \<Rightarrow> 'st server" where
  "set_phase n phase s = s\<lparr>s_sockets := (s_sockets s)(n := map_option (ws_phase_update (\<lambda>_. phase)) (s_sockets s n))\<rparr>"

definition phase_of :: "'st server \<Rightarrow> nat \<Rightarrow> socket_phase option" where
  "phase_of s n = map_option ws_phase (s_sockets s n)"

text \<open>A channel accepts messages as long as its WebSocket holds the receiving end.\<close>

definition channel_open :: "'st server \<Rightarrow> nat \<Rightarrow> bool" where
  "channel_open s n =
     (case phase_of s n of Some (Registering _) \<Rightarrow> True | Some (Serving _ _ _) \<Rightarrow> True | _ \<Rightarrow> False)"

text \<open>
  What the branches of a session wait for: the next message of its channel, or the end of the
  channel when the broker has dropped it; a revocation since it subscribed. The client, the
  heartbeat and the shutdown may come at any time.
\<close>

fun event_ready :: "'st server \<Rightarrow> nat \<Rightarrow> session_event \<Rightarrow> bool" where
  "event_ready s n (BrokerCommand (Some c)) =
     (case filter (\<lambda>(ch, _). ch = n) (s_channels s) of [] \<Rightarrow> False | (_, m) # _ \<Rightarrow> m = c)"
| "event_ready s n (BrokerCommand None) =
     (filter (\<lambda>(ch, _). ch = n) (s_channels s) = []
      \<and> (\<forall>sid. a_remote (l_actor (g_loop (s_gateway s))) \<noteq> Some (sid, n) \<or> \<not> broker_running s))"
| "event_ready s n RevocationChanged = (\<exists>ws. s_sockets s n = Some ws \<and> ws_seen ws \<noteq> subscribe_revocations (s_pairing s))"
| "event_ready s n _ = True"

fun taken :: "nat \<Rightarrow> session_event \<Rightarrow> (nat \<times> remote_command) list \<Rightarrow> (nat \<times> remote_command) list" where
  "taken n (BrokerCommand (Some c)) channels = remove1 (n, c) channels"
| "taken n _ channels = channels"

section \<open>Steps\<close>

datatype ('env, 'st) server_label =
    SvOpened nat
  | SvFirst nat received 'env uuid "bytes option" nat "'st pairing_service" "authorization option"
  | SvRegistered nat
  | SvUnregistered nat
  | SvConnected nat "broker_error + session_id" bool
  | SvTurn nat session_event 'env bool
  | SvClear 'env
  | SvShutdown nat
  | SvConn connection_label
  | SvLoop loop_label

text \<open>Which command a turn of the broker takes from the mailbox; identifiers of sessions are fresh.\<close>

fun takes :: "'st server \<Rightarrow> select_branch \<Rightarrow> broker_command list \<Rightarrow> session_id set \<Rightarrow> bool" where
  "takes s (CommandReceived cmd fresh) mailbox sessions =
     (s_mailbox s = cmd # mailbox \<and> fresh \<notin> s_sessions s \<and> sessions = insert fresh (s_sessions s))"
| "takes s CommandsClosed mailbox sessions = False"
| "takes s _ mailbox sessions = (mailbox = s_mailbox s \<and> sessions = s_sessions s)"

inductive server_step ::
  "('req, 'cred, 'env, 'st) server_env \<Rightarrow> (rstring \<Rightarrow> uuid option) \<Rightarrow> nat set \<Rightarrow> nat \<Rightarrow>
     'st server \<Rightarrow> ('env, 'st) server_label \<Rightarrow> 'st server \<Rightarrow> bool"
  for se parse_str own capacity where
  sv_opened: "s_sockets s n = None \<Longrightarrow>
    server_step se parse_str own capacity s (SvOpened n)
      (s\<lparr>s_sockets := (s_sockets s)(n \<mapsto> \<lparr>ws_seen = subscribe_revocations (s_pairing s), ws_phase = Waiting\<rparr>)\<rparr>)"
| sv_first: "phase_of s n = Some Waiting \<Longrightarrow>
    handshake_authorize se env (s_pairing s) received new_id random now = (sv, outs, r) \<Longrightarrow>
    server_step se parse_str own capacity s (SvFirst n received env new_id random now (s_pairing s) r)
      (set_phase n (case r of None \<Rightarrow> Closed | Some a \<Rightarrow> Authorizing a) (set_pairing sv s))"
| sv_registered: "phase_of s n = Some (Authorizing a) \<Longrightarrow> connect_remote_command capacity n n = Ok cmd \<Longrightarrow> broker_running s \<Longrightarrow>
    send_commands True (s_mailbox s) [cmd] = Some mailbox \<Longrightarrow>
    server_step se parse_str own capacity s (SvRegistered n) (set_phase n (Registering a) (s\<lparr>s_mailbox := mailbox\<rparr>))"
| sv_unregistered: "phase_of s n = Some (Authorizing a) \<and> connect_remote_command capacity n n = Err e
      \<or> (phase_of s n = Some (Authorizing a) \<or> phase_of s n = Some (Registering a)) \<and> \<not> broker_running s
          \<and> (\<forall>r. (n, r) \<notin> set (s_answers s)) \<and> e = BrokerUnavailable \<Longrightarrow>
    handshake_finish se a (Err e) True = (outs, None) \<Longrightarrow>
    server_step se parse_str own capacity s (SvUnregistered n) (set_phase n Closed s)"
| sv_connected: "phase_of s n = Some (Registering a) \<Longrightarrow> (n, answer) \<in> set (s_answers s) \<Longrightarrow>
    handshake_finish se a (connect_remote_result n (Some answer)) send_ok = (outs, r) \<Longrightarrow>
    send_commands (broker_running s) (s_mailbox s) (broker_calls outs) = Some mailbox \<Longrightarrow>
    server_step se parse_str own capacity s (SvConnected n answer send_ok)
      (set_phase n (case r of None \<Rightarrow> Closed | Some (sid, cid) \<Rightarrow> Serving sid cid session_init) (s\<lparr>s_mailbox := mailbox\<rparr>))"
| sv_turn: "phase_of s n = Some (Serving sid cid l) \<Longrightarrow> event_ready s n e \<Longrightarrow>
    session_select se env (broker_running s) send_ok sid cid (s_pairing s) l e = (sv, l', outs) \<Longrightarrow>
    send_commands (broker_running s) (s_mailbox s) (broker_calls outs) = Some mailbox \<Longrightarrow>
    server_step se parse_str own capacity s (SvTurn n e env send_ok)
      (set_phase n (if sl_running l' then Serving sid cid l' else Closed)
        (set_pairing sv (s\<lparr>s_mailbox := mailbox, s_channels := taken n e (s_channels s)\<rparr>)))"
| sv_clear: "clear (se_save se env) (s_pairing s) = (sv, r) \<Longrightarrow>
    server_step se parse_str own capacity s (SvClear env) (set_pairing sv s)"
| sv_shutdown: "broker_running s \<Longrightarrow> send_commands True (s_mailbox s) [broker_shutdown ch] = Some mailbox \<Longrightarrow>
    server_step se parse_str own capacity s (SvShutdown ch) (s\<lparr>s_mailbox := mailbox\<rparr>)"
| sv_conn: "gateway_step (se_lib se) parse_str own (s_gateway s) (GwConn (Selected ev failure written queued)) g \<Longrightarrow>
    server_step se parse_str own capacity s (SvConn (Selected ev failure written queued)) (s\<lparr>s_gateway := g\<rparr>)"
| sv_loop: "gateway_step (se_lib se) parse_str own (s_gateway s) (GwLoop (b, now, (\<lambda>ch _. channel_open s ch), outs)) g \<Longrightarrow>
    takes s b mailbox sessions \<Longrightarrow>
    server_step se parse_str own capacity s (SvLoop (b, now, (\<lambda>ch _. channel_open s ch), outs))
      (s\<lparr>s_gateway := g, s_mailbox := mailbox, s_sessions := sessions,
         s_answers := s_answers s @ connects outs, s_channels := s_channels s @ remote_messages outs\<rparr>)"

inductive_cases server_stepE: "server_step se parse_str own capacity s l s'"

end
