(* ===== verification/Server_Run.thy ===== *)
theory Server_Run
  imports Server
begin

text \<open>
  A concrete run of the server, at which its properties are applied: a request is submitted,
  the paired client opens a WebSocket and authenticates, is given the request and answers, and
  the answer is written to the agent socket. In a second run the pairing is cleared while the
  client's handshake is under way.
\<close>

section \<open>States\<close>

definition ex_phone_lib :: proto_lib where
  "ex_phone_lib = ex_proto_lib\<lparr>rmp_decode :=
     (\<lambda>bs. if bs = [1] then Some (1, Authenticate 2 [7, 8]) else if bs = [9] then Some (1, AgentResponse 1 1 [9]) else None)\<rparr>"

definition ex_phone_env :: "(u8, bytes, unit, pairing_state option) server_env" where
  "ex_phone_env = ex_server_env\<lparr>se_plib := ex_phone_lib\<rparr>"

definition ex_phone_state :: "nat option \<Rightarrow> pairing_state" where
  "ex_phone_state seen = \<lparr>server_id = 1, client = Some \<lparr>client_id = 2, credential_hash = [8, 7], label = [65],
     created_at = 10, last_seen_at = seen, client_push_subscription = None, client_identities = Some []\<rparr>\<rparr>"

definition ex_phone :: "nat option \<Rightarrow> pairing_state option pairing_service" where
  "ex_phone seen = \<lparr>sv_store = Some (ex_phone_state seen), sv_state = ex_phone_state seen,
     sv_revocations = \<lparr>rv_generation = 0, rv_version = 0\<rparr>, sv_identities = ex_watch\<rparr>"

definition ex_server ::
  "nat option \<Rightarrow> socket_phase option \<Rightarrow> broker_command list \<Rightarrow> (nat \<times> (broker_error + session_id)) list \<Rightarrow>
     (nat \<times> remote_command) list \<Rightarrow> session_id set \<Rightarrow> gateway \<Rightarrow> pairing_state option server" where
  "ex_server seen phase mailbox told channels sessions g =
     \<lparr>s_pairing = ex_phone seen, s_mailbox = mailbox, s_answers = told, s_channels = channels,
      s_sessions = sessions, s_sockets = (case phase of None \<Rightarrow> \<lambda>_. None | Some p \<Rightarrow> (\<lambda>_. None)(60 \<mapsto> \<lparr>ws_seen = 0, ws_phase = p\<rparr>)),
      s_gateway = g\<rparr>"

abbreviation ex_step :: "pairing_state option server \<Rightarrow> (unit, pairing_state option) server_label \<Rightarrow> pairing_state option server \<Rightarrow> bool" where
  "ex_step \<equiv> server_step ex_phone_env (\<lambda>_. Some 5) UNIV 2"

lemmas ex_phone_defs = ex_server_def ex_phone_def ex_phone_state_def ex_phone_env_def ex_phone_lib_def ex_server_env_def ex_proto_lib_def

lemma ex_accessors [simp]:
  "s_pairing (ex_server seen phase mailbox told channels sessions g) = ex_phone seen"
  "subscribe_revocations (ex_phone seen) = 0"
  "s_mailbox (ex_server seen phase mailbox told channels sessions g) = mailbox"
  "s_answers (ex_server seen phase mailbox told channels sessions g) = told"
  "s_channels (ex_server seen phase mailbox told channels sessions g) = channels"
  "s_sessions (ex_server seen phase mailbox told channels sessions g) = sessions"
  "s_gateway (ex_server seen phase mailbox told channels sessions g) = g"
  "phase_of (ex_server seen (Some p) mailbox told channels sessions g) 60 = Some p"
  by (simp_all add: ex_server_def phase_of_def subscribe_revocations_def ex_phone_def)

lemma ex_updates [simp]:
  "set_phase 60 p' (ex_server seen (Some p) mailbox told channels sessions g) = ex_server seen (Some p') mailbox told channels sessions g"
  "(ex_server seen phase mailbox told channels sessions g)\<lparr>s_mailbox := mailbox'\<rparr> = ex_server seen phase mailbox' told channels sessions g"
  "(ex_server seen phase mailbox told channels sessions g)\<lparr>s_channels := channels'\<rparr> = ex_server seen phase mailbox told channels' sessions g"
  "(ex_server seen phase mailbox told channels sessions g)\<lparr>s_gateway := g'\<rparr> = ex_server seen phase mailbox told channels sessions g'"
  "(ex_server seen phase mailbox told channels sessions g)\<lparr>s_sessions := sessions'\<rparr> = ex_server seen phase mailbox told channels sessions' g"
  "(ex_server seen phase mailbox told channels sessions g)\<lparr>s_answers := told'\<rparr> = ex_server seen phase mailbox told' channels sessions g"
  "g_watch g = ex_watch \<Longrightarrow> set_pairing (ex_phone seen') (ex_server seen phase mailbox told channels sessions g)
     = ex_server seen' phase mailbox told channels sessions g"
  by (auto simp: ex_server_def set_phase_def set_pairing_def ex_phone_def fun_eq_iff split: option.split)

lemma ex_opened: "ex_step (ex_server None None [] [] [] {} g) (SvOpened 60) (ex_server None (Some Waiting) [] [] [] {} g)"
proof -
  have "s_sockets (ex_server None None [] [] [] {} g) 60 = None" by (simp add: ex_server_def)
  from sv_opened [OF this] show ?thesis by (simp add: ex_server_def)
qed

lemma ex_authorized:
  "handshake_authorize ex_phone_env () (ex_phone None) (Some (Ok (WsBinary [1]))) 0 None 10
     = (ex_phone (Some 10), [], Some (Authenticated 1 2))"
  by (simp add: handshake_authorize_def receive_client_def decode_client_def decode_envelope_def protocol_limits VERSION_def
      authenticate_def commit_def memory_save_def ex_phone_defs)

abbreviation ex_first :: "(unit, pairing_state option) server_label" where
  "ex_first \<equiv> SvFirst 60 (Some (Ok (WsBinary [1]))) () 0 None 10 (ex_phone None) (Some (Authenticated 1 2))"

lemma ex_first_step:
  assumes "g_watch g = ex_watch"
  shows "ex_step (ex_server None (Some Waiting) [] [] [] {} g) ex_first (ex_server (Some 10) (Some (Authorizing (Authenticated 1 2))) [] [] [] {} g)"
  using sv_first [of "ex_server None (Some Waiting) [] [] [] {} g" 60 ex_phone_env "()", OF _ ] ex_authorized assms by fastforce

lemma ex_registered:
  assumes "l_running (g_loop g)"
  shows "ex_step (ex_server (Some 10) (Some (Authorizing (Authenticated 1 2))) [] [] [] {} g) (SvRegistered 60)
    (ex_server (Some 10) (Some (Registering (Authenticated 1 2))) [CmdConnect 2 60 60] [] [] {} g)"
  using sv_registered [of "ex_server (Some 10) (Some (Authorizing (Authenticated 1 2))) [] [] [] {} g" 60 "Authenticated 1 2" 2 "CmdConnect 2 60 60" "[CmdConnect 2 60 60]"] assms
  by (simp add: connect_remote_command_def broker_running_def send_commands_def COMMAND_CAPACITY_def)

section \<open>The broker and the connection\<close>

abbreviation ex_route :: remote_command where "ex_route \<equiv> RcRequest 1 1 3 3 ex_sign None"

lemma ex_broker_steps:
  "loop_step (run_broker_init ex_config) (LocalRequest (submitted_request ex_sign None 40) 1 3000000, 5, ok,
     [OutWake \<lparr>reasons = []\<rparr>]) (ex_cancel ex_waiting)"
  "ok 60 ex_route \<Longrightarrow> loop_step (ex_cancel ex_waiting) (CommandReceived (CmdConnect 2 60 60) 7, 6, ok,
     [OutConnect 60 (Ok 7), OutRemote 60 ex_route]) (ex_cancel ex_serving)"
  "\<exists>l. loop_step (ex_cancel ex_serving) (CommandReceived (CmdResponse 7 1 1 [9]) 8, 20, ok, [OutAbort 1, OutReply 40 (Ok [9])]) l"
proof -
  show "loop_step (run_broker_init ex_config) (LocalRequest (submitted_request ex_sign None 40) 1 3000000, 5, ok,
      [OutWake \<lparr>reasons = []\<rparr>]) (ex_cancel ex_waiting)"
    by (rule loop_step) (simp_all add: loop_unfold ex_loop_defs submitted_request_def)
  show "loop_step (ex_cancel ex_waiting) (CommandReceived (CmdConnect 2 60 60) 7, 6, ok,
      [OutConnect 60 (Ok 7), OutRemote 60 ex_route]) (ex_cancel ex_serving)" if "ok 60 ex_route"
    using that by (intro loop_step) (simp_all add: loop_unfold ex_loop_defs)
  obtain l where "select_step ok (ex_cancel ex_serving) (CommandReceived (CmdResponse 7 1 1 [9]) 8) 20
      = Some (l, [OutAbort 1, OutReply 40 (Ok [9])])"
    by (simp add: loop_unfold ex_loop_defs remote_response_event_def)
  then have "loop_step (ex_cancel ex_serving) (CommandReceived (CmdResponse 7 1 1 [9]) 8, 20, ok, [OutAbort 1, OutReply 40 (Ok [9])]) l"
    by (intro loop_step) (simp_all add: ex_loop_defs)
  then show "\<exists>l. loop_step (ex_cancel ex_serving) (CommandReceived (CmdResponse 7 1 1 [9]) 8, 20, ok, [OutAbort 1, OutReply 40 (Ok [9])]) l"
    by blast
qed

definition ex_gw :: "routed_response list \<Rightarrow> broker_loop \<Rightarrow> nat set \<Rightarrow> (nat \<times> (request_error + bytes)) list \<Rightarrow> gateway" where
  "ex_gw waiting_for l sent reps = \<lparr>g_watch = ex_watch, g_conn = snd (ex_conn ex_plain waiting_for), g_loop = l, g_tokens = {40},
     g_submitted = sent, g_replies = reps\<rparr>"

abbreviation ex_queue :: "routed_response list" where "ex_queue \<equiv> [SubmitRequest ex_sign None 40]"

abbreviation ex_frame_label :: connection_label where
  "ex_frame_label \<equiv> Selected (FrameArrived (Some (Ok ex_sign)) 40) None [] ex_queue"

abbreviation ex_gstep :: "gateway \<Rightarrow> gateway_label \<Rightarrow> gateway \<Rightarrow> bool" where
  "ex_gstep \<equiv> gateway_step ex_ssh_lib (\<lambda>_. Some 5) UNIV"

lemma ex_gw_steps:
  "ex_gstep (gateway_init ex_config ex_watch ex_router) (GwConn ex_frame_label) (ex_gw ex_queue (run_broker_init ex_config) {} [])"
  "ex_gstep (ex_gw ex_queue (run_broker_init ex_config) {} [])
     (GwLoop (LocalRequest (submitted_request ex_sign None 40) 1 3000000, 5, ok, [OutWake \<lparr>reasons = []\<rparr>]))
     (ex_gw ex_queue (ex_cancel ex_waiting) {40} [])"
  "ok 60 ex_route \<Longrightarrow> ex_gstep (ex_gw ex_queue (ex_cancel ex_waiting) {40} [])
     (GwLoop (CommandReceived (CmdConnect 2 60 60) 7, 6, ok, [OutConnect 60 (Ok 7), OutRemote 60 ex_route]))
     (ex_gw ex_queue (ex_cancel ex_serving) {40} [])"
  "loop_step (ex_cancel ex_serving) (CommandReceived (CmdResponse 7 1 1 [9]) 8, 20, ok, [OutAbort 1, OutReply 40 (Ok [9])]) l \<Longrightarrow>
   ex_gstep (ex_gw ex_queue (ex_cancel ex_serving) {40} [])
     (GwLoop (CommandReceived (CmdResponse 7 1 1 [9]) 8, 20, ok, [OutAbort 1, OutReply 40 (Ok [9])]))
     (ex_gw ex_queue l {40} [(40, Ok [9])])"
  "ex_gstep (ex_gw ex_queue l {40} [(40, Ok [9])]) (GwConn (Selected (ResponseReady (Ok [9])) None [9] [])) (ex_gw [] l {40} [(40, Ok [9])])"
proof -
  show "ex_gstep (gateway_init ex_config ex_watch ex_router) (GwConn ex_frame_label) (ex_gw ex_queue (run_broker_init ex_config) {} [])"
    using gw_frame [of 40 UNIV "gateway_init ex_config ex_watch ex_router", OF _ _ ] ex_frame_step
    by (force simp: gateway_init_def ex_gw_def)
  show "ex_gstep (ex_gw ex_queue (run_broker_init ex_config) {} [])
      (GwLoop (LocalRequest (submitted_request ex_sign None 40) 1 3000000, 5, ok, [OutWake \<lparr>reasons = []\<rparr>]))
      (ex_gw ex_queue (ex_cancel ex_waiting) {40} [])"
    using gw_submit [of ex_sign None 40 "ex_gw ex_queue (run_broker_init ex_config) {} []", OF _ _ ] ex_broker_steps(1)
    by (fastforce simp: ex_gw_def)
  show "ex_gstep (ex_gw ex_queue (ex_cancel ex_waiting) {40} [])
      (GwLoop (CommandReceived (CmdConnect 2 60 60) 7, 6, ok, [OutConnect 60 (Ok 7), OutRemote 60 ex_route]))
      (ex_gw ex_queue (ex_cancel ex_serving) {40} [])" if "ok 60 ex_route"
    using gw_broker [of "CommandReceived (CmdConnect 2 60 60) 7" UNIV "ex_gw ex_queue (ex_cancel ex_waiting) {40} []", OF _ ]
      ex_broker_steps(2) [of ok, OF that] by (fastforce simp: ex_gw_def)
  show "ex_gstep (ex_gw ex_queue (ex_cancel ex_serving) {40} [])
      (GwLoop (CommandReceived (CmdResponse 7 1 1 [9]) 8, 20, ok, [OutAbort 1, OutReply 40 (Ok [9])]))
      (ex_gw ex_queue l {40} [(40, Ok [9])])"
    if "loop_step (ex_cancel ex_serving) (CommandReceived (CmdResponse 7 1 1 [9]) 8, 20, ok, [OutAbort 1, OutReply 40 (Ok [9])]) l"
    using gw_broker [of "CommandReceived (CmdResponse 7 1 1 [9]) 8" UNIV "ex_gw ex_queue (ex_cancel ex_serving) {40} []", OF _ ] that
    by (fastforce simp: ex_gw_def)
  show "ex_gstep (ex_gw ex_queue l {40} [(40, Ok [9])]) (GwConn (Selected (ResponseReady (Ok [9])) None [9] [])) (ex_gw [] l {40} [(40, Ok [9])])"
    using gw_response [of "ex_gw ex_queue l {40} [(40, Ok [9])]" "SubmitRequest ex_sign None 40" "[]" "Ok [9]", OF _ _ ] ex_answer_step
    by (fastforce simp: submit_outcome_def ex_gw_def)
qed

section \<open>Steps\<close>

abbreviation ex_sv :: "socket_phase option \<Rightarrow> broker_command list \<Rightarrow> (nat \<times> (broker_error + session_id)) list \<Rightarrow>
     (nat \<times> remote_command) list \<Rightarrow> session_id set \<Rightarrow> gateway \<Rightarrow> pairing_state option server" where
  "ex_sv \<equiv> ex_server (Some 10)"

abbreviation ex_ok :: "pairing_state option server \<Rightarrow> nat \<Rightarrow> remote_command \<Rightarrow> bool" where
  "ex_ok s \<equiv> \<lambda>ch _. channel_open s ch"

abbreviation ex_serving_phase :: socket_phase where "ex_serving_phase \<equiv> Serving 7 2 session_init"

lemma ex_connected:
  assumes "l_running (g_loop g)"
  shows "ex_step (ex_sv (Some (Registering (Authenticated 1 2))) [] [(60, Ok 7)] [(60, ex_route)] {7} g) (SvConnected 60 (Ok 7) True)
    (ex_sv (Some ex_serving_phase) [] [(60, Ok 7)] [(60, ex_route)] {7} g)"
proof -
  let ?s = "ex_sv (Some (Registering (Authenticated 1 2))) [] [(60, Ok 7)] [(60, ex_route)] {7} g"
  have "handshake_finish ex_phone_env (Authenticated 1 2) (connect_remote_result 60 (Some (Ok 7))) True = ([SendFrame [7]], Some (7, 2))"
    by (simp add: handshake_finish_def connect_remote_result_def encode_server_def ex_phone_defs)
  from sv_connected [of ?s 60 "Authenticated 1 2" "Ok 7", OF _ _ this, of "[]"] assms show ?thesis
    by (simp add: send_commands_def broker_running_def COMMAND_CAPACITY_def)
qed

abbreviation ex_response_turn :: "(unit, pairing_state option) server_label" where
  "ex_response_turn \<equiv> SvTurn 60 (ClientReceived (Some (Ok (WsBinary [9])))) () True"

lemma ex_answered:
  assumes "l_running (g_loop g)" and "g_watch g = ex_watch"
  shows "ex_step (ex_sv (Some ex_serving_phase) [] told channels {7} g) ex_response_turn
    (ex_sv (Some ex_serving_phase) [CmdResponse 7 1 1 [9]] told channels {7} g)"
proof -
  let ?s = "ex_sv (Some ex_serving_phase) [] told channels {7} g" and ?e = "ClientReceived (Some (Ok (WsBinary [9])))"
  have run: "broker_running ?s" using assms(1) by (simp add: broker_running_def)
  have "session_select ex_phone_env () True True 7 2 (ex_phone (Some 10)) session_init ?e
      = (ex_phone (Some 10), session_init, [BrokerCall (CmdResponse 7 1 1 [9])])"
    by (simp add: handle_client_message_def decode_client_def decode_envelope_def VERSION_def ex_phone_env_def ex_phone_lib_def
        session_init_def)
  moreover have "sl_running session_init" by (simp add: session_init_def)
  ultimately show ?thesis
    using sv_turn [of ?s 60 7 2 session_init ?e ex_phone_env "()" True "ex_phone (Some 10)" session_init
        "[BrokerCall (CmdResponse 7 1 1 [9])]" "[CmdResponse 7 1 1 [9]]"] run assms(2)
    by (simp add: send_commands_def COMMAND_CAPACITY_def del: session_select.simps)
qed

lemma ex_conn_step:
  "ex_gstep g (GwConn (Selected ev failure written queued)) g' \<Longrightarrow>
     ex_step (ex_server seen phase mailbox told channels sessions g) (SvConn (Selected ev failure written queued))
       (ex_server seen phase mailbox told channels sessions g')"
  using sv_conn [of ex_phone_env _ _ "ex_server seen phase mailbox told channels sessions g" ev failure written queued g']
  by (simp add: ex_phone_env_def ex_server_env_def)

lemma ex_loop_step:
  assumes "ex_gstep g (GwLoop (b, now, ex_ok (ex_server seen phase mailbox told channels sessions g), outs)) g'"
    and "takes (ex_server seen phase mailbox told channels sessions g) b mailbox' sessions'"
  shows "ex_step (ex_server seen phase mailbox told channels sessions g)
    (SvLoop (b, now, ex_ok (ex_server seen phase mailbox told channels sessions g), outs))
    (ex_server seen phase mailbox' (told @ connects outs) (channels @ remote_messages outs) sessions' g')"
  using sv_loop [of ex_phone_env _ _ "ex_server seen phase mailbox told channels sessions g" b now outs g' mailbox' sessions'] assms
  by (simp add: ex_phone_env_def ex_server_env_def)

lemma ex_server_init: "server_init ex_config (ex_phone None) ex_router = ex_server None None [] [] [] {} (gateway_init ex_config ex_watch ex_router)"
  by (simp add: server_init_def ex_server_def ex_phone_def)

lemma ex_gw_fields [simp]: "g_watch (ex_gw q l sent reps) = ex_watch" "g_loop (ex_gw q l sent reps) = l"
  by (simp_all add: ex_gw_def)

lemma ex_running [simp]: "l_running (ex_loop ag remote p q announced)"
  by (simp add: ex_loop_def)

section \<open>Runs\<close>

lemma ex_server_run:
  "\<exists>ok1 ok2 ok3 s. runs ex_step (server_init ex_config (ex_phone None) ex_router)
     [SvConn ex_frame_label,
      SvLoop (LocalRequest (submitted_request ex_sign None 40) 1 3000000, 5, ok1, [OutWake \<lparr>reasons = []\<rparr>]),
      SvOpened 60, ex_first, SvRegistered 60,
      SvLoop (CommandReceived (CmdConnect 2 60 60) 7, 6, ok2, [OutConnect 60 (Ok 7), OutRemote 60 ex_route]),
      SvConnected 60 (Ok 7) True, ex_response_turn,
      SvLoop (CommandReceived (CmdResponse 7 1 1 [9]) 8, 20, ok3, [OutAbort 1, OutReply 40 (Ok [9])]),
      SvConn (Selected (ResponseReady (Ok [9])) None [9] [])] s"
proof -
  let ?w = "ex_gw ex_queue (ex_cancel ex_waiting) {40} []" and ?g = "ex_gw ex_queue (ex_cancel ex_serving) {40} []"
  let ?r = "ex_sv (Some (Registering (Authenticated 1 2))) [CmdConnect 2 60 60] [] [] {} ?w"
  let ?p = "ex_sv (Some ex_serving_phase) [CmdResponse 7 1 1 [9]] [(60, Ok 7)] [(60, ex_route)] {7} ?g"
  obtain l where l: "loop_step (ex_cancel ex_serving) (CommandReceived (CmdResponse 7 1 1 [9]) 8, 20, ex_ok ?p, [OutAbort 1, OutReply 40 (Ok [9])]) l"
    using ex_broker_steps(3) by blast
  have 6: "ex_step ?r (SvLoop (CommandReceived (CmdConnect 2 60 60) 7, 6, ex_ok ?r, [OutConnect 60 (Ok 7), OutRemote 60 ex_route]))
      (ex_sv (Some (Registering (Authenticated 1 2))) [] [(60, Ok 7)] [(60, ex_route)] {7} ?g)"
    using ex_loop_step [OF ex_gw_steps(3), of "Some 10" "Some (Registering (Authenticated 1 2))" "[CmdConnect 2 60 60]" "[]" "[]" "{}" "[]" "{7}"]
    by (simp add: channel_open_def remote_messages_def List.map_filter_def)
  have 9: "ex_step ?p (SvLoop (CommandReceived (CmdResponse 7 1 1 [9]) 8, 20, ex_ok ?p, [OutAbort 1, OutReply 40 (Ok [9])]))
      (ex_sv (Some ex_serving_phase) [] [(60, Ok 7)] [(60, ex_route)] {7, 8} (ex_gw ex_queue l {40} [(40, Ok [9])]))"
    using ex_loop_step [OF ex_gw_steps(4) [OF l], of "[]" "{8, 7}"]
    by (simp add: remote_messages_def List.map_filter_def insert_commute)
  have 2: "ex_step (ex_server None None [] [] [] {} (ex_gw ex_queue (run_broker_init ex_config) {} []))
      (SvLoop (LocalRequest (submitted_request ex_sign None 40) 1 3000000, 5,
         ex_ok (ex_server None None [] [] [] {} (ex_gw ex_queue (run_broker_init ex_config) {} [])), [OutWake \<lparr>reasons = []\<rparr>]))
      (ex_server None None [] [] [] {} ?w)"
    using ex_loop_step [OF ex_gw_steps(2), of None None "[]" "[]" "[]" "{}" "[]" "{}"]
    by (simp add: remote_messages_def List.map_filter_def)
  note steps = ex_conn_step [OF ex_gw_steps(1)] 2 ex_opened [of ?w] ex_first_step [of ?w] ex_registered [of ?w] 6 ex_connected [of ?g]
    ex_answered [of ?g] 9 ex_conn_step [OF ex_gw_steps(5)]
  show ?thesis
    unfolding ex_server_init
    by (rule exI, rule exI, rule exI, rule exI, rule runs_Cons, rule steps(1), rule runs_Cons, rule steps(2),
        rule runs_Cons, rule steps(3), rule runs_Cons, rule steps(4), simp, rule runs_Cons, rule steps(5), simp,
        rule runs_Cons, rule steps(6), rule runs_Cons, rule steps(7), simp, rule runs_Cons, rule steps(8), simp, simp,
        rule runs_Cons, rule steps(9), rule runs_Cons, rule steps(10), rule runs_Nil)
qed

lemma ex_clear_run:
  "\<exists>s. runs ex_step (server_init ex_config (ex_phone None) ex_router) [SvOpened 60, ex_first, SvClear ()] s
     \<and> phase_of s 60 = Some (Authorizing (Authenticated 1 2)) \<and> pairing_key (s_pairing s) = None"
proof -
  let ?g = "gateway_init ex_config ex_watch ex_router" and ?s = "ex_sv (Some (Authorizing (Authenticated 1 2))) [] [] [] {}"
  obtain sv where c: "clear (se_save ex_phone_env ()) (ex_phone (Some 10)) = (sv, Ok True)"
    by (simp add: clear_def commit_def memory_save_def ex_phone_defs Let_def)
  have "ex_step (?s ?g) (SvClear ()) (set_pairing sv (?s ?g))"
    by (rule sv_clear) (simp add: c)
  moreover have "pairing_key sv = None" using clear_key [OF c] by simp
  moreover have "runs ex_step (server_init ex_config (ex_phone None) ex_router) [SvOpened 60, ex_first] (?s ?g)"
    unfolding ex_server_init
    by (rule runs_Cons, rule ex_opened, rule runs_Cons, rule ex_first_step, simp add: gateway_init_def, rule runs_Nil)
  ultimately show ?thesis
    by (intro exI [of _ "set_pairing sv (?s ?g)"])
      (auto simp: runs_append runs_Cons_iff phase_of_def set_pairing_def ex_server_def)
qed

end
