(* ===== verification/Server_Props.thy ===== *)
theory Server_Props
  imports Server_Run
begin

text \<open>
  What holds of the server in operation: an answer that a caller is given comes from a
  WebSocket that proved the pairing, and a session that outlives its pairing is told so.
\<close>

section \<open>The parts of a run\<close>

fun conn_turns :: "('env, 'st) server_label list \<Rightarrow> connection_label list" where
  "conn_turns [] = []"
| "conn_turns (SvConn l # ls) = l # conn_turns ls"
| "conn_turns (_ # ls) = conn_turns ls"

fun broker_turns :: "('env, 'st) server_label list \<Rightarrow> loop_label list" where
  "broker_turns [] = []"
| "broker_turns (SvLoop l # ls) = l # broker_turns ls"
| "broker_turns (_ # ls) = broker_turns ls"

lemma turns_append [simp]:
  "conn_turns (xs @ ys) = conn_turns xs @ conn_turns ys" "broker_turns (xs @ ys) = broker_turns xs @ broker_turns ys"
proof -
  show "conn_turns (xs @ ys) = conn_turns xs @ conn_turns ys" by (induction xs rule: conn_turns.induct) auto
  show "broker_turns (xs @ ys) = broker_turns xs @ broker_turns ys" by (induction xs rule: broker_turns.induct) auto
qed

lemma server_accessors [simp]:
  "s_pairing (set_phase n p s) = s_pairing s"
  "s_mailbox (set_phase n p s) = s_mailbox s" "s_answers (set_phase n p s) = s_answers s"
  "s_channels (set_phase n p s) = s_channels s" "s_sessions (set_phase n p s) = s_sessions s"
  "s_gateway (set_phase n p s) = s_gateway s"
  "s_pairing (set_pairing sv s) = sv"
  "s_mailbox (set_pairing sv s) = s_mailbox s" "s_answers (set_pairing sv s) = s_answers s"
  "s_channels (set_pairing sv s) = s_channels s" "s_sessions (set_pairing sv s) = s_sessions s"
  "s_sockets (set_pairing sv s) = s_sockets s"
  "s_gateway (set_pairing sv s) = (s_gateway s)\<lparr>g_watch := sv_identities sv\<rparr>"
  by (simp_all add: set_phase_def set_pairing_def)

lemma s_sockets_set_phase:
  "s_sockets (set_phase n p s) m =
     (if m = n then map_option (ws_phase_update (\<lambda>_. p)) (s_sockets s n) else s_sockets s m)"
  by (simp add: set_phase_def)

lemma phase_of_set_phase [simp]:
  "phase_of (set_phase n p s) m = (if m = n \<and> s_sockets s n \<noteq> None then Some p else phase_of s m)"
  by (auto simp: phase_of_def set_phase_def split: option.splits)

lemma phase_of_updates [simp]:
  "phase_of (set_pairing sv s) = phase_of s" "phase_of (s\<lparr>s_mailbox := mailbox\<rparr>) = phase_of s"
  "phase_of (s\<lparr>s_channels := channels\<rparr>) = phase_of s"
  "phase_of (s\<lparr>s_gateway := g\<rparr>) = phase_of s" "phase_of (s\<lparr>s_answers := told\<rparr>) = phase_of s"
  "phase_of (s\<lparr>s_sessions := ids\<rparr>) = phase_of s"
  by (simp_all add: phase_of_def fun_eq_iff)

section \<open>The identities that the service publishes\<close>

definition published :: "identity_watch \<Rightarrow> identity_watch \<Rightarrow> bool" where
  "published w w' \<longleftrightarrow> w' = w \<or> (\<exists>v. w' = watch_send v w)"

lemma commit_identities: "commit save sv n = (sv', r) \<Longrightarrow> sv_identities sv' = sv_identities sv"
  by (auto simp: commit_def split: prod.splits sum.splits)

lemma service_call_published:
  "service_call lib save digest sv call = (sv', r) \<Longrightarrow> published (sv_identities sv) (sv_identities sv')"
  by (cases call)
    (auto simp: published_def map_prod_def pair_def authenticate_def set_push_subscription_def set_identities_def clear_def Let_def
      split: if_splits option.splits sum.splits prod.splits dest!: commit_identities)

text \<open>A handshake and a turn of a session call the pairing service at most once.\<close>

definition called ::
  "('req, 'cred, 'env, 'st) server_env \<Rightarrow> 'st pairing_service \<Rightarrow> 'st pairing_service \<Rightarrow> bool" where
  "called se sv sv' \<longleftrightarrow> sv' = sv \<or> (\<exists>call r. service_call (se_lib se) (se_save se) (se_digest se) sv call = (sv', r)
     \<and> (\<forall>env. call \<noteq> CallClear env))"

lemma called_refl [simp]: "called se sv sv" by (simp add: called_def)

lemma authorize_called: "authorize se env sv message new_id random now = (sv', r) \<Longrightarrow> called se sv sv'"
proof (cases message)
  case (PairRequest name)
  moreover assume "authorize se env sv message new_id random now = (sv', r)"
  ultimately show ?thesis unfolding called_def
    by (intro disjI2 exI [of _ "CallPair env name new_id random now"]) (auto simp: map_prod_def split: prod.splits)
next
  case (Authenticate cid credential)
  moreover assume "authorize se env sv message new_id random now = (sv', r)"
  ultimately show ?thesis unfolding called_def
    by (intro disjI2 exI [of _ "CallAuthenticate env cid credential now"]) (auto simp: map_prod_def split: prod.splits)
qed simp_all

lemma handshake_called: "handshake_authorize se env sv received new_id random now = (sv', outs, r) \<Longrightarrow> called se sv sv'"
  by (auto simp: handshake_authorize_def split: option.splits prod.splits sum.splits dest: authorize_called)

lemma handle_client_called:
  assumes "handle_client_message se env broker_ok sid cid sv awaiting message = (sv', awaiting', calls, continues)"
  shows "called se sv sv'"
proof -
  have push: "called se sv sv1" if "set_push_subscription (se_save se env) sv cid subscription = (sv1, x)" for sv1 x subscription
    using that unfolding called_def by (intro disjI2 exI [of _ "CallSetPush env cid subscription"]) simp
  have identities: "called se sv sv1" if "set_identities (se_lib se) (se_save se env) sv cid ids = (sv1, x)" for sv1 x ids
    using that unfolding called_def by (intro disjI2 exI [of _ "CallSetIdentities env cid ids"]) simp
  show ?thesis
    using assms
    by (auto simp: handle_client_message_def Let_def split: ws_message.splits sum.splits client_message.splits prod.splits
        dest: push identities)
qed

lemma session_select_called:
  assumes "session_select se env broker_ok send_ok sid cid sv l e = (sv', l', outs)"
  shows "called se sv sv'"
proof (cases e)
  case (BrokerCommand c)
  with assms show ?thesis by (cases c) (auto simp: end_session_def split: sum.splits if_splits)
next
  case (ClientReceived received)
  with assms show ?thesis
    by (auto split: option.splits sum.splits prod.splits if_splits dest: handle_client_called)
qed (use assms in \<open>auto simp: end_session_def split: sum.splits if_splits\<close>)

lemma called_published: "called se sv sv' \<Longrightarrow> published (sv_identities sv) (sv_identities sv')"
  by (auto simp: called_def dest: service_call_published) (simp add: published_def)

lemma clear_published: "clear save sv = (sv', r) \<Longrightarrow> published (sv_identities sv) (sv_identities sv')"
  by (auto simp: published_def clear_def Let_def split: if_splits sum.splits prod.splits dest!: commit_identities)

section \<open>The connection and the broker in a run of the server\<close>

text \<open>What a run of the gateway shows of the connection and the broker agrees with a run of the server.\<close>

definition same_turns :: "gateway_label list \<Rightarrow> ('env, 'st) server_label list \<Rightarrow> bool" where
  "same_turns gls ls \<longleftrightarrow> loop_labels gls = broker_turns ls
     \<and> run_queued (conn_labels gls) = run_queued (conn_turns ls) \<and> run_outcomes (conn_labels gls) = run_outcomes (conn_turns ls)
     \<and> run_packets (conn_labels gls) = run_packets (conn_turns ls) \<and> run_written (conn_labels gls) = run_written (conn_turns ls)"

lemma publish_run:
  assumes "runs (gateway_step lib parse_str own) g0 gls g" and "published (g_watch g) w"
  obtains gls' where "runs (gateway_step lib parse_str own) g0 gls' (g\<lparr>g_watch := w\<rparr>)"
    and "\<And>ls. same_turns gls' ls = same_turns gls ls"
proof (cases "w = g_watch g")
  case True
  then show thesis using assms(1) by (intro that [of gls]) simp_all
next
  case False
  with assms(2) obtain v where w: "w = watch_send v (g_watch g)" by (auto simp: published_def)
  have "runs (gateway_step lib parse_str own) g0 (gls @ [GwConn (Published v)]) (g\<lparr>g_watch := w\<rparr>)"
    unfolding runs_snoc w using assms(1) gw_published by blast
  then show thesis by (rule that) (simp add: same_turns_def)
qed

lemma server_step_gateway:
  assumes "server_step se parse_str own capacity s l s'" and "g_watch (s_gateway s) = sv_identities (s_pairing s)"
  shows "g_watch (s_gateway s') = sv_identities (s_pairing s')
    \<and> ((\<exists>w. published (g_watch (s_gateway s)) w \<and> s_gateway s' = (s_gateway s)\<lparr>g_watch := w\<rparr> \<and> conn_turns [l] = [] \<and> broker_turns [l] = [])
      \<or> (\<exists>gl. gateway_step (se_lib se) parse_str own (s_gateway s) gl (s_gateway s')
            \<and> conn_labels [gl] = conn_turns [l] \<and> loop_labels [gl] = broker_turns [l]))"
  using assms(1)
proof (cases rule: server_step.cases)
  case (sv_first n env received new_id random now sv outs r)
  from called_published [OF handshake_called [OF sv_first(4)]] assms(2) show ?thesis by (auto simp: sv_first(1,2))
next
  case (sv_turn n sid cid l e env send_ok sv l' outs mailbox)
  from called_published [OF session_select_called [OF sv_turn(5)]] assms(2) show ?thesis by (auto simp: sv_turn(1,2))
next
  case (sv_clear env sv r)
  from clear_published [OF sv_clear(3)] assms(2) show ?thesis by (auto simp: sv_clear(1,2))
next
  case (sv_conn ev failure written queued g)
  moreover from sv_conn(3) have "g_watch g = g_watch (s_gateway s)" by (cases rule: gateway_step.cases) auto
  ultimately show ?thesis using assms(2) by (intro conjI disjI2 exI [of _ "GwConn (Selected ev failure written queued)"]) auto
next
  case (sv_loop b now outs g mailbox sessions)
  moreover from sv_loop(3) have "g_watch g = g_watch (s_gateway s)" by (cases rule: gateway_step.cases) auto
  ultimately show ?thesis using assms(2)
    by (intro conjI disjI2 exI [of _ "GwLoop (b, now, \<lambda>ch _. channel_open s ch, outs)"]) auto
qed (use assms(2) in \<open>auto simp: published_def intro!: exI [of _ "g_watch (s_gateway s)"]\<close>)

lemma server_gateway_run:
  assumes "runs (server_step se parse_str own capacity) (server_init config sv0 r0) ls s"
  shows "g_watch (s_gateway s) = sv_identities (s_pairing s) \<and>
    (\<exists>gls. runs (gateway_step (se_lib se) parse_str own) (gateway_init config (sv_identities sv0) r0) gls (s_gateway s) \<and> same_turns gls ls)"
  using assms
proof (induction ls arbitrary: s rule: rev_induct)
  case Nil
  then show ?case by (auto simp: server_init_def gateway_init_def same_turns_def intro!: exI [of _ "[]"] runs_Nil)
next
  case (snoc l ls)
  from snoc.prems obtain t where pre: "runs (server_step se parse_str own capacity) (server_init config sv0 r0) ls t"
    and step: "server_step se parse_str own capacity t l s" by (auto simp: runs_snoc)
  from snoc.IH [OF pre] obtain gls where w: "g_watch (s_gateway t) = sv_identities (s_pairing t)"
    and gls: "runs (gateway_step (se_lib se) parse_str own) (gateway_init config (sv_identities sv0) r0) gls (s_gateway t)"
    and same: "same_turns gls ls" by blast
  from server_step_gateway [OF step w] consider
      (published) w' where "published (g_watch (s_gateway t)) w'" "s_gateway s = (s_gateway t)\<lparr>g_watch := w'\<rparr>"
        "conn_turns [l] = []" "broker_turns [l] = []"
    | (step) gl where "gateway_step (se_lib se) parse_str own (s_gateway t) gl (s_gateway s)"
        "conn_labels [gl] = conn_turns [l]" "loop_labels [gl] = broker_turns [l]" by blast
  then have "\<exists>gls. runs (gateway_step (se_lib se) parse_str own) (gateway_init config (sv_identities sv0) r0) gls (s_gateway s)
      \<and> same_turns gls (ls @ [l])"
  proof cases
    case published
    from gls published(1) obtain gls' where "runs (gateway_step (se_lib se) parse_str own)
        (gateway_init config (sv_identities sv0) r0) gls' (s_gateway s)" "same_turns gls' ls"
      using same by (metis publish_run published(2))
    with published(3,4) show ?thesis by (intro exI [of _ gls']) (simp add: same_turns_def)
  next
    case (step gl)
    from gls step(1) have "runs (gateway_step (se_lib se) parse_str own)
        (gateway_init config (sv_identities sv0) r0) (gls @ [gl]) (s_gateway s)" unfolding runs_snoc by blast
    moreover have "same_turns (gls @ [gl]) (ls @ [l])"
      using same step(2,3) unfolding same_turns_def labels_append turns_append run_append by simp
    ultimately show ?thesis by blast
  qed
  with server_step_gateway [OF step w] show ?case by blast
qed

section \<open>Authorized sockets\<close>

text \<open>
  The proof that the first message of a socket gave: it claimed the unpaired server, or it
  presented the paired client's identifier with a credential of the stored hash.
\<close>

definition proves_pairing ::
  "('req, 'cred, 'env, 'st) server_env \<Rightarrow> 'st pairing_service \<Rightarrow> received \<Rightarrow> uuid \<Rightarrow> uuid \<Rightarrow> bool" where
  "proves_pairing se sv received new_id cid \<longleftrightarrow>
     pairing_key sv = None \<and> cid = new_id \<and> (\<exists>name. receive_client se received = Some (PairRequest name))
     \<or> (\<exists>credential. receive_client se received = Some (Authenticate cid credential)
          \<and> pairing_key sv = Some (cid, se_digest se credential))"

definition authorized :: "('req, 'cred, 'env, 'st) server_env \<Rightarrow> ('env, 'st) server_label list \<Rightarrow> nat \<Rightarrow> uuid \<Rightarrow> bool" where
  "authorized se ls n cid \<longleftrightarrow>
     (\<exists>received env new_id random now sv a. SvFirst n received env new_id random now sv (Some a) \<in> set ls
        \<and> proves_pairing se sv received new_id cid)"

lemma handshake_authorized:
  assumes "handshake_authorize se env sv received new_id random now = (sv', outs, Some a)"
  shows "proves_pairing se sv received new_id (authorization_client_id a)"
    and "\<exists>h. pairing_key sv' = Some (authorization_client_id a, h)"
proof -
  from assms obtain message where m: "receive_client se received = Some message"
    and a: "authorize se env sv message new_id random now = (sv', Some (Ok a))"
    by (auto simp: handshake_authorize_def split: option.splits prod.splits sum.splits)
  from authorize_credential [OF a] m show "proves_pairing se sv received new_id (authorization_client_id a)"
    and "\<exists>h. pairing_key sv' = Some (authorization_client_id a, h)" by (auto simp: proves_pairing_def)
qed

fun phase_client :: "socket_phase \<Rightarrow> uuid option" where
  "phase_client (Authorizing a) = Some (authorization_client_id a)"
| "phase_client (Registering a) = Some (authorization_client_id a)"
| "phase_client (Serving _ cid _) = Some cid"
| "phase_client _ = None"

text \<open>What is known of each socket from the labels and the answers so far.\<close>

fun phase_ok ::
  "('req, 'cred, 'env, 'st) server_env \<Rightarrow> ('env, 'st) server_label list \<Rightarrow> (nat \<times> (broker_error + session_id)) list \<Rightarrow>
     nat \<Rightarrow> socket_phase \<Rightarrow> bool" where
  "phase_ok se ls told n (Serving sid cid l) \<longleftrightarrow> authorized se ls n cid \<and> (n, Ok sid) \<in> set told \<and> sl_running l"
| "phase_ok se ls told n phase \<longleftrightarrow> (\<forall>cid. phase_client phase = Some cid \<longrightarrow> authorized se ls n cid)"

text \<open>Where the commands of the mailbox come from.\<close>

fun command_from ::
  "('req, 'cred, 'env, 'st) server_env \<Rightarrow> ('env, 'st) server_label list \<Rightarrow> (nat \<times> (broker_error + session_id)) list \<Rightarrow>
     broker_command \<Rightarrow> bool" where
  "command_from se ls told (CmdResponse sid i k bs) \<longleftrightarrow>
     (\<exists>n cid frame env send_ok. SvTurn n (ClientReceived (Some (Ok (WsBinary frame)))) env send_ok \<in> set ls
        \<and> decode_client (se_lib se) (se_plib se) frame = Ok (AgentResponse i k bs)
        \<and> authorized se ls n cid \<and> (n, Ok sid) \<in> set told)"
| "command_from se ls told (CmdConnect c ch response) \<longleftrightarrow> ch = response"
| "command_from se ls told _ \<longleftrightarrow> True"

fun received_commands :: "loop_label list \<Rightarrow> (broker_command \<times> session_id) list" where
  "received_commands [] = []"
| "received_commands ((CommandReceived cmd fresh, _) # ls) = (cmd, fresh) # received_commands ls"
| "received_commands (_ # ls) = received_commands ls"

definition server_inv :: "('req, 'cred, 'env, 'st) server_env \<Rightarrow> ('env, 'st) server_label list \<Rightarrow> 'st server \<Rightarrow> bool" where
  "server_inv se ls s \<longleftrightarrow>
     (\<forall>n phase. phase_of s n = Some phase \<longrightarrow> phase_ok se ls (s_answers s) n phase)
     \<and> (\<forall>cmd \<in> set (s_mailbox s) \<union> fst ` set (received_commands (broker_turns ls)). command_from se ls (s_answers s) cmd)
     \<and> s_answers s = connects (run_outputs (broker_turns ls))
     \<and> s_sessions s = snd ` set (received_commands (broker_turns ls))
     \<and> distinct (map snd (received_commands (broker_turns ls)))"

lemma received_append [simp]: "received_commands (xs @ ys) = received_commands xs @ received_commands ys"
  by (induction xs rule: received_commands.induct) auto

lemma received_mem: "(cmd, fresh) \<in> set (received_commands ls) \<longleftrightarrow> (\<exists>x. (CommandReceived cmd fresh, x) \<in> set ls)"
  by (induction ls rule: received_commands.induct) auto

lemma authorized_mono: "authorized se ls n cid \<Longrightarrow> set ls \<subseteq> set ls' \<Longrightarrow> authorized se ls' n cid"
  unfolding authorized_def by blast

lemma phase_ok_mono:
  "phase_ok se ls told n phase \<Longrightarrow> set ls \<subseteq> set ls' \<Longrightarrow> set told \<subseteq> set told' \<Longrightarrow> phase_ok se ls' told' n phase"
  by (cases phase) (auto intro: authorized_mono)

lemma command_from_mono:
  assumes "command_from se ls told cmd" and "set ls \<subseteq> set ls'" and "set told \<subseteq> set told'"
  shows "command_from se ls' told' cmd"
proof (cases cmd)
  case (CmdResponse sid i k bs)
  with assms(1) obtain n cid frame env send_ok where
    "SvTurn n (ClientReceived (Some (Ok (WsBinary frame)))) env send_ok \<in> set ls"
    "decode_client (se_lib se) (se_plib se) frame = Ok (AgentResponse i k bs)"
    "authorized se ls n cid" "(n, Ok sid) \<in> set told" by auto
  with assms(2,3) authorized_mono [OF this(3) assms(2)] show ?thesis unfolding CmdResponse command_from.simps by blast
qed (use assms in auto)

text \<open>What a turn of a session sends to the broker.\<close>

lemma handle_client_response:
  assumes "handle_client_message se env broker_ok sid cid sv awaiting message = (sv', awaiting', calls, continues)"
    and "CmdResponse sid' i k bs \<in> set calls"
  shows "sid' = sid \<and> (\<exists>frame. message = WsBinary frame \<and> decode_client (se_lib se) (se_plib se) frame = Ok (AgentResponse i k bs))"
  using assms
  by (auto simp: handle_client_message_def Let_def split: ws_message.splits sum.splits client_message.splits prod.splits if_splits)

lemma session_select_response:
  assumes "session_select se env broker_ok send_ok sid cid sv l e = (sv', l', outs)" and "CmdResponse sid' i k bs \<in> set (broker_calls outs)"
  shows "sid' = sid \<and> (\<exists>frame. e = ClientReceived (Some (Ok (WsBinary frame)))
    \<and> decode_client (se_lib se) (se_plib se) frame = Ok (AgentResponse i k bs))"
proof (cases e)
  case (BrokerCommand c)
  with assms show ?thesis by (cases c) (auto simp: end_session_def split: sum.splits if_splits)
next
  case (ClientReceived received)
  with assms show ?thesis
    by (auto simp: end_session_def split: option.splits sum.splits prod.splits if_splits dest: handle_client_response)
qed (use assms in \<open>auto simp: end_session_def split: sum.splits if_splits\<close>)

lemma session_select_other:
  assumes "session_select se env broker_ok send_ok sid cid sv l e = (sv', l', outs)" and "sl_running l"
  shows "CmdConnect c ch r \<notin> set (broker_calls outs)"
proof -
  from session_select_calls [OF assms] obtain calls where "list_all (own_report sid) calls"
    "broker_calls outs = calls @ (if sl_running l' then [] else [CmdDisconnected sid])" by blast
  then show ?thesis by (auto simp: list_all_iff own_report_def)
qed

lemma send_commands_mem: "send_commands running mailbox commands = Some mailbox' \<Longrightarrow> set mailbox' \<subseteq> set mailbox \<union> set commands"
  by (auto simp: send_commands_def split: if_splits)

lemma server_invD:
  assumes "server_inv se ls s"
  shows "phase_of s n = Some phase \<Longrightarrow> phase_ok se ls (s_answers s) n phase"
    and "cmd \<in> set (s_mailbox s) \<union> fst ` set (received_commands (broker_turns ls)) \<Longrightarrow> command_from se ls (s_answers s) cmd"
    and "s_answers s = connects (run_outputs (broker_turns ls))"
    and "s_sessions s = snd ` set (received_commands (broker_turns ls))"
    and "distinct (map snd (received_commands (broker_turns ls)))"
  using assms unfolding server_inv_def by blast+

lemma server_inv_local:
  assumes inv: "server_inv se ls s" and "broker_turns [l] = []"
    and same: "s_answers s' = s_answers s" "s_sessions s' = s_sessions s"
    and phases: "\<And>n phase. phase_of s' n = Some phase \<Longrightarrow> phase_of s n = Some phase \<or> phase_ok se (ls @ [l]) (s_answers s) n phase"
    and mailbox: "\<And>cmd. cmd \<in> set (s_mailbox s') \<Longrightarrow> cmd \<in> set (s_mailbox s) \<or> command_from se (ls @ [l]) (s_answers s) cmd"
  shows "server_inv se (ls @ [l]) s'"
proof -
  have turns: "broker_turns (ls @ [l]) = broker_turns ls" using assms(2) by simp
  have "phase_ok se (ls @ [l]) (s_answers s) n phase" if "phase_of s' n = Some phase" for n phase
    using phases [OF that] by (auto intro: phase_ok_mono [OF server_invD(1) [OF inv]])
  moreover have "command_from se (ls @ [l]) (s_answers s) cmd"
    if "cmd \<in> set (s_mailbox s') \<union> fst ` set (received_commands (broker_turns ls))" for cmd
  proof -
    from that mailbox [of cmd] consider "cmd \<in> set (s_mailbox s) \<union> fst ` set (received_commands (broker_turns ls))"
      | "command_from se (ls @ [l]) (s_answers s) cmd" by blast
    then show ?thesis by cases (auto intro: command_from_mono [OF server_invD(2) [OF inv]])
  qed
  ultimately show ?thesis using server_invD(3-5) [OF inv] unfolding server_inv_def turns same by blast
qed

lemma server_inv_loop:
  assumes inv: "server_inv se ls s" and takes: "takes s b mailbox sessions"
  shows "server_inv se (ls @ [SvLoop (b, now, send_ok, outs)])
    (s\<lparr>s_gateway := g, s_mailbox := mailbox, s_sessions := sessions, s_answers := s_answers s @ connects outs,
       s_channels := channels\<rparr>)"
proof -
  let ?l = "SvLoop (b, now, send_ok, outs)" and ?told = "s_answers s @ connects outs"
  have phases: "phase_ok se (ls @ [?l]) ?told n phase" if "phase_of s n = Some phase" for n phase
    using server_invD(1) [OF inv that] by (rule phase_ok_mono) auto
  have old: "command_from se (ls @ [?l]) ?told cmd"
    if "cmd \<in> set (s_mailbox s) \<union> fst ` set (received_commands (broker_turns ls))" for cmd
    using server_invD(2) [OF inv that] by (rule command_from_mono) auto
  have "set mailbox \<union> fst ` set (received_commands [(b, now, send_ok, outs)]) \<subseteq> set (s_mailbox s)"
    and "sessions = s_sessions s \<union> snd ` set (received_commands [(b, now, send_ok, outs)])"
    and "snd ` set (received_commands [(b, now, send_ok, outs)]) \<inter> s_sessions s = {}"
    and "distinct (map snd (received_commands [(b, now, send_ok, outs)]))"
    using takes by (cases b; auto)+
  note new = this
  show ?thesis
    unfolding server_inv_def
  proof (intro conjI allI impI ballI)
    fix cmd
    assume "cmd \<in> set (s_mailbox (s\<lparr>s_gateway := g, s_mailbox := mailbox, s_sessions := sessions, s_answers := ?told,
        s_channels := channels\<rparr>)) \<union> fst ` set (received_commands (broker_turns (ls @ [?l])))"
    with new(1) have "cmd \<in> set (s_mailbox s) \<union> fst ` set (received_commands (broker_turns ls))" by (auto simp: image_Un)
    then show "command_from se (ls @ [?l]) (s_answers (s\<lparr>s_gateway := g, s_mailbox := mailbox, s_sessions := sessions,
        s_answers := ?told, s_channels := channels\<rparr>)) cmd" by (simp add: old)
  qed (use new(2-) server_invD(3-5) [OF inv] phases in \<open>auto simp: image_Un\<close>)
qed

lemma finish_session:
  assumes "handshake_finish se a (connect_remote_result n (Some answer)) send_ok = (outs, r)"
  shows "r = Some (sid, cid) \<Longrightarrow> answer = Ok sid \<and> cid = authorization_client_id a"
    and "cmd \<in> set (broker_calls outs) \<Longrightarrow> \<exists>sid. cmd = CmdDisconnected sid"
  using assms
  by (auto simp: handshake_finish_def connect_remote_result_def send_rejected_def split: sum.splits broker_error.splits if_splits)

lemma server_inv_first:
  assumes inv: "server_inv se ls s" and run: "handshake_authorize se env (s_pairing s) received new_id random now = (sv, outs, r)"
  shows "server_inv se (ls @ [SvFirst n received env new_id random now (s_pairing s) r])
    (set_phase n (case r of None \<Rightarrow> Closed | Some a \<Rightarrow> Authorizing a) (set_pairing sv s))"
proof -
  let ?ls = "ls @ [SvFirst n received env new_id random now (s_pairing s) r]"
  have "authorized se ?ls n (authorization_client_id a)" if "r = Some a" for a
    using handshake_authorized(1) [OF run [unfolded that]] unfolding authorized_def that by fastforce
  then show ?thesis
    by (intro server_inv_local [OF inv]) (auto split: if_splits option.splits)
qed

lemma server_inv_connected:
  assumes inv: "server_inv se ls s" and phase: "phase_of s n = Some (Registering a)" and answer: "(n, answer) \<in> set (s_answers s)"
    and run: "handshake_finish se a (connect_remote_result n (Some answer)) send_ok = (outs, r)"
    and sent: "send_commands running (s_mailbox s) (broker_calls outs) = Some mailbox"
  shows "server_inv se (ls @ [SvConnected n answer send_ok])
    (set_phase n (case r of None \<Rightarrow> Closed | Some (sid, cid) \<Rightarrow> Serving sid cid session_init) (s\<lparr>s_mailbox := mailbox\<rparr>))"
proof -
  let ?ls = "ls @ [SvConnected n answer send_ok]"
  have "authorized se ls n (authorization_client_id a)" using server_invD(1) [OF inv phase] by simp
  then have "authorized se ?ls n (authorization_client_id a)" by (rule authorized_mono) auto
  then have ok: "phase_ok se ?ls (s_answers s) n
      (case r of None \<Rightarrow> Closed | Some (sid, cid) \<Rightarrow> Serving sid cid session_init)"
    using finish_session(1) [OF run] answer by (cases r) (auto simp: session_init_def)
  have "cmd \<in> set (s_mailbox s) \<or> command_from se ?ls (s_answers s) cmd" if "cmd \<in> set mailbox" for cmd
    using that finish_session(2) [OF run, of cmd] send_commands_mem [OF sent]
    by (cases "cmd \<in> set (broker_calls outs)") auto
  then show ?thesis using ok by (intro server_inv_local [OF inv]) (simp_all split: if_splits)
qed

lemma server_inv_turn:
  assumes inv: "server_inv se ls s" and phase: "phase_of s n = Some (Serving sid cid l)"
    and run: "session_select se env running send_ok sid cid (s_pairing s) l e = (sv, l', outs)"
    and sent: "send_commands running (s_mailbox s) (broker_calls outs) = Some mailbox"
  shows "server_inv se (ls @ [SvTurn n e env send_ok])
    (set_phase n (if sl_running l' then Serving sid cid l' else Closed)
      (set_pairing sv (s\<lparr>s_mailbox := mailbox, s_channels := channels\<rparr>)))"
proof -
  let ?ls = "ls @ [SvTurn n e env send_ok]"
  have at: "authorized se ls n cid" "(n, Ok sid) \<in> set (s_answers s)" "sl_running l" using server_invD(1) [OF inv phase] by simp_all
  have auth: "authorized se ?ls n cid" using at(1) by (rule authorized_mono) auto
  have "command_from se ?ls (s_answers s) cmd" if "cmd \<in> set (broker_calls outs)" for cmd
  proof (cases cmd)
    case (CmdResponse sid' i k bs)
    with session_select_response [OF run] that obtain frame where "sid' = sid"
      "e = ClientReceived (Some (Ok (WsBinary frame)))" "decode_client (se_lib se) (se_plib se) frame = Ok (AgentResponse i k bs)"
      by blast
    moreover have "SvTurn n e env send_ok \<in> set ?ls" by simp
    ultimately show ?thesis using auth at(2) unfolding CmdResponse command_from.simps by blast
  next
    case (CmdConnect c ch r)
    with session_select_other [OF run at(3)] that show ?thesis by blast
  qed simp_all
  then show ?thesis
    using send_commands_mem [OF sent] auth at(2) by (intro server_inv_local [OF inv]) (auto split: if_splits)
qed

lemma server_inv_step:
  assumes inv: "server_inv se ls s" and "server_step se parse_str own capacity s l s'"
  shows "server_inv se (ls @ [l]) s'"
  using assms(2)
proof (cases rule: server_step.cases)
  case (sv_opened n)
  show ?thesis
    by (rule server_inv_local [OF inv]) (auto simp: sv_opened phase_of_def split: if_splits)
next
  case (sv_first n env received new_id random now sv outs r)
  from server_inv_first [OF inv sv_first(4)] show ?thesis unfolding sv_first(1,2) .
next
  case (sv_registered n a cmd mailbox)
  have "authorized se ls n (authorization_client_id a)" using server_invD(1) [OF inv sv_registered(3)] by simp
  then have "authorized se (ls @ [l]) n (authorization_client_id a)" by (rule authorized_mono) auto
  moreover have "\<exists>c. cmd = CmdConnect c n n"
    using sv_registered(4) by (auto simp: connect_remote_command_def split: if_splits)
  ultimately show ?thesis using send_commands_mem [OF sv_registered(6)]
    by (intro server_inv_local [OF inv]) (auto simp: sv_registered(1,2) split: if_splits)
next
  case (sv_unregistered n a e outs)
  show ?thesis by (rule server_inv_local [OF inv]) (auto simp: sv_unregistered(1,2) split: if_splits)
next
  case (sv_connected n a answer send_ok outs r mailbox)
  from server_inv_connected [OF inv sv_connected(3-6)] show ?thesis unfolding sv_connected(1,2) .
next
  case (sv_turn n sid cid sl e env send_ok sv sl' outs mailbox)
  from server_inv_turn [OF inv sv_turn(3,5,6)] show ?thesis unfolding sv_turn(1,2) .
next
  case (sv_clear env sv r)
  show ?thesis by (rule server_inv_local [OF inv]) (auto simp: sv_clear(1,2))
next
  case (sv_shutdown ch mailbox)
  with send_commands_mem [OF sv_shutdown(4)] show ?thesis by (intro server_inv_local [OF inv]) auto
next
  case (sv_conn ev failure written queued g)
  show ?thesis by (rule server_inv_local [OF inv]) (auto simp: sv_conn(1,2))
next
  case (sv_loop b now outs g mailbox sessions)
  from server_inv_loop [OF inv sv_loop(4)] show ?thesis unfolding sv_loop(1,2) .
qed

lemma server_run_inv:
  assumes "runs (server_step se parse_str own capacity) (server_init config sv0 r0) ls s"
  shows "server_inv se ls s"
  using assms
proof (induction ls arbitrary: s rule: rev_induct)
  case Nil
  then show ?case by (auto simp: server_inv_def server_init_def phase_of_def)
next
  case (snoc l ls)
  then show ?case using server_inv_step unfolding runs_snoc by blast
qed

section \<open>Answers come from authorized sockets\<close>

text \<open>Identifiers of sessions are fresh, so a session belongs to one socket.\<close>

lemma session_socket:
  assumes inv: "server_inv se ls s" and run: "runs loop_step (run_broker_init config) (broker_turns ls) l"
    and "(n, Ok sid) \<in> set (s_answers s)" and "(CommandReceived (CmdConnect capacity ch response) sid, x) \<in> set (broker_turns ls)"
  shows "ch = n"
proof -
  have "(n, Ok sid) \<in> set (connects (run_outputs (broker_turns ls)))" using assms(3) server_invD(3) [OF inv] by simp
  from run_connects [OF run this] obtain c ch' where "(CmdConnect c ch' n, sid) \<in> set (received_commands (broker_turns ls))"
    unfolding received_mem by blast
  moreover have mem: "(CmdConnect capacity ch response, sid) \<in> set (received_commands (broker_turns ls))"
    using assms(4) unfolding received_mem by blast
  ultimately have "response = n" using eq_key_imp_eq_value [of "map prod.swap (received_commands (broker_turns ls))" sid]
      server_invD(5) [OF inv] by (fastforce simp: comp_def)
  moreover have "command_from se ls (s_answers s) (CmdConnect capacity ch response)"
    using mem by (intro server_invD(2) [OF inv]) force
  ultimately show ?thesis by simp
qed

text \<open>
  C1: end to end, an answer is given by the paired client to the request it was asked, and by
  nobody else. In any run of the server with any WebSockets, other connections, revocations
  and failures, suppose the \<open>n\<close>-th packet of a connection of the agent socket was submitted
  and its result is a success. Then the broker had put exactly that packet, with the context
  that the connection announced, on the channel of a WebSocket; that WebSocket was authorized
  by its first message, which either claimed the unpaired server or presented the credential
  of the paired client; and the result is byte for byte what it sent in a frame as the
  response to that request and attempt. While the connection is open, the bytes on it are the
  answers in the order of the packets.
\<close>

theorem server_answers_are_authorized:
  assumes "connection_router_new (se_lib se) (sv_identities sv0) seen = Ok r0"
    and "runs (server_step se parse_str own capacity) (server_init config sv0 r0) ls s"
    and "n < length (run_outcomes (conn_turns ls))"
    and "run_queued (conn_turns ls) ! n = SubmitRequest q ctx token" and "run_outcomes (conn_turns ls) ! n = Ok bs"
  shows "q = run_packets (conn_turns ls) ! n
    \<and> ctx = (case run_packets (conn_turns ls) of [] \<Rightarrow> None
        | first # _ \<Rightarrow> (case decode parse_str first of Inr (Some announced) \<Rightarrow> Some announced | _ \<Rightarrow> None))
    \<and> (\<exists>ws cid i k requested_at deadline frame env send_ok.
         OutRemote ws (RcRequest i k requested_at deadline q ctx) \<in> set (run_outputs (broker_turns ls))
         \<and> authorized se ls ws cid
         \<and> SvTurn ws (ClientReceived (Some (Ok (WsBinary frame)))) env send_ok \<in> set ls
         \<and> decode_client (se_lib se) (se_plib se) frame = Ok (AgentResponse i k bs))
    \<and> (cn_open (g_conn (s_gateway s)) \<longrightarrow>
         run_written (conn_turns ls) = concat (map answer_frame (run_outcomes (conn_turns ls))))"
proof -
  from server_gateway_run [OF assms(2)] obtain gls where
    gls: "runs (gateway_step (se_lib se) parse_str own) (gateway_init config (sv_identities sv0) r0) gls (s_gateway s)"
    and same: "loop_labels gls = broker_turns ls" "run_queued (conn_labels gls) = run_queued (conn_turns ls)"
      "run_outcomes (conn_labels gls) = run_outcomes (conn_turns ls)" "run_packets (conn_labels gls) = run_packets (conn_turns ls)"
      "run_written (conn_labels gls) = run_written (conn_turns ls)" unfolding same_turns_def by blast
  note inv = server_run_inv [OF assms(2)]
  have loop: "runs loop_step (run_broker_init config) (broker_turns ls) (g_loop (s_gateway s))"
    using gateway_loop_run [OF gls] by (simp add: same gateway_init_def)
  note answer = gateway_answers_are_the_clients [OF assms(1) gls, unfolded same, OF assms(3-5)]
  from answer obtain before sid i k fresh x after outbound requested_at deadline m where
    turns: "broker_turns ls = before @ (CommandReceived (CmdResponse sid i k bs) fresh, x) # after"
    and out: "OutRemote outbound (RcRequest i k requested_at deadline q ctx) \<in> set (run_outputs before)"
    and m: "runs loop_step (run_broker_init config) before m" "a_remote (l_actor m) = Some (sid, outbound)" by blast
  have "CmdResponse sid i k bs \<in> fst ` set (received_commands (broker_turns ls))" by (force simp: turns)
  with server_invD(2) [OF inv, of "CmdResponse sid i k bs"] obtain ws cid frame env send_ok where
    ws: "SvTurn ws (ClientReceived (Some (Ok (WsBinary frame)))) env send_ok \<in> set ls"
      "decode_client (se_lib se) (se_plib se) frame = Ok (AgentResponse i k bs)" "authorized se ls ws cid"
      "(ws, Ok sid) \<in> set (s_answers s)" by auto
  from run_remote [OF m] obtain c response y where "(CommandReceived (CmdConnect c outbound response) sid, y) \<in> set before"
    by (auto simp: run_broker_init_def)
  then have "(CommandReceived (CmdConnect c outbound response) sid, y) \<in> set (broker_turns ls)" by (simp add: turns)
  from session_socket [OF inv loop ws(4) this] have "outbound = ws" .
  then have "OutRemote ws (RcRequest i k requested_at deadline q ctx) \<in> set (run_outputs (broker_turns ls))"
    using out by (simp add: turns)
  with answer ws show ?thesis by blast
qed

theorem server_answers_are_authorized_witness:
  "\<exists>ls s. runs (server_step ex_phone_env (\<lambda>_. Some 5) UNIV 2) (server_init ex_config (ex_phone None) ex_router) ls s
     \<and> run_outcomes (conn_turns ls) = [Ok [9]] \<and> run_packets (conn_turns ls) = [ex_sign]
     \<and> (\<exists>ws cid i k requested_at deadline frame env send_ok.
          OutRemote ws (RcRequest i k requested_at deadline ex_sign None) \<in> set (run_outputs (broker_turns ls))
          \<and> authorized ex_phone_env ls ws cid
          \<and> SvTurn ws (ClientReceived (Some (Ok (WsBinary frame)))) env send_ok \<in> set ls
          \<and> decode_client ex_ssh_lib ex_phone_lib frame = Ok (AgentResponse i k [9]))"
proof -
  from ex_server_run obtain ls s where run: "runs (server_step ex_phone_env (\<lambda>_. Some 5) UNIV 2)
      (server_init ex_config (ex_phone None) ex_router) ls s"
    and ls: "conn_turns ls = [ex_frame_label, Selected (ResponseReady (Ok [9])) None [9] []]"
    by (elim exE) (rule that, assumption, simp)
  have env: "se_lib ex_phone_env = ex_ssh_lib" "se_plib ex_phone_env = ex_phone_lib"
    by (simp_all add: ex_phone_env_def ex_server_env_def)
  have "connection_router_new (se_lib ex_phone_env) (sv_identities (ex_phone None)) 3 = Ok ex_router"
    by (simp add: env ex_phone_def ex_router_new)
  from server_answers_are_authorized [OF this run, of 0 ex_sign None 40 "[9]"] run show ?thesis
    unfolding env by (intro exI [of _ ls] exI [of _ s]) (simp add: ls)
qed

section \<open>Sessions and revocation\<close>

text \<open>No revocation since the subscription: the client is the one paired now.\<close>

abbreviation revocations :: "'st server \<Rightarrow> nat" where
  "revocations s \<equiv> subscribe_revocations (s_pairing s)"

definition current_inv :: "'st server \<Rightarrow> bool" where
  "current_inv s \<longleftrightarrow> (\<forall>n ws. s_sockets s n = Some ws \<longrightarrow> ws_seen ws \<le> revocations s
     \<and> (\<forall>cid. phase_client (ws_phase ws) = Some cid \<and> ws_seen ws = revocations s \<longrightarrow> (\<exists>h. pairing_key (s_pairing s) = Some (cid, h))))"

text \<open>Only a clear that succeeds revokes.\<close>

lemma commit_revocations: "commit save sv n = (sv', r) \<Longrightarrow> sv_revocations sv' = sv_revocations sv"
  by (auto simp: commit_def split: prod.splits sum.splits)

lemma called_revocations: "called se sv sv' \<Longrightarrow> subscribe_revocations sv' = subscribe_revocations sv"
proof -
  assume "called se sv sv'"
  then consider "sv' = sv" | call r where "service_call (se_lib se) (se_save se) (se_digest se) sv call = (sv', r)"
    "\<forall>env. call \<noteq> CallClear env" unfolding called_def by blast
  then show ?thesis
  proof cases
    case 2
    then show ?thesis
      by (cases call)
        (auto simp: map_prod_def pair_def authenticate_def set_push_subscription_def set_identities_def Let_def subscribe_revocations_def
          split: if_splits option.splits sum.splits prod.splits dest!: commit_revocations)
  qed simp
qed

lemma clear_revocations:
  "clear save sv = (sv', r) \<Longrightarrow> subscribe_revocations sv' = subscribe_revocations sv + (if r = Ok True then 1 else 0)"
  by (auto simp: clear_def Let_def subscribe_revocations_def revoke_def split: if_splits sum.splits prod.splits dest!: commit_revocations)

lemma called_key: "called se sv sv' \<Longrightarrow> pairing_key sv = Some key \<Longrightarrow> pairing_key sv' = Some key"
proof -
  assume "called se sv sv'" and key: "pairing_key sv = Some key"
  then consider "sv' = sv" | call r where "service_call (se_lib se) (se_save se) (se_digest se) sv call = (sv', r)"
    "\<forall>env. call \<noteq> CallClear env" unfolding called_def by blast
  then show ?thesis
  proof cases
    case 2
    then have "service_step (se_lib se) (se_save se) (se_digest se) sv (call, r) sv'" by (intro service_step)
    note step = step_key [OF this]
    have "\<not> clear_succeeds (call, r)" using 2(2) by (auto simp: clear_succeeds_def split: pairing_call.splits)
    moreover have "\<not> pair_succeeds (call, r)" using step(1) key by auto
    ultimately show ?thesis using step(3) key by simp
  qed (use key in simp)
qed

lemma current_inv_keep:
  assumes "current_inv s" and "revocations s' = revocations s"
    and "\<And>key. pairing_key (s_pairing s) = Some key \<Longrightarrow> pairing_key (s_pairing s') = Some key"
    and "\<And>n ws cid. s_sockets s' n = Some ws \<Longrightarrow> \<exists>ws0. s_sockets s n = Some ws0 \<and> ws_seen ws0 = ws_seen ws
      \<and> (phase_client (ws_phase ws) = Some cid \<longrightarrow> phase_client (ws_phase ws0) = Some cid
          \<or> (\<exists>h. pairing_key (s_pairing s') = Some (cid, h)))"
  shows "current_inv s'"
  unfolding current_inv_def
proof (intro allI impI)
  fix n ws
  assume "s_sockets s' n = Some ws"
  note at = assms(4) [OF this]
  have "ws_seen ws \<le> revocations s'" using at assms(1,2) unfolding current_inv_def by metis
  moreover have "\<exists>h. pairing_key (s_pairing s') = Some (cid, h)"
    if "phase_client (ws_phase ws) = Some cid" "ws_seen ws = revocations s'" for cid
  proof -
    from at [of cid] that obtain ws0 where ws0: "s_sockets s n = Some ws0" "ws_seen ws0 = revocations s"
      "phase_client (ws_phase ws0) = Some cid \<or> (\<exists>h. pairing_key (s_pairing s') = Some (cid, h))" by (auto simp: assms(2))
    from ws0(3) show ?thesis
    proof
      assume "phase_client (ws_phase ws0) = Some cid"
      with assms(1) ws0(1,2) obtain h where "pairing_key (s_pairing s) = Some (cid, h)" unfolding current_inv_def by blast
      then show ?thesis using assms(3) by blast
    qed
  qed
  ultimately show "ws_seen ws \<le> revocations s' \<and> (\<forall>cid. phase_client (ws_phase ws) = Some cid \<and> ws_seen ws = revocations s' \<longrightarrow>
      (\<exists>h. pairing_key (s_pairing s') = Some (cid, h)))" by blast
qed

lemma current_inv_phase:
  assumes "current_inv s" and "revocations s' = revocations s" and "s_sockets s' = s_sockets (set_phase n phase s)"
    and "\<And>key. pairing_key (s_pairing s) = Some key \<Longrightarrow> pairing_key (s_pairing s') = Some key"
    and "\<And>cid. phase_client phase = Some cid \<Longrightarrow> (\<exists>ph. phase_of s n = Some ph \<and> phase_client ph = Some cid)
      \<or> (\<exists>h. pairing_key (s_pairing s') = Some (cid, h))"
  shows "current_inv s'"
  using assms(1,2,4)
proof (rule current_inv_keep)
  fix m ws cid
  assume "s_sockets s' m = Some ws"
  then show "\<exists>ws0. s_sockets s m = Some ws0 \<and> ws_seen ws0 = ws_seen ws
      \<and> (phase_client (ws_phase ws) = Some cid \<longrightarrow> phase_client (ws_phase ws0) = Some cid
          \<or> (\<exists>h. pairing_key (s_pairing s') = Some (cid, h)))"
    using assms(5) [of cid] unfolding assms(3) by (auto simp: s_sockets_set_phase phase_of_def split: if_splits)
qed

lemma current_inv_step:
  assumes cur: "current_inv s" and "server_step se parse_str own capacity s l s'"
  shows "current_inv s'"
  using assms(2)
proof (cases rule: server_step.cases)
  case (sv_opened n)
  with cur show ?thesis by (auto simp: current_inv_def)
next
  case (sv_first n env received new_id random now sv outs r)
  have "\<exists>h. pairing_key sv = Some (cid, h)"
    if "phase_client (case r of None \<Rightarrow> Closed | Some a \<Rightarrow> Authorizing a) = Some cid" for cid
    using that handshake_authorized(2) [of se env "s_pairing s" received new_id random now sv outs] sv_first(4) by (cases r) auto
  then show ?thesis using called_key [OF handshake_called [OF sv_first(4)]] called_revocations [OF handshake_called [OF sv_first(4)]]
    by (intro current_inv_phase [OF cur, of _ n "case r of None \<Rightarrow> Closed | Some a \<Rightarrow> Authorizing a"])
      (simp_all add: sv_first(2) set_phase_def)
next
  case (sv_registered n a cmd mailbox)
  show ?thesis
    by (rule current_inv_phase [OF cur, of _ n "Registering a"]) (auto simp: sv_registered(2,3) set_phase_def)
next
  case (sv_unregistered n a e outs)
  show ?thesis by (rule current_inv_phase [OF cur, of _ n Closed]) (auto simp: sv_unregistered(2))
next
  case (sv_connected n a answer send_ok outs r mailbox)
  have "phase_client (case r of None \<Rightarrow> Closed | Some (sid, cid) \<Rightarrow> Serving sid cid session_init) = Some cid
      \<Longrightarrow> cid = authorization_client_id a" for cid
    using finish_session(1) [OF sv_connected(5)] by (cases r) auto
  then show ?thesis
    by (intro current_inv_phase [OF cur, of _ n "case r of None \<Rightarrow> Closed | Some (sid, cid) \<Rightarrow> Serving sid cid session_init"])
      (simp_all add: sv_connected(2,3) set_phase_def)
next
  case (sv_turn n sid cid sl e env send_ok sv sl' outs mailbox)
  show ?thesis
    by (rule current_inv_phase [OF cur, of _ n "if sl_running sl' then Serving sid cid sl' else Closed"])
      (use called_key [OF session_select_called [OF sv_turn(5)]] called_revocations [OF session_select_called [OF sv_turn(5)]]
          sv_turn(3) in \<open>auto simp: sv_turn(2) set_phase_def split: if_splits\<close>)
next
  case (sv_clear env sv r)
  show ?thesis
  proof (cases "r = Ok True")
    case True
    then show ?thesis using cur clear_revocations [OF sv_clear(3)] by (fastforce simp: sv_clear(2) current_inv_def)
  next
    case False
    then show ?thesis using clear_key [OF sv_clear(3)] clear_revocations [OF sv_clear(3)] cur by (simp add: sv_clear(2) current_inv_def)
  qed
qed (use cur in \<open>auto simp: current_inv_def\<close>)

interpretation server_currency: kept_by_steps "server_step se parse_str own capacity" current_inv for se parse_str own capacity
  by unfold_locales (rule current_inv_step)

text \<open>
  C7: a session does not outlive its pairing unnoticed. At any moment of any run of the
  server, a WebSocket that has been authorized for a client is either that of the client
  paired at that moment, or it has a revocation pending: the pairing was cleared after it
  subscribed, even if before it was authorized. In the second case the next thing the
  session does about it is to end, whatever the client and the broker do.
\<close>

theorem server_sessions_are_current:
  assumes "runs (server_step se parse_str own capacity) (server_init config sv0 r0) ls s"
    and "phase_of s n = Some phase" and "phase_client phase = Some cid"
  shows "(\<exists>h. pairing_key (s_pairing s) = Some (cid, h))
    \<or> event_ready s n RevocationChanged
        \<and> (\<forall>sid l env broker_ok send_ok. phase = Serving sid cid l \<longrightarrow>
            session_select se env broker_ok send_ok sid cid (s_pairing s) l RevocationChanged
              = (s_pairing s, l\<lparr>sl_running := False\<rparr>, [BrokerCall (CmdDisconnected sid)]))"
proof -
  have "current_inv (server_init config sv0 r0)" by (simp add: current_inv_def server_init_def)
  from server_currency.runs_keep [OF assms(1) this] have cur: "current_inv s" .
  from assms(2) obtain ws where ws: "s_sockets s n = Some ws" "ws_phase ws = phase" by (auto simp: phase_of_def)
  show ?thesis
  proof (cases "ws_seen ws = revocations s")
    case True
    with cur ws assms(3) have "\<exists>h. pairing_key (s_pairing s) = Some (cid, h)" unfolding current_inv_def by blast
    then show ?thesis ..
  next
    case False
    with ws show ?thesis by (auto simp: end_session_def)
  qed
qed

theorem server_sessions_are_current_witness:
  "\<exists>s. runs (server_step ex_phone_env (\<lambda>_. Some 5) UNIV 2) (server_init ex_config (ex_phone None) ex_router)
       [SvOpened 60, ex_first, SvClear ()] s
     \<and> phase_of s 60 = Some (Authorizing (Authenticated 1 2)) \<and> event_ready s 60 RevocationChanged"
proof -
  from ex_clear_run obtain s where run: "runs (server_step ex_phone_env (\<lambda>_. Some 5) UNIV 2)
      (server_init ex_config (ex_phone None) ex_router) [SvOpened 60, ex_first, SvClear ()] s"
    and s: "phase_of s 60 = Some (Authorizing (Authenticated 1 2))" "pairing_key (s_pairing s) = None" by blast
  from server_sessions_are_current [OF run s(1), of 2] s(2) run s(1) show ?thesis by auto
qed

end
