(* ===== verification/Broker_Wake.thy ===== *)
theory Broker_Wake
  imports Broker_Reply
begin

text \<open>
  The wake-ups that the broker asks for: when one is sent, what it says, and what it cannot
  reveal.
\<close>

section \<open>Wake-ups among effects and outputs\<close>

fun effect_wakes :: "effect list \<Rightarrow> wake_request list" where
  "effect_wakes [] = []"
| "effect_wakes (WakeRequired w # es) = w # effect_wakes es"
| "effect_wakes (_ # es) = effect_wakes es"

fun output_wakes :: "actor_output list \<Rightarrow> wake_request list" where
  "output_wakes [] = []"
| "output_wakes (OutWake w # outs) = w # output_wakes outs"
| "output_wakes (_ # outs) = output_wakes outs"

lemma effect_wakes_append [simp]: "effect_wakes (xs @ ys) = effect_wakes xs @ effect_wakes ys"
  by (induction xs rule: effect_wakes.induct) auto

lemma output_wakes_append [simp]: "output_wakes (xs @ ys) = output_wakes xs @ output_wakes ys"
  by (induction xs rule: output_wakes.induct) auto

lemma expire_each_wakes: "expire_each xs m = Some (m', es) \<Longrightarrow> effect_wakes es = []"
  by (induction xs arbitrary: m m' es) (auto simp: cancel_effects_def split: option.splits pending_state.splits)

lemma dispatch_loop_wakes: "effect_wakes (snd (snd (dispatch_loop sid c n q m))) = []"
  by (induction q arbitrary: n m) (auto simp: Let_def case_prod_beta' dispatch_effect_def split: option.splits)

lemma dispatch_work_wakes: "effect_wakes (snd (dispatch_work s)) = []"
  by (simp add: dispatch_work_def dispatch_loop_wakes case_prod_beta' Let_def split: option.split)

lemma reconcile_wakes: "effect_wakes (snd (reconcile s)) = effect_wakes (snd (announce_wake (fst (dispatch_work s))))"
  by (simp add: reconcile_def dispatch_work_wakes case_prod_beta' Let_def)

lemma handle_event_wakes: "handle_event s e = Some (s', Ok es) \<Longrightarrow> effect_wakes es = []"
  by (cases e) (auto simp: submit_request_def remote_response_event_def cancel_request_def cancel_effects_def Let_def
      split: option.splits if_splits remote_agent_state.splits pending_state.splits)

section \<open>Summaries\<close>

lemma wake_reasons_mem:
  "r \<in> set (wake_reasons s) \<longleftrightarrow>
     (\<exists>i p ctx. i \<in> set (queue s) \<and> hm_get (pending s) i = Some p \<and> pr_context p = Some ctx \<and> reason ctx = r)"
  by (force simp: wake_reasons_def set_first_seen List.map_filter_def split: option.splits)

text \<open>\<open>shrunk s s'\<close>: nothing joins the queue from \<open>s\<close> to \<open>s'\<close>.\<close>

definition shrunk :: "broker_state \<Rightarrow> broker_state \<Rightarrow> bool" where
  "shrunk s s' \<longleftrightarrow> agent_session (agent s') = agent_session (agent s) \<and> wake_announced s' = wake_announced s
     \<and> set (queue s') \<subseteq> set (queue s)
     \<and> (\<forall>i p. hm_get (pending s') i = Some p \<longrightarrow> hm_get (pending s) i = Some p)"

lemma shrunk_refl [simp]: "shrunk s s" by (simp add: shrunk_def)

lemma shrunk_trans: "shrunk s t \<Longrightarrow> shrunk t u \<Longrightarrow> shrunk s u" unfolding shrunk_def by auto

lemma shrunk_reasons:
  assumes "shrunk s s'"
  shows "set (wake_reasons s') \<subseteq> set (wake_reasons s)"
proof
  fix r
  assume "r \<in> set (wake_reasons s')"
  then obtain i p ctx where "i \<in> set (queue s')" "hm_get (pending s') i = Some p" "pr_context p = Some ctx" "reason ctx = r"
    unfolding wake_reasons_mem by blast
  with assms show "r \<in> set (wake_reasons s)" unfolding shrunk_def wake_reasons_mem by blast
qed

lemma expire_each_get: "expire_each xs m = Some (m', es) \<Longrightarrow> hm_get m' i = Some p \<Longrightarrow> hm_get m i = Some p"
proof (induction xs arbitrary: m m' es)
  case (Cons x xs)
  obtain j n where x: "x = (j, n)" by (cases x)
  from Cons.prems obtain es' where "expire_each xs (hm_remove j m) = Some (m', es')" by (auto simp: x split: option.splits)
  from Cons.IH [OF this Cons.prems(2)] show ?case by (simp add: hm_simps split: if_splits)
qed simp

lemma expire_shrunk: "expire s now = Some (s1, es) \<Longrightarrow> shrunk s s1"
  by (auto simp: expire_def Let_def shrunk_def split: option.splits dest: expire_each_get)

text \<open>An event adds to the queue only together with a fresh need for a wake-up.\<close>

lemma handle_event_shrunk:
  "handle_event s e = Some (s', Ok es) \<Longrightarrow> shrunk s s' \<or> \<not> wake_announced s' "
  by (cases e) (auto simp: submit_request_def remote_response_event_def cancel_request_def shrunk_def hm_simps Let_def
      split: option.splits if_splits remote_agent_state.splits dest!: connected_session)


section \<open>One call of the model\<close>

lemma apply_steps:
  assumes "apply_event s e now = Some (s', Ok es)"
  obtains s1 xs s2 hs where "expire s now = Some (s1, xs)" and "handle_event s1 e = Some (s2, Ok hs)"
    and "s' = fst (reconcile s2)" and "effect_wakes es = effect_wakes (snd (reconcile s2))"
proof -
  from assms obtain s1 xs s2 hs where x: "expire s now = Some (s1, xs)" "handle_event s1 e = Some (s2, Ok hs)"
    "s' = fst (reconcile s2)" "es = xs @ hs @ snd (reconcile s2)"
    by (auto simp: apply_event_def case_prod_beta' Let_def split: option.splits sum.splits)
  have "effect_wakes xs = []"
    using x(1) by (auto simp: expire_def Let_def split: option.splits dest: expire_each_wakes)
  with x handle_event_wakes [OF x(2)] show thesis by (intro that) simp_all
qed

lemma reconcile_idle:
  assumes "agent_session (agent s) = None"
  shows "queue (fst (reconcile s)) = queue s" and "pending (fst (reconcile s)) = pending s"
    and "wake_reasons (fst (reconcile s)) = wake_reasons s"
    and "wake_announced (fst (reconcile s)) \<longleftrightarrow> queue s \<noteq> []"
    and "effect_wakes (snd (reconcile s)) = (if queue s = [] \<or> wake_announced s then [] else [\<lparr>reasons = wake_reasons s\<rparr>])"
  using assms by (simp_all add: reconcile_def dispatch_work_def announce_wake_def connected_None [THEN iffD2] wake_reasons_def)

lemma reconcile_no_wake:
  "agent_session (agent s) \<noteq> None \<Longrightarrow> effect_wakes (snd (reconcile s)) = []"
  by (simp add: reconcile_wakes announce_wake_def dispatch_work_frame)

text \<open>
  \<open>noted ws s\<close>: while nobody is connected and requests wait, the latest of the wake-ups \<open>ws\<close>
  names the reason of every one of them.
\<close>

definition noted :: "wake_request list \<Rightarrow> broker_state \<Rightarrow> bool" where
  "noted ws s \<longleftrightarrow> (agent_session (agent s) = None \<and> queue s \<noteq> [] \<longrightarrow>
     wake_announced s \<and> ws \<noteq> [] \<and> set (wake_reasons s) \<subseteq> set (reasons (last ws)))"

lemma apply_noted:
  assumes "apply_event s e now = Some (s', Ok es)" and "noted ws s"
  shows "noted (ws @ effect_wakes es) s'"
proof -
  from assms(1) obtain s1 xs s2 hs where x: "expire s now = Some (s1, xs)" "handle_event s1 e = Some (s2, Ok hs)"
    "s' = fst (reconcile s2)" and w: "effect_wakes es = effect_wakes (snd (reconcile s2))" by (rule apply_steps)
  show ?thesis
  proof (cases "agent_session (agent s2) = None \<and> queue s2 \<noteq> [] \<and> wake_announced s2")
    case True
    with handle_event_shrunk [OF x(2)] have "shrunk s1 s2" by blast
    with expire_shrunk [OF x(1)] have sh: "shrunk s s2" by (rule shrunk_trans)
    then have "agent_session (agent s) = None" "queue s \<noteq> []" using True by (auto simp: shrunk_def)
    with assms(2) shrunk_reasons [OF sh] have "ws \<noteq> []" "set (wake_reasons s2) \<subseteq> set (reasons (last ws))"
      by (auto simp: noted_def)
    with True show ?thesis by (simp add: noted_def x(3) w reconcile_idle reconcile_frame(1))
  next
    case False
    then show ?thesis
      by (cases "agent_session (agent s2) = None") (auto simp: noted_def x(3) w reconcile_idle reconcile_frame(1))
  qed
qed

section \<open>Runs of the loop\<close>

interpretation wakes_noted: execution "\<lambda>a effects outs. noted (ws @ output_wakes outs @ effect_wakes effects) (a_state a)" now for ws now
proof
  fix a sid i k ra dl packet ctx effects outs st reconciled
  assume "noted (ws @ output_wakes outs @ effect_wakes (Dispatch sid i k ra dl packet ctx # effects)) (a_state a)"
    and "apply_event (a_state a) (EvDisconnected sid) now = Some (st, Ok reconciled)"
  from apply_noted [OF this(2,1)]
  show "noted (ws @ output_wakes outs @ effect_wakes (effects @ reconciled)) (a_state (a\<lparr>a_remote := None, a_state := st\<rparr>))" by simp
qed simp_all

lemma execute_noted:
  "execute send_ok a effects now = Some (a', outs) \<Longrightarrow> noted (ws @ effect_wakes effects) (a_state a) \<Longrightarrow>
     noted (ws @ output_wakes outs) (a_state a')"
  using wakes_noted.execute_from [of send_ok a effects now a' outs ws] by simp

lemma agent_session_None: "agent_session ag = None \<longleftrightarrow> ag = RemoteDisconnected"
  by (cases ag) auto

lemma connect_refused_state:
  "apply_event s e now = Some (s', Err err) \<Longrightarrow> agent_session (agent s') \<noteq> None"
  by (cases e) (auto simp: apply_event_def Let_def case_prod_beta' agent_session_None
      split: option.splits sum.splits if_splits remote_agent_state.splits)

lemma apply_actor_noted:
  assumes "apply_actor send_ok a e now = Some (a', outs)" and "noted ws (a_state a)"
  shows "noted (ws @ output_wakes outs) (a_state a')"
proof -
  from assms(1) obtain st r where ap: "apply_event (a_state a) e now = Some (st, r)"
    by (auto simp: apply_actor_def split: option.splits)
  show ?thesis
  proof (cases r)
    case (Inl err)
    with connect_refused_state ap have "agent_session (agent st) \<noteq> None" by blast
    moreover have "a_state a' = st" using assms(1) ap Inl by (auto simp: apply_actor_def)
    ultimately show ?thesis by (auto simp: noted_def)
  next
    case (Inr es)
    with assms(1) ap have "execute send_ok (a\<lparr>a_state := st\<rparr>) es now = Some (a', outs)" by (simp add: apply_actor_def)
    from execute_noted [OF this, of ws] apply_noted [OF ap [unfolded Inr] assms(2)] show ?thesis by simp
  qed
qed


lemma stop_actor_wakes: "output_wakes (snd (stop_actor a)) = []"
proof -
  have "output_wakes (concat (map (\<lambda>(_, w). [OutAbort (w_cancellation w), OutReply (w_response w) (Err Unavailable)]) ws)) = []"
    for ws :: "(request_id, waiter) hashmap" by (induction ws) auto
  then show ?thesis by (simp add: stop_actor_def)
qed

lemma handle_command_noted:
  assumes "handle_command send_ok a cmd fresh now = Some (stopped, a', outs)" and "noted ws (a_state a)"
  shows "noted (ws @ output_wakes outs) (a_state a')"
proof (cases cmd)
  case (CmdConnect capacity ch response)
  with assms(1) obtain st r where ap: "apply_event (a_state a) (EvConnected fresh capacity) now = Some (st, r)"
    by (auto split: option.splits)
  show ?thesis
  proof (cases r)
    case (Inl err)
    with ap assms(1) CmdConnect have "a_state a' = st" by (cases err) auto
    with connect_refused_state [OF ap [unfolded Inl]] show ?thesis by (auto simp: noted_def)
  next
    case (Inr es)
    with ap assms(1) CmdConnect obtain outs' where
      run: "execute send_ok (a\<lparr>a_state := st, a_remote := Some (fresh, ch)\<rparr>) es now = Some (a', outs')"
      and outs: "outs = OutConnect response (Ok fresh) # outs'"
      by (auto simp: continue_with_def emit_def)
    from execute_noted [OF run, of ws] apply_noted [OF ap [unfolded Inr] assms(2)] show ?thesis by (simp add: outs)
  qed
next
  case (CmdDisconnected sid)
  with assms(1) obtain a1 where "apply_actor send_ok a1 (EvDisconnected sid) now = Some (a', outs)" "a_state a1 = a_state a"
    by (auto simp: continue_with_def Let_def split: option.splits if_splits)
  with apply_actor_noted assms(2) show ?thesis by fastforce
next
  case (CmdShutdown response)
  with stop_actor_wakes [of a] assms show ?thesis by (auto simp: stop_actor_def)
qed (use assms apply_actor_noted in \<open>fastforce simp: continue_with_def\<close>)+


lemma loop_step_noted:
  assumes "loop_step l (b, now, send_ok, outs) l'" and "noted ws (a_state (l_actor l))"
  shows "noted (ws @ output_wakes outs) (a_state (l_actor l'))"
  using assms(1)
proof (cases rule: loop_step_cases)
  case (request rq i t f)
  from request(2) obtain a1 e where "apply_actor send_ok a1 e now = Some (l_actor l', outs)" "a_state a1 = a_state (l_actor l)"
    by (rule handle_localE)
  with apply_actor_noted assms(2) show ?thesis by fastforce
next
  case ended
  with stop_actor_wakes [of "l_actor l"] assms(2) show ?thesis by (auto simp: stop_actor_def)
qed (use assms(2) in \<open>auto intro: apply_actor_noted handle_command_noted\<close>)

lemma run_noted:
  assumes "runs loop_step (run_broker_init config) ls l"
  shows "noted (output_wakes (run_outputs ls)) (a_state (l_actor l))"
  using assms
proof (induction ls arbitrary: l rule: rev_induct)
  case Nil
  then show ?case by (simp add: noted_def run_broker_init_def broker_new_def)
next
  case (snoc x ls)
  obtain b now send_ok outs where x: "x = (b, now, send_ok, outs)" by (cases x) auto
  from snoc.prems obtain m where "runs loop_step (run_broker_init config) ls m" "loop_step m x l"
    by (auto simp: runs_append runs_Cons_iff)
  with loop_step_noted snoc.IH show ?case by (simp add: x run_outputs_def)
qed

section \<open>When a wake-up is sent\<close>

text \<open>The events that call for one: an admitted request, and the end of the session.\<close>

fun calls_for_wake :: "broker_state \<Rightarrow> event \<Rightarrow> broker_state \<Rightarrow> bool" where
  "calls_for_wake s (EvSubmit i _ _ _ _ _) s' = (i \<in> set (queue s'))"
| "calls_for_wake s (EvDisconnected sid) s' = (agent_session (agent s) = Some sid)"
| "calls_for_wake s _ s' = False"

lemma handle_event_wake_flag:
  assumes "handle_event s e = Some (s', Ok es)" and "agent_session (agent s') = None"
    and "\<And>i pk c d ra dt. e = EvSubmit i pk c d ra dt \<Longrightarrow> i \<notin> set (queue s)"
  shows "if calls_for_wake s e s' then \<not> wake_announced s' else agent_session (agent s) = None \<and> shrunk s s'"
  using assms
  by (cases e) (auto simp: submit_request_def remote_response_event_def cancel_request_def shrunk_def hm_simps Let_def
      split: option.splits if_splits remote_agent_state.splits dest!: connected_session)


interpretation noted_runs: kept_by_steps broker_step "\<lambda>s. \<exists>ws. noted ws s"
proof
  fix s l t
  assume step: "broker_step s l t" and "\<exists>ws. noted ws s"
  then obtain ws where ws: "noted ws s" by blast
  from step obtain e now r where ap: "apply_event s e now = Some (t, r)" by (auto elim: broker_stepE)
  show "\<exists>ws. noted ws t"
  proof (cases r)
    case (Inl err)
    from connect_refused_state [OF ap [unfolded Inl]] have "noted [] t" by (simp add: noted_def)
    then show ?thesis by blast
  next
    case (Inr es)
    from apply_noted [OF ap [unfolded Inr] ws] show ?thesis by blast
  qed
qed

lemma queue_pending:
  assumes "broker_inv s"
  shows "set (queue s) \<subseteq> hm_keys (pending s)"
proof -
  from assms obtain I Q where r: "rep s I Q" by (rule inv_repE)
  then have "queue s = map fst Q" by (simp add: rep_def)
  with rep_set [OF r] show ?thesis by auto
qed

section \<open>Examples\<close>

definition ex_wake_context :: "rstring \<Rightarrow> rstring list \<Rightarrow> request_context" where
  "ex_wake_context r cmd = \<lparr>group_id = 3, reason = r, command = cmd\<rparr>"

definition ex_submit :: "request_id \<Rightarrow> bytes \<Rightarrow> rstring \<Rightarrow> rstring list \<Rightarrow> event" where
  "ex_submit i packet r cmd = EvSubmit i packet (Some (ex_wake_context r cmd)) 50 0 0"

lemmas wake_unfold = apply_unfold submit_request_def hm_insert_def wrap_u64_def broker_new_def ex_submit_def ex_wake_context_def

section \<open>Exactness\<close>

text \<open>
  C14: the user is woken exactly when there is something new to say. In every reachable state,
  a call asks for a wake-up if and only if afterwards nobody is connected, requests wait, and
  the call admitted a request or ended the session; ticks, cancellations, answers and refused
  requests never do. The wake-up lists the distinct reasons of the waiting requests.
\<close>

theorem broker_wakes_exactly:
  assumes "runs broker_step (broker_new limit) ls s" and "admissible s e" and "apply_event s e now = Some (s', Ok es)"
  shows "effect_wakes es = (if agent_session (agent s') = None \<and> queue s' \<noteq> [] \<and> calls_for_wake s e s'
      then [\<lparr>reasons = wake_reasons s'\<rparr>] else [])
    \<and> distinct (wake_reasons s')
    \<and> set (wake_reasons s') = {reason ctx |i p ctx. i \<in> set (queue s') \<and> hm_get (pending s') i = Some p \<and> pr_context p = Some ctx}"
proof -
  from assms(3) obtain s1 xs s2 hs where x: "expire s now = Some (s1, xs)" "handle_event s1 e = Some (s2, Ok hs)"
    "s' = fst (reconcile s2)" and w: "effect_wakes es = effect_wakes (snd (reconcile s2))" by (rule apply_steps)
  have "noted [] (broker_new limit)" by (simp add: noted_def broker_new_def)
  then obtain ws where ws: "noted ws s" using noted_runs.runs_keep [OF assms(1)] by blast
  have inv: "broker_inv s" using broker_runs.runs_keep [OF assms(1) broker_new_inv] .
  have ag: "agent_session (agent s') = agent_session (agent s2)" by (simp add: x(3) reconcile_frame(1))
  note sh = expire_shrunk [OF x(1)]
  have fresh: "i \<notin> set (queue s1)" if "e = EvSubmit i pk c d ra dt" for i pk c d ra dt
    using that assms(2) queue_pending [OF inv] sh by (auto simp: shrunk_def)
  have "effect_wakes es = (if agent_session (agent s') = None \<and> queue s' \<noteq> [] \<and> calls_for_wake s e s'
      then [\<lparr>reasons = wake_reasons s'\<rparr>] else [])"
  proof (cases "agent_session (agent s2) = None")
    case True
    have "calls_for_wake s e s' = calls_for_wake s1 e s2"
      using sh True by (cases e) (auto simp: shrunk_def x(3) reconcile_idle)
    moreover have "wake_announced s2" if "\<not> calls_for_wake s1 e s2" "queue s2 \<noteq> []"
    proof -
      from handle_event_wake_flag [OF x(2) True fresh] that(1) have "agent_session (agent s1) = None" "shrunk s1 s2" by auto
      with sh have "shrunk s s2" "agent_session (agent s) = None" by (auto simp: shrunk_def)
      with ws that(2) show ?thesis by (auto simp: shrunk_def noted_def)
    qed
    moreover have "\<not> wake_announced s2" if "calls_for_wake s1 e s2"
      using handle_event_wake_flag [OF x(2) True fresh] that by auto
    ultimately show ?thesis using True ag by (auto simp: w x(3) reconcile_idle)
  next
    case False
    then show ?thesis using ag reconcile_no_wake [OF False] by (simp add: w)
  qed
  moreover have "set (wake_reasons s') = {reason ctx |i p ctx. i \<in> set (queue s') \<and> hm_get (pending s') i = Some p \<and> pr_context p = Some ctx}"
    by (rule set_eqI) (simp only: wake_reasons_mem mem_Collect_eq, blast)
  ultimately show ?thesis by (simp add: wake_reasons_def distinct_first_seen)
qed

theorem broker_wakes_exactly_witness:
  "\<exists>s s' es. runs broker_step (broker_new 4) [(ex_submit 1 [9] [80] [], 0)] s
    \<and> apply_event s (ex_submit 2 [9] [81] []) 1 = Some (s', Ok es)
    \<and> effect_wakes es = [\<lparr>reasons = wake_reasons s'\<rparr>] \<and> set (wake_reasons s') = {[80], [81]}"
proof -
  obtain s es where ap: "apply_event (broker_new 4) (ex_submit 1 [9] [80] []) 0 = Some (s, Ok es)"
    and s: "hm_keys (pending s) = {1}" "next_sequence s = 1" "queue s = [1]" 
    by (simp add: wake_unfold)
  have run: "runs broker_step (broker_new 4) [(ex_submit 1 [9] [80] [], 0)] s"
    by (intro runs_Cons broker_step runs_Nil) (use ap in \<open>auto simp: broker_new_def ex_submit_def\<close>)
  obtain s' es' where ap': "apply_event s (ex_submit 2 [9] [81] []) 1 = Some (s', Ok es')"
    and s': "agent_session (agent s') = None" "queue s' = [1, 2]" "wake_reasons s' = [[80], [81]]"
    using ap by (auto simp: wake_unfold)
  have adm: "admissible s (ex_submit 2 [9] [81] [])" using s by (simp add: ex_submit_def)
  have "calls_for_wake s (ex_submit 2 [9] [81] []) s'" by (simp add: ex_submit_def s')
  with broker_wakes_exactly [OF run adm ap'] s' run ap' show ?thesis by auto
qed

section \<open>What a wake-up cannot reveal\<close>

text \<open>Erasing everything but the reasons from the contexts, and the packets.\<close>

definition erase_context :: "request_context \<Rightarrow> request_context" where
  "erase_context c = \<lparr>group_id = 0, reason = reason c, command = []\<rparr>"

definition erase_request :: "pending_request \<Rightarrow> pending_request" where
  "erase_request p = p\<lparr>pr_packet := [], pr_context := map_option erase_context (pr_context p)\<rparr>"

definition erase_pending :: "(request_id, pending_request) hashmap \<Rightarrow> (request_id, pending_request) hashmap" where
  "erase_pending m = map (map_prod id erase_request) m"

definition erase_state :: "broker_state \<Rightarrow> broker_state" where
  "erase_state s = s\<lparr>pending := erase_pending (pending s)\<rparr>"

fun erase_event :: "event \<Rightarrow> event" where
  "erase_event (EvSubmit i _ c deadline requested_at stamp) = EvSubmit i [] (map_option erase_context c) deadline requested_at stamp"
| "erase_event (EvResponse sid i k _) = EvResponse sid i k []"
| "erase_event e = e"

fun erase_effect :: "effect \<Rightarrow> effect" where
  "erase_effect (Dispatch sid i k requested_at deadline _ c) = Dispatch sid i k requested_at deadline [] (map_option erase_context c)"
| "erase_effect (Complete i (Inr _)) = Complete i (Ok [])"
| "erase_effect e = e"

lemma erase_request_fields [simp]:
  "pr_deadline (erase_request p) = pr_deadline p" "pr_state (erase_request p) = pr_state p"
  "pr_sequence (erase_request p) = pr_sequence p" "pr_attempt (erase_request p) = pr_attempt p"
  "pr_requested_at (erase_request p) = pr_requested_at p" "pr_deadline_timestamp (erase_request p) = pr_deadline_timestamp p"
  "pr_packet (erase_request p) = []" "pr_context (erase_request p) = map_option erase_context (pr_context p)"
  by (simp_all add: erase_request_def)

lemma erase_state_fields [simp]:
  "agent (erase_state s) = agent s" "queue (erase_state s) = queue s" "max_pending_requests (erase_state s) = max_pending_requests s"
  "next_sequence (erase_state s) = next_sequence s" "wake_announced (erase_state s) = wake_announced s"
  "pending (erase_state s) = erase_pending (pending s)"
  by (simp_all add: erase_state_def)

lemma erase_state_updates [simp]:
  "erase_state (s\<lparr>agent := a\<rparr>) = (erase_state s)\<lparr>agent := a\<rparr>"
  "erase_state (s\<lparr>queue := q\<rparr>) = (erase_state s)\<lparr>queue := q\<rparr>"
  "erase_state (s\<lparr>wake_announced := w\<rparr>) = (erase_state s)\<lparr>wake_announced := w\<rparr>"
  "erase_state (s\<lparr>next_sequence := n\<rparr>) = (erase_state s)\<lparr>next_sequence := n\<rparr>"
  "erase_state (s\<lparr>pending := m\<rparr>) = (erase_state s)\<lparr>pending := erase_pending m\<rparr>"
  by (simp_all add: erase_state_def)

lemma erase_pending_get [simp]: "hm_get (erase_pending m) i = map_option erase_request (hm_get m i)"
  by (induction m) (auto simp: hm_get_def erase_pending_def)

lemma erase_pending_remove [simp]: "hm_remove i (erase_pending m) = erase_pending (hm_remove i m)"
  by (induction m) (auto simp: hm_remove_def erase_pending_def)

lemma erase_pending_insert: "hm_insert i (erase_request p) (erase_pending m) = erase_pending (hm_insert i p m)"
  by (simp add: hm_insert_def) (simp add: erase_pending_def)

lemma erase_pending_set: "hm_set i (erase_request p) (erase_pending m) = erase_pending (hm_set i p m)"
  by (induction m) (auto simp: hm_set_def erase_pending_def)

lemma erase_pending_length [simp]: "length (erase_pending m) = length m"
  by (simp add: erase_pending_def)

lemma erase_cancel_effects [simp]: "cancel_effects i (erase_request p) = map erase_effect (cancel_effects i p)"
  by (simp add: cancel_effects_def split: pending_state.split)

lemma erase_expire_each:
  "expire_each xs (erase_pending m) = map_option (map_prod erase_pending (map erase_effect)) (expire_each xs m)"
  by (induction xs arbitrary: m) (auto split: option.splits)

lemma erase_expire:
  "expire (erase_state s) now = map_option (map_prod erase_state (map erase_effect)) (expire s now)"
proof -
  have "map (\<lambda>(i, p). (i, pr_sequence p)) (filter (\<lambda>(_, p). pr_deadline p \<le> now) (erase_pending m))
      = map (\<lambda>(i, p). (i, pr_sequence p)) (filter (\<lambda>(_, p). pr_deadline p \<le> now) m)" for m
    by (induction m) (auto simp: erase_pending_def)
  then show ?thesis
    by (simp add: expire_def Let_def erase_expire_each split: option.split)
qed

lemma erase_context_reason [simp]: "reason (erase_context c) = reason c"
  by (simp add: erase_context_def)

lemma erase_start_attempt [simp]: "start_attempt sid (erase_request p) = erase_request (start_attempt sid p)"
  by (simp add: start_attempt_def erase_request_def)

lemma erase_dispatch_effect [simp]: "dispatch_effect sid i (erase_request p) = erase_effect (dispatch_effect sid i p)"
  by (simp add: dispatch_effect_def)

lemma erase_dispatch_loop:
  "dispatch_loop sid c n q (erase_pending m) =
     map_prod id (map_prod erase_pending (map erase_effect)) (dispatch_loop sid c n q m)"
  by (induction q arbitrary: n m) (auto simp: Let_def case_prod_beta' erase_pending_set split: option.splits)

lemma erase_in_flight_for [simp]: "in_flight_for (erase_pending m) sid = in_flight_for m sid"
  by (induction m) (auto simp: in_flight_for_def erase_pending_def)

lemma erase_dispatch_work: "dispatch_work (erase_state s) = map_prod erase_state (map erase_effect) (dispatch_work s)"
  by (simp add: dispatch_work_def erase_dispatch_loop Let_def case_prod_beta' split: option.split)

lemma erase_wake_reasons [simp]: "wake_reasons (erase_state s) = wake_reasons s"
proof -
  have "map reason (List.map_filter (\<lambda>i. case map_option erase_request (hm_get m i) of None \<Rightarrow> None | Some p \<Rightarrow> pr_context p) q)
      = map reason (List.map_filter (\<lambda>i. case hm_get m i of None \<Rightarrow> None | Some p \<Rightarrow> pr_context p) q)" for m :: "(request_id, pending_request) hashmap" and q
    by (induction q) (auto simp: List.map_filter_def split: option.splits)
  then show ?thesis by (simp only: wake_reasons_def erase_state_fields erase_pending_get)
qed

lemma erase_announce_wake: "announce_wake (erase_state s) = map_prod erase_state (map erase_effect) (announce_wake s)"
  by (simp add: announce_wake_def)

lemma erase_reconcile: "reconcile (erase_state s) = map_prod erase_state (map erase_effect) (reconcile s)"
  by (simp add: reconcile_def Let_def case_prod_beta' erase_dispatch_work erase_announce_wake)

lemma erase_requeue_session: "requeue_session (erase_state s) sid = erase_state (requeue_session s sid)"
proof -
  have "map (\<lambda>(i, p). (i, pr_sequence p)) (filter (\<lambda>(_, p). in_flight_with sid (pr_state p)) (erase_pending m))
      = map (\<lambda>(i, p). (i, pr_sequence p)) (filter (\<lambda>(_, p). in_flight_with sid (pr_state p)) m)" for m
    by (induction m) (auto simp: erase_pending_def)
  moreover have "map (\<lambda>(i, p). (i, if in_flight_with sid (pr_state p) then p\<lparr>pr_state := Queued\<rparr> else p)) (erase_pending m)
      = erase_pending (map (\<lambda>(i, p). (i, if in_flight_with sid (pr_state p) then p\<lparr>pr_state := Queued\<rparr> else p)) m)" for m
    by (induction m) (auto simp: erase_pending_def erase_request_def)
  ultimately show ?thesis by (simp add: requeue_session_def Let_def)
qed

lemma erase_handle_event:
  "handle_event (erase_state s) (erase_event e) =
     map_option (map_prod erase_state (map_sum id (map erase_effect))) (handle_event s e)"
proof (cases e)
  case (EvSubmit i pk c d ra dt)
  show ?thesis
    by (simp add: EvSubmit submit_request_def erase_pending_insert [symmetric]) (simp add: erase_request_def)
qed (auto simp: remote_response_event_def cancel_request_def erase_requeue_session erase_pending_remove
    split: option.splits remote_agent_state.splits)

lemma erase_apply:
  "apply_event (erase_state s) (erase_event e) now =
     map_option (map_prod erase_state (map_sum id (map erase_effect))) (apply_event s e now)"
  by (simp add: apply_event_def erase_expire erase_handle_event erase_reconcile Let_def case_prod_beta'
      split: option.split sum.split)

lemma erase_complete_wakes [simp]: "effect_wakes (erase_effect (Complete i r) # es) = effect_wakes es"
  by (cases r) auto

lemma erase_wakes [simp]: "effect_wakes (map erase_effect es) = effect_wakes es"
  by (induction es rule: effect_wakes.induct) auto

text \<open>All wake-ups of a sequence of calls; a refused call leaves the expired requests removed.\<close>

fun announced :: "broker_state \<Rightarrow> (event \<times> instant) list \<Rightarrow> wake_request list option" where
  "announced s [] = Some []"
| "announced s ((e, now) # calls) =
     (case apply_event s e now of None \<Rightarrow> None
      | Some (s', Inl _) \<Rightarrow> announced s' calls
      | Some (s', Inr effects) \<Rightarrow> map_option ((@) (effect_wakes effects)) (announced s' calls))"

definition erase_call :: "event \<times> instant \<Rightarrow> event \<times> instant" where
  "erase_call = (\<lambda>(e, now). (erase_event e, now))"

lemma erase_announced: "announced (erase_state s) (map erase_call calls) = announced s calls"
proof (induction calls arbitrary: s)
  case (Cons x calls)
  obtain e now where x: "x = (e, now)" by (cases x)
  have "erase_call x = (erase_event e, now)" by (simp add: x erase_call_def)
  then show ?case by (simp add: x erase_apply Cons.IH split: option.split sum.split)
qed simp

lemma erase_broker_new: "erase_state (broker_new limit) = broker_new limit"
  by (simp add: erase_state_def broker_new_def erase_pending_def)

text \<open>
  C15: a wake-up reveals nothing but the reasons. Two histories of calls that differ only in the
  packets to sign, the signatures, the commands and the request groups make the broker send the
  same wake-ups, at the same calls and with the same text.
\<close>

theorem wakes_reveal_only_reasons:
  assumes "map erase_call calls = map erase_call calls'"
  shows "announced (broker_new limit) calls = announced (broker_new limit) calls'"
  using erase_announced [of "broker_new limit" calls] erase_announced [of "broker_new limit" calls'] assms
  by (simp add: erase_broker_new)

theorem wakes_reveal_only_reasons_witness:
  "announced (broker_new 4) [(ex_submit 1 [9] [80] [[103]], 0), (EvTick, 5)]
     = announced (broker_new 4) [(ex_submit 1 [7, 7] [80] [], 0), (EvTick, 5)]
   \<and> announced (broker_new 4) [(ex_submit 1 [9] [80] [[103]], 0), (EvTick, 5)] = Some [\<lparr>reasons = [[80]]\<rparr>]"
proof
  show "announced (broker_new 4) [(ex_submit 1 [9] [80] [[103]], 0), (EvTick, 5)]
     = announced (broker_new 4) [(ex_submit 1 [7, 7] [80] [], 0), (EvTick, 5)]"
    by (rule wakes_reveal_only_reasons) (simp add: erase_call_def ex_submit_def ex_wake_context_def erase_context_def)
  show "announced (broker_new 4) [(ex_submit 1 [9] [80] [[103]], 0), (EvTick, 5)] = Some [\<lparr>reasons = [[80]]\<rparr>]"
    by (simp add: wake_unfold)
qed

end
