(* ===== verification/Notify.thy ===== *)
theory Notify
  imports Push Pairing_Props Broker_Wake
begin

text \<open>
  The way of a notification: the broker task sends wake-ups, the delivery task of \<open>push.rs\<close>
  coalesces them and publishes to the subscription that the pairing service holds, while
  clients are paired, subscribe and are cleared.
\<close>

section \<open>The parts together\<close>

text \<open>
  \<open>nt_outbox\<close> holds the wake-ups that the current turn of the broker has still to send: the
  delivery task runs on another thread and may act between two of them. \<open>nt_looked_up\<close> is the
  subscription that a publication under way has read.
\<close>

record 'st notifier =
  nt_loop :: broker_loop
  nt_outbox :: "wake_request list"
  nt_push :: push_loop
  nt_pairing :: "'st pairing_service"
  nt_looked_up :: "'st pairing_service option"

definition notifier_init :: "broker_config \<Rightarrow> 'st pairing_service \<Rightarrow> 'st notifier" where
  "notifier_init config sv =
     \<lparr>nt_loop = run_broker_init config, nt_outbox = [], nt_push = push_init, nt_pairing = sv, nt_looked_up = None\<rparr>"

datatype ('env, 'msg) notify_label =
    NtBroker loop_label
  | NtSend wake_request
  | NtDropped
  | NtReceived
  | NtSlept
  | NtLookedUp
  | NtPublished wake_request "'msg option" "push_error + bool"
  | NtPairing "'env pairing_call" pairing_result

inductive notify_step ::
  "('req, 'cred) ssh_lib \<Rightarrow> ('env \<Rightarrow> 'st save_op) \<Rightarrow> (bytes \<Rightarrow> bytes) \<Rightarrow> ('sig, 'msg) push_lib \<Rightarrow> 'key p256_lib \<Rightarrow> 'key \<Rightarrow> nat \<Rightarrow>
     'st notifier \<Rightarrow> ('env, 'msg) notify_label \<Rightarrow> 'st notifier \<Rightarrow> bool"
  for lib save digest plib key_lib vapid ttl where
  nt_broker: "nt_outbox n = [] \<Longrightarrow> loop_step (nt_loop n) (b, now, send_ok, outs) l \<Longrightarrow>
    notify_step lib save digest plib key_lib vapid ttl n (NtBroker (b, now, send_ok, outs))
      (n\<lparr>nt_loop := l, nt_outbox := output_wakes outs\<rparr>)"
| nt_send: "nt_outbox n = w # ws \<Longrightarrow> push_step (nt_push n) (WakeSent w) p \<Longrightarrow>
    notify_step lib save digest plib key_lib vapid ttl n (NtSend w) (n\<lparr>nt_outbox := ws, nt_push := p\<rparr>)"
| nt_dropped: "nt_outbox n = [] \<Longrightarrow> \<not> l_running (nt_loop n) \<Longrightarrow> push_step (nt_push n) SenderDropped p \<Longrightarrow>
    notify_step lib save digest plib key_lib vapid ttl n NtDropped (n\<lparr>nt_push := p\<rparr>)"
| nt_received: "push_step (nt_push n) Received p \<Longrightarrow> notify_step lib save digest plib key_lib vapid ttl n NtReceived (n\<lparr>nt_push := p\<rparr>)"
| nt_slept: "push_step (nt_push n) Slept p \<Longrightarrow> notify_step lib save digest plib key_lib vapid ttl n NtSlept (n\<lparr>nt_push := p\<rparr>)"
| nt_lookup: "pw_phase (nt_push n) = Publishing w \<Longrightarrow> nt_looked_up n = None \<Longrightarrow>
    notify_step lib save digest plib key_lib vapid ttl n NtLookedUp (n\<lparr>nt_looked_up := Some (nt_pairing n)\<rparr>)"
| nt_published: "nt_looked_up n = Some sv \<Longrightarrow> push_step (nt_push n) (Published w) p \<Longrightarrow>
    publish plib key_lib sv vapid ttl w answer = (handed, r) \<Longrightarrow>
    notify_step lib save digest plib key_lib vapid ttl n (NtPublished w handed r)
      (n\<lparr>nt_push := p, nt_looked_up := None\<rparr>)"
| nt_pairing: "service_step lib save digest (nt_pairing n) (call, r) sv \<Longrightarrow>
    notify_step lib save digest plib key_lib vapid ttl n (NtPairing call r) (n\<lparr>nt_pairing := sv\<rparr>)"

text \<open>The turns of the broker and of the delivery task in a run of all.\<close>

fun broker_part :: "('env, 'msg) notify_label list \<Rightarrow> loop_label list" where
  "broker_part [] = []"
| "broker_part (NtBroker l # ls) = l # broker_part ls"
| "broker_part (_ # ls) = broker_part ls"

fun push_part :: "('env, 'msg) notify_label list \<Rightarrow> push_event list" where
  "push_part [] = []"
| "push_part (NtSend w # ls) = WakeSent w # push_part ls"
| "push_part (NtDropped # ls) = SenderDropped # push_part ls"
| "push_part (NtReceived # ls) = Received # push_part ls"
| "push_part (NtSlept # ls) = Slept # push_part ls"
| "push_part (NtPublished w _ _ # ls) = Published w # push_part ls"
| "push_part (_ # ls) = push_part ls"

lemma parts_append:
  "broker_part (xs @ ys) = broker_part xs @ broker_part ys" "push_part (xs @ ys) = push_part xs @ push_part ys"
  by (induction xs rule: broker_part.induct; simp) (induction xs rule: push_part.induct; simp)

lemma sent_wakes_append [simp]: "sent_wakes (xs @ ys) = sent_wakes xs @ sent_wakes ys"
  by (induction xs rule: sent_wakes.induct) auto

lemma published_wakes_append [simp]: "published_wakes (xs @ ys) = published_wakes xs @ published_wakes ys"
  by (induction xs rule: published_wakes.induct) auto

text \<open>
  What every run keeps: each part runs as it does alone, what the broker asked for has been
  sent or is about to be, and the channel stays open while there is something to send.
\<close>

definition traced :: "broker_config \<Rightarrow> ('env, 'msg) notify_label list \<Rightarrow> 'st notifier \<Rightarrow> bool" where
  "traced config ls n \<longleftrightarrow>
     runs loop_step (run_broker_init config) (broker_part ls) (nt_loop n)
     \<and> runs push_step push_init (push_part ls) (nt_push n)
     \<and> output_wakes (run_outputs (broker_part ls)) = sent_wakes (push_part ls) @ nt_outbox n
     \<and> (pw_sender_open (nt_push n) \<or> nt_outbox n = [] \<and> \<not> l_running (nt_loop n))
     \<and> (pw_phase (nt_push n) = Stopped \<longrightarrow> pw_queue (nt_push n) = [] \<and> \<not> pw_sender_open (nt_push n))
     \<and> (nt_looked_up n \<noteq> None \<longrightarrow> (\<exists>w. pw_phase (nt_push n) = Publishing w))"

lemma push_step_stopped:
  assumes "push_step l e l'" and "pw_phase l = Stopped \<longrightarrow> pw_queue l = [] \<and> \<not> pw_sender_open l"
  shows "pw_phase l' = Stopped \<longrightarrow> pw_queue l' = [] \<and> \<not> pw_sender_open l'"
  using assms by (cases rule: push_step.cases) auto

lemma push_step_open: "push_step l e l' \<Longrightarrow> e \<noteq> SenderDropped \<Longrightarrow> pw_sender_open l' = pw_sender_open l"
  by (cases rule: push_step.cases) auto

lemma push_step_publishing:
  "push_step l e l' \<Longrightarrow> pw_phase l = Publishing w \<Longrightarrow> (\<forall>w. e \<noteq> Published w) \<Longrightarrow> pw_phase l' = Publishing w"
  by (cases rule: push_step.cases) auto

text \<open>A turn of the delivery task that sends \<open>ws\<close> on from the outbox.\<close>

lemma traced_push:
  assumes "traced config ls n" and "push_step (nt_push n) e p" and "push_part [x] = [e]" and "broker_part [x] = []"
    and "nt_outbox n = sent_wakes [e] @ ws" and "e = SenderDropped \<longrightarrow> ws = [] \<and> \<not> l_running (nt_loop n)"
    and "look \<noteq> None \<longrightarrow> look = nt_looked_up n \<and> (\<forall>w. e \<noteq> Published w)"
  shows "traced config (ls @ [x]) (n\<lparr>nt_outbox := ws, nt_push := p, nt_looked_up := look\<rparr>)"
proof -
  have "pw_sender_open p \<or> ws = [] \<and> \<not> l_running (nt_loop n)"
    using assms(1,5,6) push_step_open [OF assms(2)] by (cases "e = SenderDropped") (auto simp: traced_def)
  moreover have "pw_phase p = Stopped \<longrightarrow> pw_queue p = [] \<and> \<not> pw_sender_open p"
    by (rule push_step_stopped [OF assms(2)]) (use assms(1) in \<open>simp add: traced_def\<close>)
  moreover have "\<exists>w. pw_phase p = Publishing w" if "look \<noteq> None"
    using assms(1,7) that push_step_publishing [OF assms(2)] by (auto simp: traced_def)
  moreover have "runs push_step push_init (push_part (ls @ [x])) p"
    using assms(1,2,3) by (auto simp: traced_def parts_append runs_append runs_Cons_iff)
  ultimately show ?thesis using assms(1,3,4,5) by (simp add: traced_def parts_append)
qed

lemma traced_step:
  assumes "notify_step lib save digest plib key_lib vapid ttl n x n'" and "traced config ls n"
  shows "traced config (ls @ [x]) n'"
  using assms(1)
proof (cases rule: notify_step.cases)
  case (nt_broker b now send_ok outs l)
  have "l_running (nt_loop n)" using nt_broker(4) by (rule loop_stepE)
  with nt_broker assms(2) show ?thesis
    by (simp add: traced_def parts_append runs_append runs_Cons_iff run_outputs_append) blast
next
  case (nt_send w ws p)
  from traced_push [OF assms(2) nt_send(4), of x ws "nt_looked_up n"] nt_send show ?thesis by simp
next
  case (nt_dropped p)
  have n': "n' = n\<lparr>nt_outbox := nt_outbox n, nt_push := p, nt_looked_up := nt_looked_up n\<rparr>" by (simp add: nt_dropped(2))
  show ?thesis unfolding n' by (rule traced_push [OF assms(2) nt_dropped(5)]) (simp_all add: nt_dropped(1,3,4))
next
  case (nt_received p)
  from traced_push [OF assms(2) nt_received(3), of x "nt_outbox n" "nt_looked_up n"] nt_received show ?thesis by simp
next
  case (nt_slept p)
  from traced_push [OF assms(2) nt_slept(3), of x "nt_outbox n" "nt_looked_up n"] nt_slept show ?thesis by simp
next
  case (nt_published sv w p answer handed r)
  from traced_push [OF assms(2) nt_published(4), of x "nt_outbox n" None] nt_published show ?thesis by simp
next
  case (nt_lookup w)
  with assms(2) show ?thesis by (simp add: traced_def parts_append)
next
  case (nt_pairing call r sv)
  with assms(2) show ?thesis by (simp add: traced_def parts_append)
qed

lemma notify_traced:
  assumes "runs (notify_step lib save digest plib key_lib vapid ttl) (notifier_init config sv) ls n"
  shows "traced config ls n"
  using assms
proof (induction ls arbitrary: n rule: rev_induct)
  case Nil
  then show ?case by (auto simp: traced_def notifier_init_def push_init_def intro: runs_Nil)
next
  case (snoc x ls)
  then show ?case by (auto simp: runs_append runs_Cons_iff intro: traced_step)
qed

section \<open>Settling\<close>

text \<open>Nothing on its way: the broker has sent everything, and the delivery task has nothing left to do.\<close>

definition settled :: "'st notifier \<Rightarrow> bool" where
  "settled n \<longleftrightarrow> nt_outbox n = [] \<and> backlog (nt_push n) = []"

fun delivery_turn :: "('env, 'msg) notify_label \<Rightarrow> bool" where
  "delivery_turn (NtBroker _) = False"
| "delivery_turn (NtPairing _ _) = False"
| "delivery_turn _ = True"

fun phase_left :: "push_phase \<Rightarrow> 'st pairing_service option \<Rightarrow> nat" where
  "phase_left (Sleeping _) _ = 3"
| "phase_left (Publishing _) None = 2"
| "phase_left (Publishing _) (Some _) = 1"
| "phase_left _ _ = 0"

definition left_to_do :: "'st notifier \<Rightarrow> nat" where
  "left_to_do n = 6 * length (nt_outbox n) + 5 * length (pw_queue (nt_push n)) + phase_left (pw_phase (nt_push n)) (nt_looked_up n)"

lemma delivery_progress:
  fixes n :: "'st notifier" and ls :: "('env, 'msg) notify_label list" and save :: "'env \<Rightarrow> 'st save_op" and plib :: "('sig, 'msg) push_lib"
  assumes "traced config ls n" and "\<not> settled n"
  obtains x n' where "notify_step lib save digest plib key_lib vapid ttl n x n'" and "delivery_turn x"
    and "nt_loop n' = nt_loop n" and "left_to_do n' < left_to_do n"
proof (cases "nt_outbox n")
  case (Cons w ws)
  then have "pw_sender_open (nt_push n)" using assms(1) by (auto simp: traced_def)
  then show thesis
    using that [OF nt_send [OF Cons wake_sent]] by (simp add: left_to_do_def Cons)
next
  case Nil
  show thesis
  proof (cases "pw_phase (nt_push n)")
    case Receiving
    with assms(2) Nil obtain w ws where q: "pw_queue (nt_push n) = w # ws"
      by (cases "pw_queue (nt_push n)") (auto simp: settled_def)
    from that [OF nt_received [OF received [OF Receiving q]]] show thesis by (simp add: left_to_do_def q Receiving)
  next
    case (Sleeping w)
    have "phase_left (Publishing v) y < 3" for v and y :: "'st pairing_service option" by (cases y) auto
    then show thesis using that [OF nt_slept [OF slept [OF Sleeping]]] by (simp add: left_to_do_def Sleeping trans_less_add2)
  next
    case (Publishing w)
    show thesis
    proof (cases "nt_looked_up n")
      case None
      from that [OF nt_lookup [OF Publishing None]] show thesis by (simp add: left_to_do_def Publishing None)
    next
      case (Some sv)
      obtain handed r where "publish plib key_lib sv vapid ttl w (\<lambda>_. None) = (handed, r)" by fastforce
      from that [OF nt_published [OF Some published [OF Publishing] this]] show thesis
        by (simp add: left_to_do_def Publishing Some)
    qed
  next
    case Stopped
    with assms Nil show thesis by (auto simp: traced_def settled_def)
  qed
qed

lemma delivery_settles:
  fixes n :: "'st notifier" and ls :: "('env, 'msg) notify_label list" and save :: "'env \<Rightarrow> 'st save_op" and plib :: "('sig, 'msg) push_lib"
  assumes "traced config ls n"
  shows "\<exists>ts n'. runs (notify_step lib save digest plib key_lib vapid ttl) n ts n' \<and> list_all delivery_turn ts
    \<and> nt_loop n' = nt_loop n \<and> settled n' \<and> length ts \<le> left_to_do n"
  using assms
proof (induction "left_to_do n" arbitrary: n ls rule: less_induct)
  case less
  show ?case
  proof (cases "settled n")
    case True
    then show ?thesis by (intro exI [of _ "[]"] exI [of _ n]) (simp add: runs_Nil)
  next
    case False
    from delivery_progress [OF less.prems False] obtain x n1 where x: "notify_step lib save digest plib key_lib vapid ttl n x n1"
      "delivery_turn x" "nt_loop n1 = nt_loop n" "left_to_do n1 < left_to_do n" .
    from less.hyps [OF x(4) traced_step [OF x(1) less.prems]] obtain ts n' where
      "runs (notify_step lib save digest plib key_lib vapid ttl) n1 ts n'" "list_all delivery_turn ts" "nt_loop n' = nt_loop n1"
      "settled n'" "length ts \<le> left_to_do n1" by blast
    with x show ?thesis by (intro exI [of _ "x # ts"] exI [of _ n']) (auto intro: runs_Cons)
  qed
qed

section \<open>Properties\<close>

text \<open>A push library for the examples, whose messages are the payloads.\<close>

definition ex_push_lib :: "(unit, bytes) push_lib" where
  "ex_push_lib = \<lparr>pl_json = (\<lambda>(title, body). Some (title @ body)), pl_base64 = id, pl_sign = (\<lambda>_ _. Some ()), pl_build = (\<lambda>_ _ payload _. Some payload)\<rparr>"


text \<open>
  The text that the user reads: the reason, or the first of several and the number of the
  others, or a general one if there is no reason at all.
\<close>

fun announced_text :: "rstring list \<Rightarrow> rstring" where
  "announced_text [] = NOTIFICATION_BODY"
| "announced_text [r] = r"
| "announced_text (r # others) = r @ map of_char '' ('' @ decimal (length others) @ [0xC3, 0x97] @ map of_char '' more)''"

lemma notification_body_text: "notification_body rs = announced_text rs"
  by (cases rs rule: announced_text.cases) (simp_all add: notification_body_def)

text \<open>
  A publication does its work: the push client is handed exactly the signed message with that
  text for the subscription of \<open>sv\<close>, nothing if there is no subscription or a library refuses,
  and success is reported only of a message that was handed over.
\<close>

definition user_told ::
  "('sig, 'msg) push_lib \<Rightarrow> 'key p256_lib \<Rightarrow> 'key \<Rightarrow> nat \<Rightarrow> 'st pairing_service \<Rightarrow> rstring list \<Rightarrow>
     'msg option \<Rightarrow> push_error + bool \<Rightarrow> bool" where
  "user_told plib key_lib vapid ttl sv rs handed r \<longleftrightarrow>
     (\<forall>message. handed = Some message \<longleftrightarrow>
        (\<exists>subscription signature payload. push_subscription_of sv = Some subscription
           \<and> pl_sign plib (pl_base64 plib (to_bytes key_lib vapid)) (endpoint subscription, p256dh subscription, auth subscription) = Some signature
           \<and> pl_json plib (NOTIFICATION_TITLE, announced_text rs) = Some payload
           \<and> pl_build plib (endpoint subscription, p256dh subscription, auth subscription) ttl payload signature = Some message))
     \<and> (r = Ok False \<longleftrightarrow> push_subscription_of sv = None)
     \<and> (r = Ok True \<longrightarrow> handed \<noteq> None)"

lemma publish_tells:
  "publish plib key_lib sv vapid ttl w answer = (handed, r) \<Longrightarrow> user_told plib key_lib vapid ttl sv (reasons w) handed r"
  by (auto simp: publish_def build_notification_def notification_payload_def notification_body_text encoded_private_key_def
      user_told_def Let_def split: option.splits sum.splits if_splits) metis

text \<open>
  The user has been told of everything that waits: if nobody is connected and a request waits,
  then there was a publication; the last one covers the reason of every waiting request that
  has one, and it did its work for the subscription that was registered when it looked it up.
\<close>

fun publication :: "('env, 'msg) notify_label \<Rightarrow> bool" where
  "publication (NtPublished _ _ _) = True"
| "publication _ = False"

definition covers :: "wake_request \<Rightarrow> broker_state \<Rightarrow> bool" where
  "covers w s \<longleftrightarrow> (\<forall>i p ctx. i \<in> set (queue s) \<longrightarrow> hm_get (pending s) i = Some p \<longrightarrow> pr_context p = Some ctx \<longrightarrow>
     reason ctx \<in> set (reasons w))"

definition user_informed ::
  "('sig, 'msg) push_lib \<Rightarrow> 'key p256_lib \<Rightarrow> 'key \<Rightarrow> nat \<Rightarrow> ('st notifier \<Rightarrow> ('env, 'msg) notify_label \<Rightarrow> 'st notifier \<Rightarrow> bool) \<Rightarrow>
     'st notifier \<Rightarrow> ('env, 'msg) notify_label list \<Rightarrow> broker_state \<Rightarrow> bool" where
  "user_informed plib key_lib vapid ttl step start ls s \<longleftrightarrow>
     (agent_session (agent s) = None \<longrightarrow> (\<exists>i \<in> set (queue s). hm_get (pending s) i \<noteq> None) \<longrightarrow>
      (\<exists>before m between w handed r later. ls = before @ NtLookedUp # between @ NtPublished w handed r # later
         \<and> runs step start before m \<and> (\<forall>x \<in> set (between @ later). \<not> publication x) \<and> NtLookedUp \<notin> set between
         \<and> covers w s \<and> user_told plib key_lib vapid ttl (nt_pairing m) (reasons w) handed r))"

lemma noted_covers:
  assumes "noted ws s" and "agent_session (agent s) = None" and "\<exists>i \<in> set (queue s). hm_get (pending s) i \<noteq> None"
  shows "ws \<noteq> [] \<and> covers (last ws) s"
  using assms by (auto simp: noted_def covers_def wake_reasons_mem subset_iff)

text \<open>What a publication under way has read, it read when it last looked up the subscription.\<close>

lemma looked_up_before:
  assumes "runs (notify_step lib save digest plib key_lib vapid ttl) (notifier_init config sv0) ls n" and "nt_looked_up n = Some sv"
  shows "\<exists>before m between. ls = before @ NtLookedUp # between
    \<and> runs (notify_step lib save digest plib key_lib vapid ttl) (notifier_init config sv0) before m \<and> nt_pairing m = sv
    \<and> (\<forall>x \<in> set between. \<not> publication x) \<and> NtLookedUp \<notin> set between"
  using assms
proof (induction ls arbitrary: n rule: rev_induct)
  case Nil
  then show ?case by (simp add: notifier_init_def)
next
  case (snoc x ls)
  from snoc.prems(1) obtain m where run: "runs (notify_step lib save digest plib key_lib vapid ttl) (notifier_init config sv0) ls m"
    and step: "notify_step lib save digest plib key_lib vapid ttl m x n" by (auto simp: runs_append runs_Cons_iff)
  show ?case
  proof (cases "x = NtLookedUp")
    case True
    with step snoc.prems(2) have "nt_pairing m = sv" by (cases rule: notify_step.cases) auto
    with True run show ?thesis by - (rule exI [of _ ls], rule exI [of _ m], rule exI [of _ "[]"], simp)
  next
    case False
    with step snoc.prems(2) have "nt_looked_up m = Some sv" "\<not> publication x" by (cases rule: notify_step.cases; auto)+
    from snoc.IH [OF run this(1)] obtain before k between where "ls = before @ NtLookedUp # between"
      "runs (notify_step lib save digest plib key_lib vapid ttl) (notifier_init config sv0) before k" "nt_pairing k = sv"
      "\<forall>x \<in> set between. \<not> publication x" "NtLookedUp \<notin> set between" by blast
    with False \<open>\<not> publication x\<close> show ?thesis by - (rule exI [of _ before], rule exI [of _ k], rule exI [of _ "between @ [x]"], auto)
  qed
qed

lemma last_publication:
  assumes "published_wakes (push_part ls) \<noteq> []"
  shows "\<exists>before handed r later. ls = before @ NtPublished (last (published_wakes (push_part ls))) handed r # later
    \<and> (\<forall>x \<in> set later. \<not> publication x)"
  using assms
proof (induction ls rule: rev_induct)
  case (snoc x ls)
  show ?case
  proof (cases "publication x")
    case True
    then obtain w handed r where "x = NtPublished w handed r" by (cases x) auto
    then show ?thesis by - (rule exI [of _ ls], rule exI [of _ handed], rule exI [of _ r], rule exI [of _ "[]"], simp add: parts_append)
  next
    case False
    then have same: "published_wakes (push_part (ls @ [x])) = published_wakes (push_part ls)"
      by (cases x) (simp_all add: parts_append)
    with snoc obtain before handed r later where
      "ls = before @ NtPublished (last (published_wakes (push_part ls))) handed r # later" "\<forall>x \<in> set later. \<not> publication x" by auto
    with False show ?thesis unfolding same
      by - (rule exI [of _ before], rule exI [of _ handed], rule exI [of _ r], rule exI [of _ "later @ [x]"], auto)
  qed
qed simp

lemma published_as_told:
  assumes "runs (notify_step lib save digest plib key_lib vapid ttl) (notifier_init config sv0) (ls @ NtPublished w handed r # later) n"
  shows "\<exists>before m between. ls = before @ NtLookedUp # between
    \<and> runs (notify_step lib save digest plib key_lib vapid ttl) (notifier_init config sv0) before m
    \<and> (\<forall>x \<in> set between. \<not> publication x) \<and> NtLookedUp \<notin> set between
    \<and> user_told plib key_lib vapid ttl (nt_pairing m) (reasons w) handed r"
proof -
  from assms obtain k k' where run: "runs (notify_step lib save digest plib key_lib vapid ttl) (notifier_init config sv0) ls k"
    and "notify_step lib save digest plib key_lib vapid ttl k (NtPublished w handed r) k'" by (auto simp: runs_append runs_Cons_iff)
  from this(2) obtain sv answer where "nt_looked_up k = Some sv" and "publish plib key_lib sv vapid ttl w answer = (handed, r)"
    by (cases rule: notify_step.cases) auto
  with looked_up_before [OF run] publish_tells show ?thesis by metis
qed

lemma settled_noted:
  assumes "traced config ls n" and "settled n"
  shows "noted (published_wakes (push_part ls)) (a_state (l_actor (nt_loop n)))"
proof -
  have start: "backlog push_init = []" by (simp add: push_init_def)
  have none: "backlog (nt_push n) = []" and out: "nt_outbox n = []" using assms(2) by (simp_all add: settled_def)
  from assms(1) have push: "runs push_step push_init (push_part ls) (nt_push n)"
    and "runs loop_step (run_broker_init config) (broker_part ls) (nt_loop n)"
    and sent: "output_wakes (run_outputs (broker_part ls)) = sent_wakes (push_part ls)" by (simp_all add: traced_def out)
  from run_noted [OF this(2)] sent have asked: "noted (sent_wakes (push_part ls)) (a_state (l_actor (nt_loop n)))" by simp
  from conjunct2 [OF push_run_progress [OF push]] have
    "sent_wakes (push_part ls) \<noteq> [] \<longrightarrow> published_wakes (push_part ls) \<noteq> [] \<and>
       last (published_wakes (push_part ls)) = last (sent_wakes (push_part ls))"
    unfolding start none by simp
  with asked show ?thesis by (auto simp: noted_def)
qed

lemma settled_informed:
  assumes "runs (notify_step lib save digest plib key_lib vapid ttl) (notifier_init config sv) ls n" and "settled n"
  shows "user_informed plib key_lib vapid ttl (notify_step lib save digest plib key_lib vapid ttl) (notifier_init config sv) ls
    (a_state (l_actor (nt_loop n)))"
  unfolding user_informed_def
proof (intro impI)
  let ?w = "last (published_wakes (push_part ls))" and ?s = "a_state (l_actor (nt_loop n))"
  assume "agent_session (agent ?s) = None" and "\<exists>i \<in> set (queue ?s). hm_get (pending ?s) i \<noteq> None"
  with settled_noted [OF notify_traced [OF assms(1)] assms(2)] have w: "published_wakes (push_part ls) \<noteq> []" "covers ?w ?s"
    using noted_covers by blast+
  from last_publication [OF w(1)] obtain prior handed r later where ls: "ls = prior @ NtPublished ?w handed r # later"
    and later: "\<forall>x \<in> set later. \<not> publication x" by blast
  from published_as_told [of lib save digest plib key_lib vapid ttl config sv prior ?w handed r later n] assms(1) ls
  obtain before m between where "prior = before @ NtLookedUp # between"
    "runs (notify_step lib save digest plib key_lib vapid ttl) (notifier_init config sv) before m"
    "\<forall>x \<in> set between. \<not> publication x" "NtLookedUp \<notin> set between"
    "user_told plib key_lib vapid ttl (nt_pairing m) (reasons ?w) handed r" by auto
  with ls later w(2)
  show "\<exists>before m between w handed r later. ls = before @ NtLookedUp # between @ NtPublished w handed r # later
      \<and> runs (notify_step lib save digest plib key_lib vapid ttl) (notifier_init config sv) before m
      \<and> (\<forall>x \<in> set (between @ later). \<not> publication x) \<and> NtLookedUp \<notin> set between
      \<and> covers w ?s \<and> user_told plib key_lib vapid ttl (nt_pairing m) (reasons w) handed r"
    by - (rule exI [of _ before], rule exI [of _ m], rule exI [of _ between], rule exI [of _ ?w], rule exI [of _ handed],
        rule exI [of _ r], rule exI [of _ later], auto)
qed

text \<open>
  C8: nobody waits unannounced. In any run of the broker, the delivery task and the pairing
  service together, whenever nothing is on its way, nobody is connected and a request waits, the
  last notification covers the reason of every waiting request that has one; its text is the
  first reason and the number of the others; and the signed message with that text was handed
  to the push client for the subscription registered when the publication looked it up. (No
  message is handed over only if there was no subscription, or if signing, encoding or
  building it failed.) From any moment on, the delivery task gets there by finitely many turns
  of its own, whatever the push service answers.
\<close>

theorem waiting_requests_are_announced:
  assumes "runs (notify_step lib save digest plib key_lib vapid ttl) (notifier_init config sv) ls n"
  shows "(settled n \<longrightarrow> user_informed plib key_lib vapid ttl (notify_step lib save digest plib key_lib vapid ttl)
        (notifier_init config sv) ls (a_state (l_actor (nt_loop n))))
    \<and> (\<exists>ts n'. runs (notify_step lib save digest plib key_lib vapid ttl) n ts n' \<and> list_all delivery_turn ts
         \<and> nt_loop n' = nt_loop n \<and> settled n'
         \<and> user_informed plib key_lib vapid ttl (notify_step lib save digest plib key_lib vapid ttl)
             (notifier_init config sv) (ls @ ts) (a_state (l_actor (nt_loop n))))"
proof -
  from delivery_settles [OF notify_traced [OF assms], of lib save digest plib key_lib vapid ttl] obtain ts n' where
    ts: "runs (notify_step lib save digest plib key_lib vapid ttl) n ts n'" "list_all delivery_turn ts" "nt_loop n' = nt_loop n" "settled n'"
    by blast
  with assms have "runs (notify_step lib save digest plib key_lib vapid ttl) (notifier_init config sv) (ls @ ts) n'"
    by (auto simp: runs_append)
  from settled_informed [OF this ts(4)] ts settled_informed [OF assms] show ?thesis by auto
qed

text \<open>A request with the reason \<open>P\<close> waits, and the notification is delivered to a subscribed client.\<close>

definition ex_subscribed :: "pairing_state option pairing_service" where
  "ex_subscribed = (let state = ex_paired_state\<lparr>client := map_option
       (\<lambda>c. c\<lparr>client_push_subscription := Some \<lparr>endpoint = [104], expiration_time = None, p256dh = [1], auth = [2]\<rparr>\<rparr>) (client ex_paired_state)\<rparr>
     in ex_paired\<lparr>sv_store := Some state, sv_state := state\<rparr>)"

lemma ex_subscription: "push_subscription_of ex_subscribed = Some \<lparr>endpoint = [104], expiration_time = None, p256dh = [1], auth = [2]\<rparr>"
  by (simp add: ex_subscribed_def push_subscription_of_def ex_paired_state_def Let_def)

abbreviation ex_nt_step ::
  "pairing_state option notifier \<Rightarrow> (unit, bytes) notify_label \<Rightarrow> pairing_state option notifier \<Rightarrow> bool" where
  "ex_nt_step \<equiv> notify_step ex_ssh_lib (\<lambda>_. memory_save) rev ex_push_lib ex_p256 9 60"

abbreviation ex_nt_wake :: wake_request where
  "ex_nt_wake \<equiv> \<lparr>reasons = [[80]]\<rparr>"

abbreviation ex_nt_loop :: broker_loop where
  "ex_nt_loop \<equiv> ex_loop RemoteDisconnected None ((ex_pending Queued 0)\<lparr>pr_context := Some (ex_wake_context [80] [])\<rparr>) [1] True"

abbreviation ex_nt_arrival :: "(unit, bytes) notify_label" where
  "ex_nt_arrival \<equiv> NtBroker (LocalRequest (ex_packet_request\<lparr>pq_context := Some (ex_wake_context [80] [])\<rparr>) 1 3000000, 5, \<lambda>_ _. True,
     [OutWake ex_nt_wake])"

lemma ex_nt_arrives:
  "ex_nt_step (notifier_init ex_config ex_subscribed) ex_nt_arrival
     ((notifier_init ex_config ex_subscribed)\<lparr>nt_loop := ex_nt_loop, nt_outbox := [ex_nt_wake]\<rparr>)"
proof -
  let ?b = "LocalRequest (ex_packet_request\<lparr>pq_context := Some (ex_wake_context [80] [])\<rparr>) 1 3000000"
  have "select_step (\<lambda>_ _. True) (run_broker_init ex_config) ?b 5 = Some (ex_nt_loop, [OutWake ex_nt_wake])"
    by (simp add: loop_unfold ex_loop_defs ex_wake_context_def)
  then have "loop_step (run_broker_init ex_config) (?b, 5, \<lambda>_ _. True, [OutWake ex_nt_wake]) ex_nt_loop"
    by (rule loop_step [rotated 3])
      (simp_all add: ex_loop_defs run_broker_init_def broker_new_def times_fit_def instant_add_def system_time_add_def)
  then show ?thesis
    using nt_broker [of "notifier_init ex_config ex_subscribed" ?b 5 "\<lambda>_ _. True" "[OutWake ex_nt_wake]" ex_nt_loop]
    by (simp add: notifier_init_def)
qed

lemma ex_nt_run:
  "\<exists>n handed r. runs ex_nt_step (notifier_init ex_config ex_subscribed)
       [ex_nt_arrival, NtSend ex_nt_wake, NtReceived, NtSlept, NtLookedUp, NtPublished ex_nt_wake handed r] n
     \<and> settled n \<and> nt_loop n = ex_nt_loop"
proof -
  let ?i = "notifier_init ex_config ex_subscribed"
  let ?n = "\<lambda>queue phase look. ?i\<lparr>nt_loop := ex_nt_loop, nt_push := push_init\<lparr>pw_queue := queue, pw_phase := phase\<rparr>, nt_looked_up := look\<rparr>"
  obtain handed r where p: "publish ex_push_lib ex_p256 ex_subscribed 9 60 ex_nt_wake (\<lambda>_. Some True) = (handed, r)" by fastforce
  have steps: "ex_nt_step (?i\<lparr>nt_loop := ex_nt_loop, nt_outbox := [ex_nt_wake]\<rparr>) (NtSend ex_nt_wake) (?n [ex_nt_wake] Receiving None)"
    "ex_nt_step (?n [ex_nt_wake] Receiving None) NtReceived (?n [] (Sleeping ex_nt_wake) None)"
    "ex_nt_step (?n [] (Sleeping ex_nt_wake) None) NtSlept (?n [] (Publishing ex_nt_wake) None)"
    "ex_nt_step (?n [] (Publishing ex_nt_wake) None) NtLookedUp (?n [] (Publishing ex_nt_wake) (Some ex_subscribed))"
    "ex_nt_step (?n [] (Publishing ex_nt_wake) (Some ex_subscribed)) (NtPublished ex_nt_wake handed r) (?n [] Receiving None)"
    using nt_send [of "?i\<lparr>nt_loop := ex_nt_loop, nt_outbox := [ex_nt_wake]\<rparr>" ex_nt_wake "[]", OF _ wake_sent]
      nt_received [of "?n [ex_nt_wake] Receiving None", OF received, of ex_nt_wake "[]"]
      nt_slept [of "?n [] (Sleeping ex_nt_wake) None", OF slept, of ex_nt_wake]
      nt_lookup [of "?n [] (Publishing ex_nt_wake) None" ex_nt_wake]
      nt_published [of "?n [] (Publishing ex_nt_wake) (Some ex_subscribed)" ex_subscribed ex_nt_wake, OF _ published p]
    by (simp_all add: notifier_init_def push_init_def)
  have "runs ex_nt_step ?i [ex_nt_arrival, NtSend ex_nt_wake, NtReceived, NtSlept, NtLookedUp, NtPublished ex_nt_wake handed r] (?n [] Receiving None)"
    by (rule runs_Cons, rule ex_nt_arrives, rule runs_Cons, rule steps(1), rule runs_Cons, rule steps(2), rule runs_Cons, rule steps(3),
        rule runs_Cons, rule steps(4), rule runs_Cons, rule steps(5), rule runs_Nil)
  then show ?thesis by (intro exI conjI) (auto simp: settled_def notifier_init_def push_init_def)
qed

lemma runs_pairing:
  "runs (notify_step lib save digest plib key_lib vapid ttl) n ls n' \<Longrightarrow> (\<forall>call r. NtPairing call r \<notin> set ls) \<Longrightarrow> nt_pairing n' = nt_pairing n"
proof (induction rule: runs.induct)
  case (runs_Cons n x m ls n')
  have "nt_pairing m = nt_pairing n" using runs_Cons.hyps(1) runs_Cons.prems by (cases rule: notify_step.cases) auto
  with runs_Cons show ?case by auto
qed simp

theorem waiting_requests_are_announced_witness:
  "\<exists>ls n r. runs ex_nt_step (notifier_init ex_config ex_subscribed) ls n \<and> queue (a_state (l_actor (nt_loop n))) = [1]
     \<and> NtPublished ex_nt_wake (Some (NOTIFICATION_TITLE @ [80])) r \<in> set ls"
proof -
  from ex_nt_run obtain n handed r where run: "runs ex_nt_step (notifier_init ex_config ex_subscribed)
       [ex_nt_arrival, NtSend ex_nt_wake, NtReceived, NtSlept, NtLookedUp, NtPublished ex_nt_wake handed r] n" (is "runs _ _ ?ls n")
    and n: "settled n" "nt_loop n = ex_nt_loop" by blast
  have "user_informed ex_push_lib ex_p256 9 60 ex_nt_step (notifier_init ex_config ex_subscribed) ?ls (a_state (l_actor ex_nt_loop))"
    using waiting_requests_are_announced [OF run] n by simp
  then obtain before m between w handed' r' later where ls: "?ls = before @ NtLookedUp # between @ NtPublished w handed' r' # later"
    and m: "runs ex_nt_step (notifier_init ex_config ex_subscribed) before m"
    and told: "user_told ex_push_lib ex_p256 9 60 (nt_pairing m) (reasons w) handed' r'"
    by (auto simp: user_informed_def ex_loop_def hm_get_def)
  have "NtPublished w handed' r' \<in> set ?ls" unfolding ls by simp
  then have same: "w = ex_nt_wake" "handed' = handed" by auto
  have "set before \<subseteq> set ?ls" unfolding ls by auto
  then have "nt_pairing m = ex_subscribed" using runs_pairing [OF m] by (auto simp: notifier_init_def)
  with told have "handed = Some (NOTIFICATION_TITLE @ [80])"
    by (simp add: same user_told_def ex_subscription ex_push_lib_def)
  with run n show ?thesis by (intro exI [of _ ?ls] exI [of _ n] exI [of _ r]) (simp add: ex_loop_def)
qed

section \<open>Cleared clients\<close>

fun subscribes :: "('env, 'msg) notify_label \<Rightarrow> bool" where
  "subscribes (NtPairing (CallSetPush _ _ _) (ResUpdate (Inr _))) = True"
| "subscribes _ = False"

text \<open>No publication that is under way, or begins, has a subscription to send to.\<close>

definition unsubscribed :: "'st notifier \<Rightarrow> bool" where
  "unsubscribed n \<longleftrightarrow> push_subscription_of (nt_pairing n) = None
     \<and> (\<forall>sv. nt_looked_up n = Some sv \<longrightarrow> push_subscription_of sv = None)"

lemma service_call_unsubscribed:
  assumes "service_call lib save digest sv call = (sv', r)" and "push_subscription_of sv = None"
    and "\<not> subscribes (NtPairing call r)"
  shows "push_subscription_of sv' = None"
  using assms
  by (cases call)
    (auto simp: pair_def authenticate_def set_push_subscription_def set_identities_def clear_def commit_def Let_def
      push_subscription_of_def split: if_splits option.splits sum.splits prod.splits)

lemma unsubscribed_step:
  assumes "notify_step lib save digest plib key_lib vapid ttl n x n'" and "unsubscribed n" and "\<not> subscribes x"
  shows "unsubscribed n' \<and> (\<forall>w handed r. x = NtPublished w handed r \<longrightarrow> handed = None \<and> r = Ok False)"
  using assms(1)
proof (cases rule: notify_step.cases)
  case (nt_pairing call r sv)
  then have "service_call lib save digest (nt_pairing n) call = (sv, r)" by (auto elim: service_stepE)
  from service_call_unsubscribed [OF this] assms(2,3) nt_pairing show ?thesis by (simp add: unsubscribed_def)
qed (use assms(2) in \<open>auto simp: unsubscribed_def publish_def\<close>)

lemma unsubscribed_run:
  "runs (notify_step lib save digest plib key_lib vapid ttl) n ls n' \<Longrightarrow> unsubscribed n \<Longrightarrow> \<not> list_ex subscribes ls \<Longrightarrow>
     NtPublished w handed r \<in> set ls \<Longrightarrow> handed = None \<and> r = Ok False"
proof (induction rule: runs.induct)
  case (runs_Cons n x m ls n')
  from unsubscribed_step [OF runs_Cons.hyps(1) runs_Cons.prems(1)] runs_Cons.prems(2)
  have "unsubscribed m" "\<forall>w handed r. x = NtPublished w handed r \<longrightarrow> handed = None \<and> r = Ok False" by auto
  with runs_Cons.IH runs_Cons.prems show ?case by auto
qed simp

lemma clear_unsubscribes: "clear save sv = (sv', Ok b) \<Longrightarrow> push_subscription_of sv' = None"
  by (auto simp: clear_def commit_def push_subscription_of_def Let_def split: if_splits prod.splits sum.splits)

text \<open>
  C38: a cleared client is left alone. Once the pairing is cleared, no notification is
  published to anybody until a client subscribes again: every later publication ends
  without handing a message to the push client, unless it had read the subscription before.
\<close>

theorem cleared_client_is_not_notified:
  assumes "runs (notify_step lib save digest plib key_lib vapid ttl) n (NtPairing (CallClear env) (ResClear (Ok b)) # ls) n'"
    and "nt_looked_up n = None" and "\<not> list_ex subscribes ls" and "NtPublished w handed r \<in> set ls"
  shows "handed = None \<and> r = Ok False"
proof -
  from assms(1) obtain m where m: "notify_step lib save digest plib key_lib vapid ttl n (NtPairing (CallClear env) (ResClear (Ok b))) m"
    and run: "runs (notify_step lib save digest plib key_lib vapid ttl) m ls n'" by (auto simp: runs_Cons_iff)
  from m obtain sv where call: "service_call lib save digest (nt_pairing n) (CallClear env) = (sv, ResClear (Ok b))"
    and m': "m = n\<lparr>nt_pairing := sv\<rparr>" by (cases rule: notify_step.cases) (auto elim: service_stepE)
  have "push_subscription_of sv = None"
    by (rule clear_unsubscribes [of "save env" "nt_pairing n" _ b]) (use call in \<open>auto simp: map_prod_def split: prod.splits\<close>)
  then have "unsubscribed m" by (simp add: unsubscribed_def m' assms(2))
  from unsubscribed_run [OF run this assms(3,4)] show ?thesis .
qed

theorem cleared_client_is_not_notified_witness:
  "\<exists>n n' w handed r. runs (notify_step ex_ssh_lib (\<lambda>_ :: unit. memory_save) rev ex_push_lib ex_p256 9 60) n
       [NtPairing (CallClear ()) (ResClear (Ok True)), NtLookedUp, NtPublished w handed r] n'
     \<and> push_subscription_of (nt_pairing n) \<noteq> None \<and> handed = None \<and> r = Ok False"
proof -
  let ?step = "notify_step ex_ssh_lib (\<lambda>_ :: unit. memory_save) rev ex_push_lib ex_p256 9 60"
  let ?w = "\<lparr>reasons = [[80]]\<rparr> :: wake_request"
  let ?n = "(notifier_init ex_config ex_subscribed)\<lparr>nt_push := push_init\<lparr>pw_phase := Publishing ?w\<rparr>\<rparr>"
  obtain sv where "service_step ex_ssh_lib (\<lambda>_ :: unit. memory_save) rev (nt_pairing ?n) (CallClear (), ResClear (Ok True)) sv"
    by (rule that, rule service_step)
      (simp add: clear_def commit_def memory_save_def Let_def ex_subscribed_def ex_paired_state_def notifier_init_def)
  then have a: "?step ?n (NtPairing (CallClear ()) (ResClear (Ok True))) (?n\<lparr>nt_pairing := sv\<rparr>)" by (rule nt_pairing)
  have b: "?step (?n\<lparr>nt_pairing := sv\<rparr>) NtLookedUp (?n\<lparr>nt_pairing := sv, nt_looked_up := Some sv\<rparr>)"
    using nt_lookup [of "?n\<lparr>nt_pairing := sv\<rparr>" ?w] by (simp add: notifier_init_def)
  obtain handed r where "publish ex_push_lib ex_p256 sv 9 60 ?w (\<lambda>_. Some True) = (handed, r)" by fastforce
  then obtain p where c: "?step (?n\<lparr>nt_pairing := sv, nt_looked_up := Some sv\<rparr>) (NtPublished ?w handed r)
      (?n\<lparr>nt_pairing := sv, nt_looked_up := Some sv, nt_push := p, nt_looked_up := None\<rparr>)"
    by (elim that [OF nt_published, rotated 2]) (simp, rule published, simp)
  have run: "\<exists>n'. runs ?step ?n (NtPairing (CallClear ()) (ResClear (Ok True)) # [NtLookedUp, NtPublished ?w handed r]) n'"
    by (rule exI, rule runs_Cons, rule a, rule runs_Cons, rule b, rule runs_Cons, rule c, rule runs_Nil)
  then obtain n' where run': "runs ?step ?n (NtPairing (CallClear ()) (ResClear (Ok True)) # [NtLookedUp, NtPublished ?w handed r]) n'" ..
  have "handed = None \<and> r = Ok False"
    by (rule cleared_client_is_not_notified [OF run', where w = ?w]) (simp_all add: notifier_init_def)
  moreover have "push_subscription_of (nt_pairing ?n) \<noteq> None" by (simp add: notifier_init_def ex_subscribed_def push_subscription_of_def ex_paired_state_def Let_def)
  ultimately show ?thesis using run' by (intro exI conjI) (simp_all only:)
qed

end
