(* ===== verification/Web.thy ===== *)
theory Web
  imports Assets Daemon
begin

text \<open>
  \<open>web/mod.rs\<close>: the routes of the HTTP listener. The router of \<open>axum\<close>, its extractors and the
  WebSocket handshake are parameters; the layers of \<open>sentry\<close> only record what passes.
\<close>

section \<open>Requests\<close>

record http_request =
  rq_method :: rstring
  rq_path :: rstring
  rq_if_none_match :: "bytes option"

text \<open>
  \<open>ax_match\<close> matches a path against a pattern and gives the captured part, \<open>ax_get\<close> says which
  methods \<open>get\<close> serves, \<open>ax_path\<close> decodes a captured part, and \<open>ax_upgrade\<close> is the handshake: a
  rejection, or the response that switches protocols.
\<close>

record axum_lib =
  ax_match :: "rstring \<Rightarrow> rstring \<Rightarrow> rstring option"
  ax_get :: "rstring \<Rightarrow> bool"
  ax_path :: "rstring \<Rightarrow> http_response + rstring"
  ax_upgrade :: "http_request \<Rightarrow> http_response + http_response"
  ax_method_not_allowed :: http_response

record web_state =
  ws_max_message_size :: nat
  ws_sentry_frontend_dsn :: "rstring option"

section \<open>The router\<close>

datatype web_handler = UpgradeAgent | ServeIndex | ServeManifest | ServeServiceWorker | ServeAsset

text \<open>\<open>embedded_ui\<close> is the feature of the build that adds the application.\<close>

definition web_routes :: "bool \<Rightarrow> (rstring \<times> web_handler) list" where
  "web_routes embedded_ui =
     (text_of ''/api/agent'', UpgradeAgent) #
     (if embedded_ui then
        [(text_of ''/'', ServeIndex),
         (text_of ''/manifest.webmanifest'', ServeManifest),
         (text_of ''/service-worker.js'', ServeServiceWorker),
         (text_of ''/assets/{*path}'', ServeAsset)]
      else [])"

text \<open>What the listener does: answer, start a session whose messages are limited, or panic.\<close>

datatype web_answer = Answer http_response | StartSession nat http_response | HandlerPanic

definition upgrade_agent :: "axum_lib \<Rightarrow> web_state \<Rightarrow> http_request \<Rightarrow> web_answer" where
  "upgrade_agent ax st rq =
     (case ax_upgrade ax rq of Inl rejection \<Rightarrow> Answer rejection
      | Inr switching \<Rightarrow> StartSession (ws_max_message_size st) switching)"

fun handle_request :: "axum_lib \<Rightarrow> web_lib \<Rightarrow> web_state \<Rightarrow> http_request \<Rightarrow> web_handler \<Rightarrow> rstring \<Rightarrow> web_answer" where
  "handle_request ax lib st rq UpgradeAgent captured = upgrade_agent ax st rq"
| "handle_request ax lib st rq ServeIndex captured =
     (case index lib (ws_sentry_frontend_dsn st) (rq_if_none_match rq) of None \<Rightarrow> HandlerPanic | Some r \<Rightarrow> Answer r)"
| "handle_request ax lib st rq ServeManifest captured = Answer (manifest lib (rq_if_none_match rq))"
| "handle_request ax lib st rq ServeServiceWorker captured = Answer (service_worker lib (rq_if_none_match rq))"
| "handle_request ax lib st rq ServeAsset captured =
     (case ax_path ax captured of Inl rejection \<Rightarrow> Answer rejection
      | Inr name \<Rightarrow> Answer (asset lib name (rq_if_none_match rq)))"

fun find_route :: "axum_lib \<Rightarrow> rstring \<Rightarrow> (rstring \<times> web_handler) list \<Rightarrow> (web_handler \<times> rstring) option" where
  "find_route ax p [] = None"
| "find_route ax p ((pattern, h) # routes) =
     (case ax_match ax pattern p of Some captured \<Rightarrow> Some (h, captured) | None \<Rightarrow> find_route ax p routes)"

definition web_router :: "axum_lib \<Rightarrow> web_lib \<Rightarrow> bool \<Rightarrow> web_state \<Rightarrow> http_request \<Rightarrow> web_answer" where
  "web_router ax lib embedded_ui st rq =
     (case find_route ax (rq_path rq) (web_routes embedded_ui) of None \<Rightarrow> Answer not_found
      | Some (h, captured) \<Rightarrow>
          if ax_get ax (rq_method rq) then handle_request ax lib st rq h captured
          else Answer (ax_method_not_allowed ax))"

text \<open>The state that the daemon gives to the router.\<close>

definition daemon_web_state :: "'key daemon \<Rightarrow> web_state" where
  "daemon_web_state d = \<lparr>ws_max_message_size = dm_max_message_size d, ws_sentry_frontend_dsn = dm_frontend_dsn d\<rparr>"

section \<open>Properties\<close>

text \<open>
  The documented matching of \<open>axum\<close> on the patterns in use: a pattern without a parameter
  matches itself, and the wildcard any non-empty rest.
\<close>

definition axum_matches :: "axum_lib \<Rightarrow> bool" where
  "axum_matches ax \<longleftrightarrow>
     (\<forall>pattern p. 123 \<notin> set pattern \<longrightarrow> ax_match ax pattern p = (if p = pattern then Some [] else None))
     \<and> (\<forall>p. ax_match ax (text_of ''/assets/{*path}'') p =
          (if take 8 p = text_of ''/assets/'' \<and> 8 < length p then Some (drop 8 p) else None))"

lemma ax_match_literal: "axum_matches ax \<Longrightarrow> 123 \<notin> set pattern \<Longrightarrow> ax_match ax pattern p = (if p = pattern then Some [] else None)"
  by (simp add: axum_matches_def)

lemma ax_match_wildcard:
  assumes "axum_matches ax"
  shows "ax_match ax (text_of ''/assets/{*path}'') p =
    (if take 8 p = text_of ''/assets/'' \<and> 8 < length p then Some (drop 8 p) else None)"
  using assms unfolding axum_matches_def by blast

lemma find_route_Some:
  "axum_matches ax \<Longrightarrow> find_route ax p (web_routes embedded_ui) = Some (h, captured) \<Longrightarrow>
     h = UpgradeAgent \<and> p = text_of ''/api/agent'' \<or> embedded_ui \<and> h \<noteq> UpgradeAgent
       \<and> (h = ServeAsset \<longrightarrow> p = text_of ''/assets/'' @ captured)"
  by (auto simp: web_routes_def ax_match_literal ax_match_wildcard [simplified]
      split: if_splits option.splits) (metis append_Cons append_Nil append_take_drop_id)+

text \<open>Exactly one route takes each path, so that the order of registration is irrelevant.\<close>

lemma routes_exclusive:
  assumes "axum_matches ax" and "(a, h) \<in> set (web_routes True)" and "(b, k) \<in> set (web_routes True)"
    and "ax_match ax a p \<noteq> None" and "ax_match ax b p \<noteq> None"
  shows "h = k"
  using assms(2-5)
  by (auto simp: web_routes_def ax_match_literal [OF assms(1)] ax_match_wildcard [OF assms(1), simplified]
      split: if_splits)

lemma handle_request_session:
  "handle_request ax lib st rq h captured = StartSession limit r \<longleftrightarrow>
     h = UpgradeAgent \<and> limit = ws_max_message_size st \<and> ax_upgrade ax rq = Inr r"
  by (cases h) (auto simp: upgrade_agent_def split: option.split sum.split)

text \<open>A session starts exactly for a WebSocket handshake at the path of the agent.\<close>

lemma sessions_start_at_agent_path:
  assumes "axum_matches ax"
  shows "web_router ax lib embedded_ui st rq = StartSession limit r \<longleftrightarrow>
    rq_path rq = text_of ''/api/agent'' \<and> ax_get ax (rq_method rq) \<and> ax_upgrade ax rq = Inr r
      \<and> limit = ws_max_message_size st"
proof -
  have agent: "find_route ax (text_of ''/api/agent'') (web_routes embedded_ui) = Some (UpgradeAgent, [])"
    by (simp add: web_routes_def ax_match_literal [OF assms])
  show ?thesis
    using find_route_Some [OF assms, of "rq_path rq" embedded_ui] agent
    by (auto simp: web_router_def handle_request_session split: option.splits if_splits)
qed

end
