(* ===== verification/Spec2Isabelle.thy ===== *)
theory Spec2Isabelle
  imports Cli Server_Props Notify Web
begin

text \<open>
  A verification of the agent-witness server (\<open>crates/server/src\<close>).

  \<^bold>\<open>The program.\<close> Local programs speak the SSH-agent protocol to a Unix socket. The server
  forwards their requests to one paired browser over a WebSocket and returns its answers.
  The parts, and the flow of a request through them: a connection of the agent socket
  (\<open>agent_socket\<close>) cuts the byte stream into packets and hands each to the request router
  (\<open>request_router\<close>), which answers identity requests from what the browser has published,
  records a context extension, and submits the rest to the broker (\<open>broker\<close>). The broker
  queues requests, dispatches them to the session of the browser (\<open>remote/session\<close>), matches
  the answers and enforces deadlines; if nobody is connected it asks for a push notification
  (\<open>push\<close>). Sessions are authorized by the pairing service (\<open>remote/pairing\<close>), which a local
  administrator can clear through the control socket (\<open>control\<close>). The daemon starts and stops
  all of this from a configuration.

  \<^bold>\<open>Theories, in the order of imports.\<close>

  \<^item> \<open>Prelude\<close>: bytes as words, results as sums, hash maps as association lists in iteration
    order, runs of labelled step relations, the locale \<open>kept_by_steps\<close> of invariants.
  \<^item> \<open>Wire\<close>: big-endian integers, slices, UTF-8 validation and lossy decoding.
  \<^item> \<open>Packet\<close> (\<open>packet.rs\<close>), \<open>Context\<close> (\<open>request_router/context.rs\<close>): frames, identities
    answers, and the encoder and the decoder of the context extension, which accepts exactly
    the packets of its grammar; the locale \<open>field_codec\<close> states the laws of its fields.
  \<^item> \<open>Router\<close> (\<open>request_router.rs\<close>): the routing of a packet with the watch channel of
    identities.
  \<^item> \<open>Listener\<close> (\<open>agent_socket/listener.rs\<close>): a connection as a step relation, its frames, its
    queue of responses, and the accept loop.
  \<^item> \<open>Broker_Model\<close> (\<open>broker/model.rs\<close>): the pure state machine with its panics. \<open>Broker_Spec\<close>
    is its specification, one list of requests in order of admission without sequence numbers,
    queue or hash map; \<open>Broker_Correct\<close> proves the refinement and \<open>Broker_Props\<close> its
    consequences.
  \<^item> \<open>Broker_Task\<close> (\<open>broker/task.rs\<close>): the actor and its select loop over channels,
    and the locale \<open>execution\<close> of what the execution of effects keeps, which the following
    theories interpret; \<open>Broker_Actor\<close> its invariants, \<open>Broker_Actor_Props\<close> what callers get, \<open>Broker_Delivery\<close>
    what was sent to the client, \<open>Broker_Reply\<close> where answers come from, \<open>Broker_Remote\<close> whose
    channel the requests are sent on, \<open>Broker_Wake\<close> when the user is woken and what a wake-up
    can reveal.
  \<^item> \<open>Gateway\<close>: a connection composed with the broker through \<open>submit\<close>.
  \<^item> \<open>Pairing\<close> (\<open>remote/pairing/mod.rs\<close>, \<open>memory.rs\<close>) over the store interface of the locale
    \<open>pairing_store\<close> and its extension \<open>reloadable_store\<close>; \<open>File_Store\<close>
    (\<open>remote/pairing/file.rs\<close>) interprets both with the atomic replacement of a private file;
    \<open>Pairing_Props\<close> has the properties. Identities and revocations are watch channels: a value
    and a version, which a subscriber compares with the one it has seen.
  \<^item> \<open>Protocol\<close> (\<open>remote/protocol.rs\<close>), \<open>Session\<close> and \<open>Session_Props\<close>
    (\<open>remote/session.rs\<close>): messages, the handshake and the session loop.
  \<^item> \<open>Server\<close>: the composition of all these, with any number of WebSockets from the first
    message to the end, the mailbox of the broker (\<open>BrokerHandle\<close>), the channels of the
    sessions, revocations, and a connection of the agent socket; \<open>Server_Run\<close> is a concrete
    run and \<open>Server_Props\<close> has the properties.
  \<^item> \<open>Socket_File\<close> (\<open>agent_socket/file.rs\<close>, \<open>mod.rs\<close>) and \<open>Control\<close> (\<open>control/*.rs\<close>): two
    implementations of the locale \<open>socket_owner\<close>, the control protocol, server and client.
  \<^item> \<open>Config\<close> (\<open>config.rs\<close>), \<open>Push\<close> (\<open>push.rs\<close>), \<open>Assets\<close> (\<open>web/assets.rs\<close>).
  \<^item> \<open>Notify\<close>: the broker, the delivery task of \<open>push.rs\<close> and the pairing service composed as
    \<open>daemon.rs\<close> wires them; a turn of the broker sends its wake-ups one by one, and a
    publication reads the subscription before it is sent. The label of a publication has the
    message that was handed to the push client.
  \<^item> \<open>Daemon\<close> (\<open>daemon.rs\<close>), \<open>Web\<close> (\<open>web/mod.rs\<close>) and \<open>Cli\<close> (\<open>cli.rs\<close>): start, supervision
    and end of the whole, the HTTP routes, and the commands.

  \<^bold>\<open>How code is modelled.\<close> A struct is a record, an enum a datatype, a \<open>Result\<close> a sum and a
  panic \<^term>\<open>None\<close>. Every function is a definition with its early returns; a loop over
  \<open>select\<close> is a step function of the branch taken and a step relation that allows every
  branch that is enabled, so the properties hold for every schedule. Channels are numbers, a
  send is an output. Whether a send or a system call succeeds, what other processes do, the
  clock and random values are arguments. Counters wrap at their width: \<open>u32\<close> attempts and
  \<open>u64\<close> sequence numbers. Time is in nanoseconds, and adding a timeout to a clock panics
  where the seconds exceed an \<open>i64\<close>. Sizes are natural numbers where the code
  compares them only.

  \<^bold>\<open>What is shown.\<close> End to end: what a local program reads are, in order, the answers to its
  packets, and each is a failure or what a WebSocket that proved the pairing sent as the
  response to that packet in the context of that connection, on the session it was given the
  request on; a session that outlives its pairing has a revocation pending. For the broker:
  refinement of its specification, panics exactly on deadlines that do not fit the clocks, bounded
  queues, first-in first-out dispatch, exactly one answer to each caller, deadlines, and rest
  when nothing arrives. For notifications: a wake-up is asked for exactly when a request joins
  the queue or the session ends while nobody is connected, the message last handed to the push
  client covers the reasons of all that wait, a notification depends on nothing of a request but its reason, and a cleared client gets
  none. For pairing: only a client with the credential gets a session, one
  client at a time, state that survives restarts, and what each failure of storage leaves. For
  the parsers: equivalence with grammars, round trips, exact limits. For sockets and the daemon,
  as long as no other process interferes: no file in use is touched, a drop removes nothing but
  the socket that was bound, and a daemon that had started leaves nothing behind. Where the code
  deviates from its intention, the theorem states what it does:
  \<open>broker_refused_connect_strands_caller\<close>, \<open>session_conflict_strands_pairing\<close>,
  \<open>pairing_sync_failure_strands\<close>, \<open>listener_frames_exact\<close>, \<open>oversized_timeout_stops_broker\<close>,
  \<open>failed_inspection_abandons_socket\<close>.

  \<^bold>\<open>Bounds.\<close> Every function of the development terminates. There is fuel in one place: the
  loop that draws random bytes until they are a valid key consumes a given list of draws
  (\<open>generate_key\<close>), and \<^term>\<open>None\<close> means that the list was too short; the properties speak
  about the runs that return. Runs of step relations are finite prefixes of arbitrary
  length.

  \<^bold>\<open>Parameters.\<close> Code that is not part of the repository is an argument with its documented
  behaviour as a hypothesis where one is needed: the SSH-agent message codec, MessagePack,
  JSON, the length-delimited codec, SHA-256, P-256, base64, UUID text, the VAPID and push
  client, figment, humantime, the DSN parser, media types, the path matching and the
  WebSocket handshake of axum.

  \<^bold>\<open>Not modelled.\<close> Logging; the argument parser; the scheduler of tokio beyond the freedom of the step relations; the
  tests; the TypeScript application. Sockets, the key file and the state file live in
  separate parts of the modelled file system, so one cannot be configured at the path of
  another.
\<close>

section \<open>Pairing and routing\<close>

lemma derive_answer_valid:
  assumes "\<forall>r n. response_encoded_len lib r = Some n \<longrightarrow> response_encode lib r \<noteq> None"
    and "case v of None \<Rightarrow> True | Some ids \<Rightarrow> validate_identities lib ids = Ok ()"
  shows "\<exists>answer. derive_answer lib v = Ok answer"
  using assms(2) validate_identities_agrees [OF assms(1)]
  by (auto simp: derive_answer_def split: option.splits)

lemma published_identities_derive:
  assumes "\<forall>r n. response_encoded_len lib r = Some n \<longrightarrow> response_encode lib r \<noteq> None"
    and "service_open lib load (save env) store new_id = (store', Ok sv0)"
    and "runs (service_step lib save digest) sv0 ls sv"
  shows "\<exists>answer. derive_answer lib (w_value (sv_identities sv)) = Ok answer"
proof -
  have "service_inv lib sv0" using assms(2) by (cases rule: service_open_cases) (auto dest: open_with_inv)
  with assms(3) have "service_inv lib sv" by (rule service_runs.runs_keep)
  then have "case w_value (sv_identities sv) of None \<Rightarrow> True | Some ids \<Rightarrow> validate_identities lib ids = Ok ()"
    unfolding service_inv_def by (elim conjE)
  with assms(1) show ?thesis by (rule derive_answer_valid)
qed

text \<open>
  C10: the identities that pairing publishes are never refused by the router. If the codec
  encodes every answer whose length it can announce, then whatever calls the pairing service
  has served since it was opened, \<open>RequestRouter::new\<close> and \<open>connection\<close> succeed on its watch
  channel, and no connection, however stale its cache, rejects a packet with
  \<open>InvalidIdentities\<close>.
\<close>

theorem published_identities_never_refused:
  assumes "\<forall>r n. response_encoded_len lib r = Some n \<longrightarrow> response_encode lib r \<noteq> None"
    and "service_open lib load (save env) store new_id = (store', Ok sv0)"
    and "runs (service_step lib save digest) sv0 ls sv"
  shows "request_router_new lib (sv_identities sv) seen = Ok seen
    \<and> (\<exists>fresh. connection_router_new lib (sv_identities sv) seen = Ok fresh)
    \<and> snd (route lib parse_str (sv_identities sv) r packet cancellation) \<noteq> Err (InvalidIdentities e)"
proof -
  obtain answer where answer: "derive_answer lib (w_value (sv_identities sv)) = Ok answer"
    using published_identities_derive [OF assms] by blast
  have "\<exists>r1. refresh_identity_answer lib (sv_identities sv) r = (r1, Ok ())"
    by (auto simp: refresh_identity_answer_def answer Let_def)
  with answer show ?thesis
    by (auto simp: request_router_new_def connection_router_new_def route_def Let_def split: sum.splits option.splits if_splits)
qed

theorem published_identities_never_refused_witness:
  "request_router_new ex_ssh_lib (sv_identities ex_paired) 0 = Ok 0"
proof -
  have law: "\<forall>r n. response_encoded_len ex_ssh_lib r = Some n \<longrightarrow> response_encode ex_ssh_lib r \<noteq> None"
    by (simp add: ex_ssh_lib_def)
  have "service_open ex_ssh_lib memory_load memory_save None 1 = (Some (unpaired 1), Ok ex_fresh)"
    by (simp add: service_open_def memory_load_def memory_save_def open_with_def state_identities_def Let_def ex_fresh_def)
       (simp add: unpaired_def)
  from published_identities_never_refused [where save = "\<lambda>_. memory_save" and env = "()", OF law this ex_pair_run]
  show ?thesis by blast
qed

end
